(* ===== verification/Rsctf_Prelude.thy ===== *)
theory Rsctf_Prelude
  imports Main "HOL-Library.Word" "HOL-Library.Multiset" "HOL-Library.Sublist"
begin

text \<open>
  Shared vocabulary of the development: Rust's fixed-width integers with their checked and
  saturating operations, \<open>Result\<close> values as sums, loops with early return, Rust strings as
  lists of Unicode scalar values with their UTF-8 encoding, and the list lemmas that several
  components use.
\<close>

named_theorems rust_int \<open>definitions of checked and saturating integer operations\<close>
named_theorems rust_str \<open>definitions of string primitives\<close>

section \<open>Machine integers\<close>

text \<open>
  Signed integers are \<open>int\<close> and unsigned ones \<open>nat\<close>; the width shows in the bound of each
  saturating or checked operation.
\<close>

abbreviation i32_min :: int where "i32_min \<equiv> -2147483648"
abbreviation i32_max :: int where "i32_max \<equiv> 2147483647"
abbreviation i64_min :: int where "i64_min \<equiv> -9223372036854775808"
abbreviation i64_max :: int where "i64_max \<equiv> 9223372036854775807"
abbreviation u32_max :: nat where "u32_max \<equiv> 4294967295"
abbreviation u64_max :: nat where "u64_max \<equiv> 18446744073709551615"
abbreviation usize_max :: nat where "usize_max \<equiv> u64_max"

definition sat_add_i32 :: "int \<Rightarrow> int \<Rightarrow> int" where
  [rust_int]: "sat_add_i32 a b = max i32_min (min i32_max (a + b))"

definition sat_add_i64 :: "int \<Rightarrow> int \<Rightarrow> int" where
  [rust_int]: "sat_add_i64 a b = max i64_min (min i64_max (a + b))"

definition sat_sub_i64 :: "int \<Rightarrow> int \<Rightarrow> int" where
  [rust_int]: "sat_sub_i64 a b = max i64_min (min i64_max (a - b))"

definition sat_add_u64 :: "nat \<Rightarrow> nat \<Rightarrow> nat" where
  [rust_int]: "sat_add_u64 a b = min u64_max (a + b)"

definition sat_mul_u64 :: "nat \<Rightarrow> nat \<Rightarrow> nat" where
  [rust_int]: "sat_mul_u64 a b = min u64_max (a * b)"

definition checked_add_u64 :: "nat \<Rightarrow> nat \<Rightarrow> nat option" where
  [rust_int]: "checked_add_u64 a b = (if a + b \<le> u64_max then Some (a + b) else None)"

definition checked_mul_u64 :: "nat \<Rightarrow> nat \<Rightarrow> nat option" where
  [rust_int]: "checked_mul_u64 a b = (if a * b \<le> u64_max then Some (a * b) else None)"

definition checked_sub_u64 :: "nat \<Rightarrow> nat \<Rightarrow> nat option" where
  [rust_int]: "checked_sub_u64 a b = (if b \<le> a then Some (a - b) else None)"

text \<open>Plain \<open>+\<close> on \<open>i64\<close> wraps in the release profile the server is built with.\<close>

definition wrap_i64 :: "int \<Rightarrow> int" where
  [rust_int]: "wrap_i64 x = (x + 9223372036854775808) mod 18446744073709551616 - 9223372036854775808"

lemma wrap_i64_exact [simp]: "i64_min \<le> x \<Longrightarrow> x \<le> i64_max \<Longrightarrow> wrap_i64 x = x"
  by (simp add: wrap_i64_def)

lemma sat_add_i64_exact [simp]:
  "i64_min \<le> a + b \<Longrightarrow> a + b \<le> i64_max \<Longrightarrow> sat_add_i64 a b = a + b"
  by (simp add: sat_add_i64_def)

section \<open>Results and loops with early return\<close>

text \<open>
  \<open>Result<A, E>\<close> is \<open>'e + 'a\<close>, with \<open>Inl\<close> the error. \<open>rbind\<close> is the \<open>?\<close> operator and
  \<open>try_fold\<close> is a \<open>for\<close> loop whose body may leave the function with an error.
\<close>

type_synonym ('e, 'a) result = "'e + 'a"

definition rbind :: "('e, 'a) result \<Rightarrow> ('a \<Rightarrow> ('e, 'b) result) \<Rightarrow> ('e, 'b) result" where
  "rbind m f = (case m of Inl e \<Rightarrow> Inl e | Inr a \<Rightarrow> f a)"

definition map_err :: "('e \<Rightarrow> 'f) \<Rightarrow> ('e, 'a) result \<Rightarrow> ('f, 'a) result" where
  "map_err f m = (case m of Inl e \<Rightarrow> Inl (f e) | Inr a \<Rightarrow> Inr a)"

definition is_ok :: "('e, 'a) result \<Rightarrow> bool" where
  "is_ok m = (case m of Inl _ \<Rightarrow> False | Inr _ \<Rightarrow> True)"

fun try_fold :: "('s \<Rightarrow> 'a \<Rightarrow> ('e, 's) result) \<Rightarrow> 's \<Rightarrow> 'a list \<Rightarrow> ('e, 's) result" where
  "try_fold f s [] = Inr s"
| "try_fold f s (x # xs) = (case f s x of Inl e \<Rightarrow> Inl e | Inr s' \<Rightarrow> try_fold f s' xs)"

lemma rbind_simps [simp]:
  "rbind (Inl e) f = Inl e"
  "rbind (Inr a) f = f a"
  by (simp_all add: rbind_def)

lemma rbind_eq_Inr: "rbind m f = Inr b \<longleftrightarrow> (\<exists>a. m = Inr a \<and> f a = Inr b)"
  by (cases m) auto

lemma rbind_eq_Inl: "rbind m f = Inl e \<longleftrightarrow> m = Inl e \<or> (\<exists>a. m = Inr a \<and> f a = Inl e)"
  by (cases m) auto

lemma map_err_simps [simp]:
  "map_err f (Inl e) = Inl (f e)"
  "map_err f (Inr a) = Inr a"
  by (simp_all add: map_err_def)

lemma map_err_eq_Inr [simp]: "map_err f m = Inr a \<longleftrightarrow> m = Inr a"
  by (cases m) auto

lemma case_option_eq_Inr:
  "(case m of None \<Rightarrow> Inl e | Some x \<Rightarrow> f x) = Inr b \<longleftrightarrow> (\<exists>x. m = Some x \<and> f x = Inr b)"
  by (cases m) auto

lemma if_error_eq_Inr: "(if b then Inl e else m) = Inr a \<longleftrightarrow> \<not> b \<and> m = Inr a"
  by simp

text \<open>The same for calls that also return the state.\<close>

lemma case_option_pair_Inr:
  "(case m of None \<Rightarrow> (Inl e, s) | Some x \<Rightarrow> f x) = (Inr b, t) \<longleftrightarrow> (\<exists>x. m = Some x \<and> f x = (Inr b, t))"
  by (cases m) auto

lemma if_error_pair_Inr: "(if c then (Inl e, s) else m) = (Inr b, t) \<longleftrightarrow> \<not> c \<and> m = (Inr b, t)"
  by simp

lemma is_ok_simps [simp]: "\<not> is_ok (Inl e)" "is_ok (Inr a)"
  by (simp_all add: is_ok_def)

lemma is_ok_iff: "is_ok m \<longleftrightarrow> (\<exists>a. m = Inr a)"
  by (cases m) auto

lemma try_fold_append:
  "try_fold f s (xs @ ys) = rbind (try_fold f s xs) (\<lambda>s'. try_fold f s' ys)"
  by (induction xs arbitrary: s) (auto split: sum.splits)

text \<open>Loop invariants: an invariant of the body holds after a loop that ran to its end.\<close>

lemma try_fold_invariant:
  assumes "try_fold f s xs = Inr t" and "I s"
    and "\<And>s x s'. x \<in> set xs \<Longrightarrow> I s \<Longrightarrow> f s x = Inr s' \<Longrightarrow> I s'"
  shows "I t"
  using assms
proof (induction xs arbitrary: s)
  case Nil
  then show ?case by simp
next
  case (Cons x xs)
  from Cons.prems(1) obtain s' where s': "f s x = Inr s'" "try_fold f s' xs = Inr t"
    by (auto split: sum.splits)
  have "I s'" using Cons.prems(2,3) s'(1) by auto
  then show ?case using Cons.IH [OF s'(2)] Cons.prems(3) by auto
qed

text \<open>A loop that ran to its end executed its body on every element.\<close>

lemma try_fold_each:
  assumes "try_fold f s xs = Inr t" and "x \<in> set xs"
  obtains u v where "f u x = Inr v"
  using assms
proof (induction xs arbitrary: s thesis)
  case Nil
  then show ?case by simp
next
  case (Cons y xs)
  from Cons.prems(2) obtain s' where s': "f s y = Inr s'" "try_fold f s' xs = Inr t"
    by (auto split: sum.splits)
  show ?case
  proof (cases "x = y")
    case True
    then show ?thesis using s'(1) Cons.prems(1) by blast
  next
    case False
    then have "x \<in> set xs" using Cons.prems(3) by simp
    then show ?thesis using Cons.IH [OF _ s'(2)] Cons.prems(1) by blast
  qed
qed

section \<open>Strings\<close>

text \<open>
  A Rust \<open>String\<close> is the list of its Unicode scalar values; \<open>len\<close> counts the bytes of its
  UTF-8 encoding. String literals of the source are written with \<open>lit\<close>.
\<close>

type_synonym ustr = "nat list"
type_synonym bytes = "nat list"

text \<open>Identifiers that the code only compares are numbers.\<close>

type_synonym uuid = nat

definition lit :: "string \<Rightarrow> ustr" where
  [rust_str]: "lit s = map of_char s"

definition utf8 :: "nat \<Rightarrow> bytes" where
  [rust_str]: "utf8 c =
    (if c < 128 then [c]
     else if c < 2048 then [192 + c div 64, 128 + c mod 64]
     else if c < 65536 then [224 + c div 4096, 128 + c div 64 mod 64, 128 + c mod 64]
     else [240 + c div 262144, 128 + c div 4096 mod 64, 128 + c div 64 mod 64, 128 + c mod 64])"

definition str_bytes :: "ustr \<Rightarrow> bytes" where
  [rust_str]: "str_bytes s = concat (map utf8 s)"

definition str_len :: "ustr \<Rightarrow> nat" where
  [rust_str]: "str_len s = length (str_bytes s)"

definition ascii_digit :: "nat \<Rightarrow> bool" where
  [rust_str]: "ascii_digit b \<longleftrightarrow> 48 \<le> b \<and> b \<le> 57"

definition ascii_lower :: "nat \<Rightarrow> bool" where
  [rust_str]: "ascii_lower b \<longleftrightarrow> 97 \<le> b \<and> b \<le> 122"

definition ascii_upper :: "nat \<Rightarrow> bool" where
  [rust_str]: "ascii_upper b \<longleftrightarrow> 65 \<le> b \<and> b \<le> 90"

definition ascii_alpha :: "nat \<Rightarrow> bool" where
  [rust_str]: "ascii_alpha b \<longleftrightarrow> ascii_lower b \<or> ascii_upper b"

definition ascii_alnum :: "nat \<Rightarrow> bool" where
  [rust_str]: "ascii_alnum b \<longleftrightarrow> ascii_alpha b \<or> ascii_digit b"

definition ascii_hexdigit :: "nat \<Rightarrow> bool" where
  [rust_str]: "ascii_hexdigit b \<longleftrightarrow> ascii_digit b \<or> (97 \<le> b \<and> b \<le> 102) \<or> (65 \<le> b \<and> b \<le> 70)"

text \<open>\<open>char::is_whitespace\<close>: the Unicode property \<open>White_Space\<close>; \<open>trim\<close> removes it at both ends.\<close>

definition char_whitespace :: "nat \<Rightarrow> bool" where
  [rust_str]: "char_whitespace c \<longleftrightarrow>
    9 \<le> c \<and> c \<le> 13 \<or> c = 32 \<or> c = 133 \<or> c = 160 \<or> c = 5760 \<or> 8192 \<le> c \<and> c \<le> 8202
    \<or> c = 8232 \<or> c = 8233 \<or> c = 8239 \<or> c = 8287 \<or> c = 12288"

definition str_trim :: "ustr \<Rightarrow> ustr" where
  [rust_str]: "str_trim s =
    rev (dropWhile char_whitespace (rev (dropWhile char_whitespace s)))"

text \<open>\<open>Display\<close> of an integer.\<close>

fun dec_digits :: "nat \<Rightarrow> ustr" where
  "dec_digits n = (if n < 10 then [48 + n] else dec_digits (n div 10) @ [48 + n mod 10])"

declare dec_digits.simps [simp del]

definition int_display :: "int \<Rightarrow> ustr" where
  "int_display i = (if i < 0 then 45 # dec_digits (nat (- i)) else dec_digits (nat i))"

text \<open>\<open>split\<close>, \<open>split_once\<close> and \<open>rsplit_once\<close> at a character.\<close>

fun str_split :: "nat \<Rightarrow> ustr \<Rightarrow> ustr list" where
  "str_split c [] = [[]]"
| "str_split c (x # s) =
    (if x = c then [] # str_split c s
     else (case str_split c s of [] \<Rightarrow> [[x]] | w # ws \<Rightarrow> (x # w) # ws))"

definition str_split_once :: "nat \<Rightarrow> ustr \<Rightarrow> (ustr \<times> ustr) option" where
  "str_split_once c s =
    (if c \<in> set s then Some (takeWhile (\<lambda>x. x \<noteq> c) s, tl (dropWhile (\<lambda>x. x \<noteq> c) s)) else None)"

definition str_rsplit_once :: "nat \<Rightarrow> ustr \<Rightarrow> (ustr \<times> ustr) option" where
  "str_rsplit_once c s = map_option (\<lambda>(a, b). (rev b, rev a)) (str_split_once c (rev s))"

text \<open>The value of a string of decimal digits, as \<open>parse\<close> reads it.\<close>

definition decimal_value :: "ustr \<Rightarrow> nat" where
  "decimal_value s = foldl (\<lambda>n d. 10 * n + (d - 48)) 0 s"

lemma utf8_length_pos [simp]: "0 < length (utf8 c)"
  by (simp add: utf8_def)

lemma utf8_not_Nil [simp]: "utf8 c \<noteq> []"
  by (simp add: utf8_def)

lemma utf8_ascii [simp]: "c < 128 \<Longrightarrow> utf8 c = [c]"
  by (simp add: utf8_def)

lemma utf8_non_ascii: "128 \<le> c \<Longrightarrow> b \<in> set (utf8 c) \<Longrightarrow> 128 \<le> b"
  by (auto simp: utf8_def split: if_splits)

lemma str_bytes_simps [simp]:
  "str_bytes [] = []"
  "str_bytes (c # s) = utf8 c @ str_bytes s"
  "str_bytes (s @ t) = str_bytes s @ str_bytes t"
  by (simp_all add: str_bytes_def)

lemma str_len_simps [simp]:
  "str_len [] = 0"
  "str_len (c # s) = length (utf8 c) + str_len s"
  "str_len (s @ t) = str_len s + str_len t"
  by (simp_all add: str_len_def)

lemma str_len_0_iff [simp]: "str_len s = 0 \<longleftrightarrow> s = []"
  by (cases s) auto

lemma str_len_ge_length: "length s \<le> str_len s"
proof (induction s)
  case (Cons c s)
  have "0 < length (utf8 c)" by (rule utf8_length_pos)
  with Cons show ?case unfolding str_len_simps list.size by linarith
qed simp

lemma str_bytes_ascii: "\<forall>c \<in> set s. c < 128 \<Longrightarrow> str_bytes s = s"
  by (induction s) auto

lemma str_len_ascii: "\<forall>c \<in> set s. c < 128 \<Longrightarrow> str_len s = length s"
  by (simp add: str_len_def str_bytes_ascii)

text \<open>A test that only accepts ASCII bytes accepts a string byte by byte or scalar by scalar alike.\<close>

lemma bytes_all_ascii:
  assumes "\<forall>b \<in> set (str_bytes s). P b" and "\<And>b. P b \<Longrightarrow> b < 128"
  shows "\<forall>c \<in> set s. c < 128"
proof
  fix c assume c: "c \<in> set s"
  then have sub: "set (utf8 c) \<subseteq> set (str_bytes s)"
    by (auto simp: str_bytes_def)
  show "c < 128"
  proof (rule ccontr)
    assume "\<not> c < 128"
    then have ge: "128 \<le> c" by simp
    obtain b where b: "b \<in> set (utf8 c)" using utf8_not_Nil [of c] by (meson list.set_sel(1))
    with sub assms have "b < 128" by blast
    with utf8_non_ascii [OF ge b] show False by simp
  qed
qed

lemma bytes_all_eq:
  assumes "\<forall>b \<in> set (str_bytes s). P b" and "\<And>b. P b \<Longrightarrow> b < 128"
  shows "str_bytes s = s"
  using bytes_all_ascii [OF assms] by (rule str_bytes_ascii)

text \<open>Literals are equal when they are spelled alike.\<close>

lemma lit_inject [simp]: "lit s = lit t \<longleftrightarrow> s = t"
proof -
  have "inj (of_char :: char \<Rightarrow> nat)" by (rule injI) simp
  then show ?thesis by (simp add: lit_def inj_map_eq_map)
qed

lemma lit_Nil [simp]: "lit [] = []" "lit s = [] \<longleftrightarrow> s = []"
  by (simp_all add: lit_def)

text \<open>Decimal numerals consist of digits and read back as the number they print.\<close>

lemma dec_digits_not_Nil [simp]: "dec_digits n \<noteq> []"
  by (subst dec_digits.simps) simp

lemma dec_digits_ascii: "c \<in> set (dec_digits n) \<Longrightarrow> ascii_digit c"
proof (induction n rule: dec_digits.induct)
  case (1 n)
  then show ?case by (subst (asm) dec_digits.simps) (auto simp: ascii_digit_def split: if_splits)
qed

lemma decimal_value_snoc [simp]: "decimal_value (s @ [c]) = 10 * decimal_value s + (c - 48)"
  by (simp add: decimal_value_def)

lemma decimal_value_dec_digits [simp]: "decimal_value (dec_digits n) = n"
proof (induction n rule: dec_digits.induct)
  case (1 n)
  show ?case
  proof (cases "n < 10")
    case True
    then show ?thesis by (subst dec_digits.simps) (simp add: decimal_value_def)
  next
    case False
    then show ?thesis using 1 by (subst dec_digits.simps) simp
  qed
qed

lemma dec_digits_inject [simp]: "dec_digits m = dec_digits n \<longleftrightarrow> m = n"
  by (metis decimal_value_dec_digits)

lemma dec_digits_length: "length (dec_digits n) \<le> k" if "n < 10 ^ k" and "0 < k" for k
  using that
proof (induction n arbitrary: k rule: dec_digits.induct)
  case (1 n)
  show ?case
  proof (cases "n < 10")
    case True
    then show ?thesis using 1 by (subst dec_digits.simps) simp
  next
    case False
    then obtain j where k: "k = Suc j" and "0 < j"
      using 1 by (cases k) (auto, metis gr0I less_one mult.right_neutral not_less power_0)
    moreover have "n div 10 < 10 ^ j" using 1 k by (simp add: less_mult_imp_div_less mult.commute)
    ultimately show ?thesis using 1(1) [OF False, of j] False by (subst dec_digits.simps) simp
  qed
qed

lemma dec_digits_leading_zero: "hd (dec_digits n) = 48 \<longleftrightarrow> n = 0"
proof (induction n rule: dec_digits.induct)
  case (1 n)
  show ?case
  proof (cases "n < 10")
    case True
    then show ?thesis by (subst dec_digits.simps) simp
  next
    case False
    then show ?thesis using 1 by (subst dec_digits.simps) simp
  qed
qed

text \<open>Splitting at a character undoes joining with it.\<close>

lemma str_split_not_Nil [simp]: "str_split c s \<noteq> []"
  by (induction s) (auto split: list.splits)

lemma str_split_free: "c \<notin> set s \<Longrightarrow> str_split c s = [s]"
  by (induction s) auto

lemma str_split_cons: "c \<notin> set s \<Longrightarrow> str_split c (s @ c # t) = s # str_split c t"
  by (induction s) auto

section \<open>Lists\<close>

text \<open>\<open>if !v.contains(&x) { v.push(x) }\<close>.\<close>

definition push_new :: "'a list \<Rightarrow> 'a \<Rightarrow> 'a list" where
  "push_new xs x = (if x \<in> set xs then xs else xs @ [x])"

lemma set_push_new [simp]: "set (push_new xs x) = insert x (set xs)"
  by (auto simp: push_new_def)

lemma distinct_push_new: "distinct xs \<Longrightarrow> distinct (push_new xs x)"
  by (simp add: push_new_def)

lemma set_foldl_push_new [simp]: "set (foldl push_new acc xs) = set acc \<union> set xs"
  by (induction xs arbitrary: acc) auto

lemma distinct_foldl_push_new: "distinct acc \<Longrightarrow> distinct (foldl push_new acc xs)"
  by (induction xs arbitrary: acc) (auto intro: distinct_push_new)

lemma sum_list_map_const: "sum_list (map (\<lambda>_. c) xs) = length xs * (c :: nat)"
  by (induction xs) auto

lemma sorted_distinct_less:
  "sorted xs \<Longrightarrow> distinct xs \<Longrightarrow> sorted_wrt (<) (xs :: 'a :: linorder list)"
  by (simp add: strict_sorted_iff)

lemma distinct_remdups_adj_sorted: "sorted xs \<Longrightarrow> distinct (remdups_adj (xs :: 'a :: linorder list))"
  by (induction xs rule: remdups_adj.induct) auto

section \<open>Invariants of step systems\<close>

text \<open>
  The interface every stateful component is verified through: its initial states, its steps and
  the invariant each step keeps. \<open>reachable\<close> closes the initial states under the steps.
\<close>

locale step_system =
  fixes init :: "'s \<Rightarrow> bool"
    and step :: "'s \<Rightarrow> 's \<Rightarrow> bool"
    and inv :: "'s \<Rightarrow> bool"
  assumes init_inv: "init s \<Longrightarrow> inv s"
    and step_inv: "inv s \<Longrightarrow> step s s' \<Longrightarrow> inv s'"
begin

lemma steps_inv: "step\<^sup>*\<^sup>* s t \<Longrightarrow> inv s \<Longrightarrow> inv t"
  by (induction rule: rtranclp_induct) (auto intro: step_inv)

lemma reachable_inv: "init s \<Longrightarrow> step\<^sup>*\<^sup>* s t \<Longrightarrow> inv t"
  using steps_inv init_inv by blast

end

end
