(* ===== verification/App_Error.thy ===== *)
theory App_Error
  imports Rsctf_Prelude
begin

text \<open>
  The unified error type of \<^verbatim>\<open>src/utils/error.rs\<close> and the HTTP response it renders. The two
  wrapped errors of other crates are represented by their display text.
\<close>

datatype app_error =
    BadRequest ustr
  | Unauthorized
  | Forbidden
  | NotFound ustr
  | Conflict ustr
  | TooManyRequests "nat option"
  | PayloadTooLarge ustr
  | ServiceUnavailable ustr
  | RetryableUnavailable ustr nat
  | Coded nat nat ustr
  | Validation ustr
  | Database ustr
  | Internal ustr

type_synonym 'a app_result = "(app_error, 'a) result"

definition err_bad_request :: "ustr \<Rightarrow> app_error" where
  "err_bad_request msg = BadRequest msg"

definition err_not_found :: "ustr \<Rightarrow> app_error" where
  "err_not_found msg = NotFound msg"

definition err_conflict :: "ustr \<Rightarrow> app_error" where
  "err_conflict msg = Conflict msg"

definition err_internal :: "ustr \<Rightarrow> app_error" where
  "err_internal msg = Internal msg"

definition err_payload_too_large :: "ustr \<Rightarrow> app_error" where
  "err_payload_too_large msg = PayloadTooLarge msg"

definition err_unavailable :: "ustr \<Rightarrow> app_error" where
  "err_unavailable msg = ServiceUnavailable msg"

definition err_too_many_requests :: "nat \<Rightarrow> app_error" where
  "err_too_many_requests retry_after = TooManyRequests (Some (max retry_after 1))"

definition err_retryable_unavailable :: "ustr \<Rightarrow> nat \<Rightarrow> app_error" where
  "err_retryable_unavailable msg retry_after = RetryableUnavailable msg retry_after"

definition err_overloaded :: "ustr \<Rightarrow> nat \<Rightarrow> app_error" where
  "err_overloaded msg retry_after_seconds = RetryableUnavailable msg (max retry_after_seconds 1)"

definition err_retry_after :: "nat \<Rightarrow> app_error" where
  "err_retry_after seconds = err_too_many_requests seconds"

definition err_game_ended :: app_error where
  "err_game_ended = Coded 400 10002 (lit ''Game has ended'')"

definition err_game_not_started :: app_error where
  "err_game_not_started = Coded 400 10001 (lit ''Game has not started'')"

fun app_error_status :: "app_error \<Rightarrow> nat" where
  "app_error_status (BadRequest _) = 400"
| "app_error_status (Validation _) = 400"
| "app_error_status Unauthorized = 401"
| "app_error_status Forbidden = 403"
| "app_error_status (NotFound _) = 404"
| "app_error_status (Conflict _) = 409"
| "app_error_status (TooManyRequests _) = 429"
| "app_error_status (PayloadTooLarge _) = 413"
| "app_error_status (ServiceUnavailable _) = 503"
| "app_error_status (RetryableUnavailable _ _) = 503"
| "app_error_status (Coded http _ _) = http"
| "app_error_status (Database _) = 500"
| "app_error_status (Internal _) = 500"

text \<open>The \<open>Display\<close> text that the error attributes derive.\<close>

fun app_error_display :: "app_error \<Rightarrow> ustr" where
  "app_error_display (BadRequest m) = m"
| "app_error_display Unauthorized = lit ''unauthorized''"
| "app_error_display Forbidden = lit ''forbidden''"
| "app_error_display (NotFound m) = m"
| "app_error_display (Conflict m) = m"
| "app_error_display (TooManyRequests _) = lit ''too many requests''"
| "app_error_display (PayloadTooLarge m) = m"
| "app_error_display (ServiceUnavailable m) = m"
| "app_error_display (RetryableUnavailable m _) = m"
| "app_error_display (Coded _ _ m) = m"
| "app_error_display (Validation m) = lit ''validation failed: '' @ m"
| "app_error_display (Database m) = m"
| "app_error_display (Internal m) = m"

record error_body =
  eb_title :: ustr
  eb_status :: nat

record error_response =
  er_status :: nat
  er_body :: error_body
  er_retry_after :: "nat option"

definition app_error_into_response :: "app_error \<Rightarrow> error_response" where
  "app_error_into_response e =
    (let status = app_error_status e;
         title = (case e of Database _ \<Rightarrow> lit ''Internal server error''
                  | Internal _ \<Rightarrow> lit ''Internal server error''
                  | other \<Rightarrow> app_error_display other);
         body_status = (case e of Coded _ code _ \<Rightarrow> code | _ \<Rightarrow> status);
         retry_after = (case e of TooManyRequests (Some r) \<Rightarrow> Some r
                        | RetryableUnavailable _ r \<Rightarrow> Some r | _ \<Rightarrow> None)
     in \<lparr> er_status = status, er_body = \<lparr> eb_title = title, eb_status = body_status \<rparr>,
          er_retry_after = retry_after \<rparr>)"

lemmas err_constructors =
  err_bad_request_def err_not_found_def err_conflict_def err_internal_def
  err_payload_too_large_def err_unavailable_def err_too_many_requests_def
  err_retryable_unavailable_def err_overloaded_def err_retry_after_def err_game_ended_def
  err_game_not_started_def

text \<open>
  Server faults reveal nothing: the rendered response of an internal or a database error is the
  same whatever the error says. The overload constructors always tell the client to wait at least
  one second, with status 429 or 503, and a coded error keeps its transport status apart from the
  code in its body.
\<close>

theorem app_error_responses:
  "app_error_into_response (Internal m) = app_error_into_response (Database m')
   \<and> er_status (app_error_into_response (Internal m)) = 500
   \<and> er_retry_after (app_error_into_response (err_too_many_requests s)) = Some (max s 1)
   \<and> er_status (app_error_into_response (err_too_many_requests s)) = 429
   \<and> er_retry_after (app_error_into_response (err_overloaded t s)) = Some (max s 1)
   \<and> er_status (app_error_into_response (err_overloaded t s)) = 503
   \<and> er_status (app_error_into_response err_game_ended) = 400
   \<and> eb_status (er_body (app_error_into_response err_game_ended)) = 10002
   \<and> eb_status (er_body (app_error_into_response err_game_not_started)) = 10001"
  by (simp add: app_error_into_response_def err_constructors)

end
