(* ===== verification/Koth_Cycle.thy ===== *)
theory Koth_Cycle
  imports Rsctf_Prelude
begin

text \<open>
  King-of-the-Hill crown cycles, from \<^verbatim>\<open>src/services/ad/engine/koth_cycle\<close> and
  \<^verbatim>\<open>koth_marker.rs\<close>: the phases of a reset and the receipts a phase proves, the position of a
  round inside its cycle and epoch, the shape check of a game's crown configuration, the choice
  of the cycle's champions, the reading of the control marker, and the claim automaton with the
  two tables it writes.
\<close>

section \<open>Reset phases\<close>

datatype crown_phase =
    FinalizePending | SnapshotPending | DestroyPending | CreatePending | PublishPending
  | CapabilityPending | ReadinessPending | FirewallPending | Active | CooldownReleasePending
  | Completed | Failed | Ended

fun crown_phase_as_str :: "crown_phase \<Rightarrow> string" where
  "crown_phase_as_str FinalizePending = ''FinalizePending''"
| "crown_phase_as_str SnapshotPending = ''SnapshotPending''"
| "crown_phase_as_str DestroyPending = ''DestroyPending''"
| "crown_phase_as_str CreatePending = ''CreatePending''"
| "crown_phase_as_str PublishPending = ''PublishPending''"
| "crown_phase_as_str CapabilityPending = ''CapabilityPending''"
| "crown_phase_as_str ReadinessPending = ''ReadinessPending''"
| "crown_phase_as_str FirewallPending = ''FirewallPending''"
| "crown_phase_as_str Active = ''Active''"
| "crown_phase_as_str CooldownReleasePending = ''CooldownReleasePending''"
| "crown_phase_as_str Completed = ''Completed''"
| "crown_phase_as_str Failed = ''Failed''"
| "crown_phase_as_str Ended = ''Ended''"

definition crown_phase_parse :: "string \<Rightarrow> crown_phase option" where
  "crown_phase_parse v =
    (if v = ''FinalizePending'' then Some FinalizePending
     else if v = ''SnapshotPending'' then Some SnapshotPending
     else if v = ''DestroyPending'' then Some DestroyPending
     else if v = ''CreatePending'' then Some CreatePending
     else if v = ''PublishPending'' then Some PublishPending
     else if v = ''CapabilityPending'' then Some CapabilityPending
     else if v = ''ReadinessPending'' then Some ReadinessPending
     else if v = ''FirewallPending'' then Some FirewallPending
     else if v = ''Active'' then Some Active
     else if v = ''CooldownReleasePending'' then Some CooldownReleasePending
     else if v = ''Completed'' then Some Completed
     else if v = ''Failed'' then Some Failed
     else if v = ''Ended'' then Some Ended
     else None)"

text \<open>The receipts a durable phase proves complete (\<^verbatim>\<open>rollover.rs\<close>).\<close>

definition completed_phases :: "string \<Rightarrow> string list" where
  "completed_phases v =
    (if v = ''SnapshotPending'' then [''FinalizePending'']
     else if v = ''DestroyPending'' then [''FinalizePending'', ''SnapshotPending'']
     else if v = ''CreatePending'' then
       [''FinalizePending'', ''SnapshotPending'', ''DestroyPending'']
     else if v = ''PublishPending'' then
       [''FinalizePending'', ''SnapshotPending'', ''DestroyPending'', ''CreatePending'']
     else if v = ''CapabilityPending'' then
       [''FinalizePending'', ''SnapshotPending'', ''DestroyPending'', ''CreatePending'',
        ''PublishPending'']
     else if v = ''ReadinessPending'' then
       [''FinalizePending'', ''SnapshotPending'', ''DestroyPending'', ''CreatePending'',
        ''PublishPending'', ''CapabilityPending'']
     else if v = ''FirewallPending'' then
       [''FinalizePending'', ''SnapshotPending'', ''DestroyPending'', ''CreatePending'',
        ''PublishPending'', ''CapabilityPending'', ''ReadinessPending'']
     else if v = ''Active'' \<or> v = ''Completed'' then
       [''FinalizePending'', ''SnapshotPending'', ''DestroyPending'', ''CreatePending'',
        ''PublishPending'', ''CapabilityPending'', ''ReadinessPending'', ''FirewallPending'']
     else [])"

text \<open>The order in which a reset walks through its pending phases, and where it ends up.\<close>

definition reset_pipeline :: "crown_phase list" where
  "reset_pipeline = [FinalizePending, SnapshotPending, DestroyPending, CreatePending,
     PublishPending, CapabilityPending, ReadinessPending, FirewallPending, Active]"

section \<open>Cycle coordinates and configuration shape\<close>

record crown_cycle_position =
  ccp_cycle_number :: int
  ccp_epoch :: int
  ccp_tick :: int
  ccp_is_boundary :: bool

definition cycle_position :: "int \<Rightarrow> int \<Rightarrow> int \<Rightarrow> int \<Rightarrow> crown_cycle_position option" where
  "cycle_position round official_start epoch_ticks cycle_ticks =
    (if round < official_start \<or> official_start < 1 \<or> epoch_ticks < 1 \<or> cycle_ticks < 1
        \<or> epoch_ticks mod cycle_ticks \<noteq> 0
     then None
     else let offset = round - official_start in
       Some \<lparr> ccp_cycle_number = offset div cycle_ticks + 1,
              ccp_epoch = offset div epoch_ticks + 1,
              ccp_tick = offset mod cycle_ticks + 1,
              ccp_is_boundary = (offset mod cycle_ticks = 0) \<rparr>)"

datatype crown_shape_error = Epoch | Cycle | ChampionCooldown | ClaimConfirmation

definition validate_crown_shape ::
  "int \<Rightarrow> int \<Rightarrow> int \<Rightarrow> int \<Rightarrow> (crown_shape_error, unit) result" where
  "validate_crown_shape epoch_ticks cycle_ticks cooldown_ticks confirmation_ticks =
    (if \<not> (2 \<le> epoch_ticks \<and> epoch_ticks \<le> 64) then Inl Epoch
     else if \<not> (1 \<le> cycle_ticks \<and> cycle_ticks \<le> epoch_ticks div 2)
             \<or> epoch_ticks mod cycle_ticks \<noteq> 0 then Inl Cycle
     else if \<not> (0 \<le> cooldown_ticks \<and> cooldown_ticks < cycle_ticks) then Inl ChampionCooldown
     else if \<not> (1 \<le> confirmation_ticks \<and> confirmation_ticks \<le> cycle_ticks)
       then Inl ClaimConfirmation
     else Inr ())"

definition valid_crown_shape :: "int \<Rightarrow> int \<Rightarrow> int \<Rightarrow> int \<Rightarrow> bool" where
  "valid_crown_shape epoch_ticks cycle_ticks cooldown_ticks confirmation_ticks =
    is_ok (validate_crown_shape epoch_ticks cycle_ticks cooldown_ticks confirmation_ticks)"

section \<open>Champions of a cycle\<close>

text \<open>
  A \<open>BTreeMap\<close> from participations to ticks is its list of entries in ascending key order;
  \<open>btree_add\<close> is \<open>*map.entry(key).or_default() += value\<close>.
\<close>

fun btree_add :: "int \<Rightarrow> int \<Rightarrow> (int \<times> int) list \<Rightarrow> (int \<times> int) list" where
  "btree_add k v [] = [(k, v)]"
| "btree_add k v ((k', v') # m) =
    (if k < k' then (k, v) # (k', v') # m
     else if k = k' then (k', wrap_i64 (v' + v)) # m
     else (k', v') # btree_add k v m)"

definition champion_totals :: "int list \<Rightarrow> (int \<times> int) list \<Rightarrow> (int \<times> int) list" where
  "champion_totals accepted ticks =
    fold (\<lambda>(pid, t) totals. if pid \<in> set accepted \<and> t > 0 then btree_add pid t totals else totals)
      ticks []"

definition select_cycle_champions :: "int list \<Rightarrow> (int \<times> int) list \<Rightarrow> int list" where
  "select_cycle_champions accepted ticks =
    (let totals = champion_totals accepted ticks in
     if totals = [] then []
     else let lead = Max (snd ` set totals);
              champions = map fst (filter (\<lambda>(pid, t). t = lead) totals)
          in if length (remdups accepted) - length champions < 1 then [] else champions)"

section \<open>The control marker\<close>

datatype koth_marker_read = Observed "ustr option" | Unavailable ustr

text \<open>
  What \<open>read_koth_marker\<close> makes of the outcome of running the read command in the hill's
  container: no container, an answer, a runtime error, or the timeout.
\<close>

datatype marker_exec = NoContainer | ExecOutput ustr | ExecFailed ustr | ExecTimedOut

fun read_koth_marker :: "marker_exec \<Rightarrow> koth_marker_read" where
  "read_koth_marker NoContainer = Unavailable (lit ''hill container is unavailable'')"
| "read_koth_marker (ExecOutput output) =
    (let marker = str_trim output in
     Observed (if marker \<noteq> [] \<and> str_len marker \<le> 256 then Some marker else None))"
| "read_koth_marker (ExecFailed e) = Unavailable (lit ''control marker read failed: '' @ e)"
| "read_koth_marker ExecTimedOut = Unavailable (lit ''control marker read timed out'')"

fun marker_error :: "koth_marker_read \<Rightarrow> ustr option" where
  "marker_error (Observed _) = None"
| "marker_error (Unavailable e) = Some e"

fun stable_koth_marker ::
  "koth_marker_read \<Rightarrow> koth_marker_read \<Rightarrow> ustr option \<times> bool \<times> ustr option" where
  "stable_koth_marker (Observed before) (Observed after) =
    (if before = after then (after, True, None) else (None, False, None))"
| "stable_koth_marker before after =
    (None, False, Some
      (case marker_error before of Some e \<Rightarrow> e
       | None \<Rightarrow> (case marker_error after of Some e \<Rightarrow> e
                  | None \<Rightarrow> lit ''control marker unavailable'')))"

definition observation_precedes_deadline :: "int \<Rightarrow> int \<Rightarrow> bool" where
  "observation_precedes_deadline observed_at event_end \<longleftrightarrow> observed_at < event_end"

section \<open>The claim automaton\<close>

datatype ad_check_status = CheckOk | Mumble | Offline | InternalError

record observed_token =
  tok_id :: int
  tok_participation_id :: int
  tok_window_round :: int

record claim_projection =
  cp_token_id :: "int option"
  cp_provisional :: "int option"
  cp_streak :: int
  cp_confirmed :: "int option"

definition claim_projection_default :: claim_projection where
  "claim_projection_default =
    \<lparr> cp_token_id = None, cp_provisional = None, cp_streak = 0, cp_confirmed = None \<rparr>"

record claim_outcome =
  co_controller :: "int option"
  co_responsible :: "int option"
  co_provisional :: "int option"
  co_confirmed :: "int option"
  co_streak :: int
  co_token_id :: "int option"
  co_token_window_round :: "int option"
  co_acquisition_confirmed :: bool
  co_is_scorable :: bool

definition claim_outcome_default :: claim_outcome where
  "claim_outcome_default =
    \<lparr> co_controller = None, co_responsible = None, co_provisional = None, co_confirmed = None,
      co_streak = 0, co_token_id = None, co_token_window_round = None,
      co_acquisition_confirmed = False, co_is_scorable = False \<rparr>"

definition transition_claim ::
  "claim_projection \<Rightarrow> observed_token option \<Rightarrow> ad_check_status \<Rightarrow> int \<Rightarrow> bool \<Rightarrow> bool
    \<Rightarrow> claim_projection \<times> claim_outcome" where
  "transition_claim previous token status confirmation_ticks window_complete eligible =
    (if status = InternalError \<or> \<not> window_complete then
       (previous,
        claim_outcome_default
          \<lparr> co_confirmed := cp_confirmed previous, co_responsible := cp_confirmed previous,
            co_is_scorable := False \<rparr>)
     else case (if eligible then token else None) of
       None \<Rightarrow>
         (previous \<lparr> cp_token_id := None, cp_provisional := None, cp_streak := 0 \<rparr>,
          claim_outcome_default
            \<lparr> co_responsible := cp_confirmed previous, co_confirmed := cp_confirmed previous,
              co_is_scorable := True \<rparr>)
     | Some tok \<Rightarrow>
         let same_claim = (cp_token_id previous = Some (tok_id tok)
               \<and> cp_provisional previous = Some (tok_participation_id tok));
             healthy = (status = CheckOk);
             streak = (if healthy then
                         (if same_claim then sat_add_i32 (cp_streak previous) 1 else 1)
                       else 0);
             threshold = max confirmation_ticks 1;
             was_confirmed = (cp_confirmed previous = Some (tok_participation_id tok)
               \<and> cp_token_id previous = Some (tok_id tok));
             newly_confirmed = (healthy \<and> streak \<ge> threshold \<and> \<not> was_confirmed);
             confirmed = (if healthy \<and> streak \<ge> threshold then Some (tok_participation_id tok)
                          else cp_confirmed previous);
             provisional = (if confirmed \<noteq> Some (tok_participation_id tok)
                            then Some (tok_participation_id tok) else None)
         in (\<lparr> cp_token_id = Some (tok_id tok), cp_provisional = provisional,
               cp_streak = streak, cp_confirmed = confirmed \<rparr>,
             \<lparr> co_controller = Some (tok_participation_id tok),
               co_responsible = Some (tok_participation_id tok),
               co_provisional = provisional, co_confirmed = confirmed, co_streak = streak,
               co_token_id = Some (tok_id tok),
               co_token_window_round = Some (tok_window_round tok),
               co_acquisition_confirmed = newly_confirmed, co_is_scorable = True \<rparr>))"

text \<open>
  \<open>apply_observation\<close> keeps two tables: \<open>KothClaimStates\<close>, one row per target, and
  \<open>KothAcquisitions\<close>, unique in (cycle, token). A row of the first is read back only when its
  cycle and container are the observed ones.
\<close>

record claim_observation =
  ob_game_id :: int
  ob_challenge_id :: int
  ob_target_id :: int
  ob_cycle_id :: int
  ob_container_id :: ustr
  ob_ad_round_id :: int
  ob_token :: "observed_token option"
  ob_status :: ad_check_status
  ob_confirmation_ticks :: int
  ob_token_window_complete :: bool
  ob_claimant_is_eligible :: bool

record claim_state_row =
  cs_cycle_id :: int
  cs_container_id :: ustr
  cs_token_id :: "int option"
  cs_token_window_round :: "int option"
  cs_provisional :: "int option"
  cs_streak :: int
  cs_confirmed :: "int option"

record acquisition_row =
  aq_game_id :: int
  aq_challenge_id :: int
  aq_cycle_id :: int
  aq_participation_id :: int
  aq_token_id :: int
  aq_target_id :: int
  aq_token_window_round :: int
  aq_container_id :: ustr
  aq_ad_round_id :: int

record claim_db =
  claim_states :: "int \<rightharpoonup> claim_state_row"
  acquisitions :: "acquisition_row list"

definition load_projection :: "claim_db \<Rightarrow> claim_observation \<Rightarrow> claim_projection" where
  "load_projection db ob =
    (case claim_states db (ob_target_id ob) of
       None \<Rightarrow> claim_projection_default
     | Some row \<Rightarrow>
         if cs_cycle_id row = ob_cycle_id ob \<and> cs_container_id row = ob_container_id ob
         then \<lparr> cp_token_id = cs_token_id row, cp_provisional = cs_provisional row,
                cp_streak = max (cs_streak row) 0, cp_confirmed = cs_confirmed row \<rparr>
         else claim_projection_default)"

definition insert_acquisition :: "acquisition_row \<Rightarrow> acquisition_row list \<Rightarrow> acquisition_row list" where
  "insert_acquisition row rows =
    (if \<exists>r \<in> set rows. aq_cycle_id r = aq_cycle_id row \<and> aq_token_id r = aq_token_id row
     then rows else rows @ [row])"

text \<open>The values the two statements bind.\<close>

definition projection_row :: "claim_observation \<Rightarrow> claim_projection \<Rightarrow> claim_state_row" where
  "projection_row ob p =
    \<lparr> cs_cycle_id = ob_cycle_id ob, cs_container_id = ob_container_id ob,
      cs_token_id = cp_token_id p, cs_token_window_round = map_option tok_window_round (ob_token ob),
      cs_provisional = cp_provisional p, cs_streak = cp_streak p, cs_confirmed = cp_confirmed p \<rparr>"

definition acquisition_of :: "claim_observation \<Rightarrow> observed_token \<Rightarrow> acquisition_row" where
  "acquisition_of ob tok =
    \<lparr> aq_game_id = ob_game_id ob, aq_challenge_id = ob_challenge_id ob,
      aq_cycle_id = ob_cycle_id ob, aq_participation_id = tok_participation_id tok,
      aq_token_id = tok_id tok, aq_target_id = ob_target_id ob,
      aq_token_window_round = tok_window_round tok, aq_container_id = ob_container_id ob,
      aq_ad_round_id = ob_ad_round_id ob \<rparr>"

text \<open>
  The source unwraps the token of a confirmed acquisition with \<open>expect\<close>; the model returns
  \<open>None\<close> where that would panic.
\<close>

definition apply_observation ::
  "claim_db \<Rightarrow> claim_observation \<Rightarrow> (claim_db \<times> claim_outcome) option" where
  "apply_observation db ob =
    (let (nxt, outcome) = transition_claim (load_projection db ob) (ob_token ob) (ob_status ob)
           (ob_confirmation_ticks ob) (ob_token_window_complete ob) (ob_claimant_is_eligible ob);
         db1 = (if co_is_scorable outcome then
             db \<lparr> claim_states := (claim_states db)(ob_target_id ob \<mapsto> projection_row ob nxt) \<rparr>
           else db)
     in if co_acquisition_confirmed outcome then
          (case ob_token ob of
             None \<Rightarrow> None
           | Some tok \<Rightarrow>
               Some (db1 \<lparr> acquisitions :=
                   insert_acquisition (acquisition_of ob tok) (acquisitions db1) \<rparr>, outcome))
        else Some (db1, outcome))"

definition empty_claim_db :: claim_db where
  "empty_claim_db = \<lparr> claim_states = Map.empty, acquisitions = [] \<rparr>"

text \<open>One checker pass of any hill is a step; the tables a game can reach start empty.\<close>

inductive claim_step :: "claim_db \<Rightarrow> claim_db \<Rightarrow> bool" where
  observe: "apply_observation db ob = Some (db', outcome) \<Longrightarrow> claim_step db db'"

definition claim_reachable :: "claim_db \<Rightarrow> bool" where
  "claim_reachable db \<longleftrightarrow> claim_step\<^sup>*\<^sup>* empty_claim_db db"

text \<open>
  What the tables promise: streaks count up from zero, a provisional claimant is never the
  confirmed one and always carries its token, and no (cycle, token) pair is credited twice.
\<close>

definition claim_row_inv :: "claim_state_row \<Rightarrow> bool" where
  "claim_row_inv row \<longleftrightarrow> 0 \<le> cs_streak row \<and> cs_streak row \<le> i32_max
     \<and> (cs_token_id row = None \<longrightarrow> cs_provisional row = None \<and> cs_streak row = 0)
     \<and> (\<forall>p. cs_provisional row = Some p \<longrightarrow> cs_confirmed row \<noteq> Some p)"

definition claim_db_inv :: "claim_db \<Rightarrow> bool" where
  "claim_db_inv db \<longleftrightarrow> (\<forall>row \<in> ran (claim_states db). claim_row_inv row)
     \<and> distinct (map (\<lambda>r. (aq_cycle_id r, aq_token_id r)) (acquisitions db))"

section \<open>Properties of phases, coordinates and configuration\<close>

lemma crown_phase_parse_as_str: "crown_phase_parse (crown_phase_as_str p) = Some p"
  by (cases p) (simp_all add: crown_phase_parse_def)

lemma crown_phase_parse_Some: "crown_phase_parse v = Some p \<Longrightarrow> v = crown_phase_as_str p"
  by (auto simp: crown_phase_parse_def split: if_splits)

lemma completed_phases_pipeline:
  "p \<in> set reset_pipeline \<Longrightarrow>
     completed_phases (crown_phase_as_str p)
       = map crown_phase_as_str (takeWhile (\<lambda>q. q \<noteq> p) reset_pipeline)"
  by (auto simp: reset_pipeline_def completed_phases_def)

lemma cycle_position_Some:
  assumes "cycle_position round start epoch_ticks cycle_ticks = Some pos"
  shows "start \<le> round" "1 \<le> start" "1 \<le> epoch_ticks" "1 \<le> cycle_ticks" "cycle_ticks dvd epoch_ticks"
    "ccp_cycle_number pos = (round - start) div cycle_ticks + 1"
    "ccp_epoch pos = (round - start) div epoch_ticks + 1"
    "ccp_tick pos = (round - start) mod cycle_ticks + 1"
    "ccp_is_boundary pos \<longleftrightarrow> (round - start) mod cycle_ticks = 0"
  using assms by (auto simp: cycle_position_def Let_def split: if_splits)

lemma div_div_dvd:
  fixes a b c :: int
  assumes "1 \<le> b" "1 \<le> c" "b dvd c"
  shows "a div c = a div b div (c div b)"
proof -
  obtain k where k: "c = b * k" using assms(3) by (auto elim: dvdE)
  with assms have "0 < k" by (metis less_le_trans zero_less_mult_pos zero_less_one)
  with k assms show ?thesis by (simp add: zdiv_zmult2_eq)
qed

lemma validate_crown_shape_ok_iff:
  "validate_crown_shape e c d k = Inr () \<longleftrightarrow>
     2 \<le> e \<and> e \<le> 64 \<and> 1 \<le> c \<and> 2 * c \<le> e \<and> c dvd e \<and> 0 \<le> d \<and> d < c \<and> 1 \<le> k \<and> k \<le> c"
  by (auto simp: validate_crown_shape_def)

section \<open>Properties of champions\<close>

abbreviation btree_ok :: "(int \<times> int) list \<Rightarrow> bool" where
  "btree_ok m \<equiv> sorted_wrt (<) (map fst m)"

lemma btree_add_keys: "set (map fst (btree_add k v m)) = insert k (set (map fst m))"
  by (induction k v m rule: btree_add.induct) auto

lemma btree_add_ok: "btree_ok m \<Longrightarrow> btree_ok (btree_add k v m)"
proof (induction k v m rule: btree_add.induct)
  case (2 k v k' v' m)
  then show ?case
    using btree_add_keys [of k v m] by (auto simp del: set_map)
qed simp

lemma btree_add_lookup:
  "btree_ok m \<Longrightarrow>
     map_of (btree_add k v m) = (map_of m)(k \<mapsto> (case map_of m k of None \<Rightarrow> v | Some w \<Rightarrow> wrap_i64 (w + v)))"
proof (induction k v m rule: btree_add.induct)
  case (2 k v k' v' m)
  show ?case
  proof (cases "k < k'")
    case True
    with "2.prems" have "k \<notin> fst ` set m" by auto
    then have "map_of m k = None" by (simp add: map_of_eq_None_iff)
    with True show ?thesis by (auto simp: fun_eq_iff)
  next
    case False
    with 2 show ?thesis by (auto simp: fun_eq_iff split: option.splits)
  qed
qed simp

text \<open>The ticks credited to one participation, as a plain sum.\<close>

definition healthy_total :: "int list \<Rightarrow> (int \<times> int) list \<Rightarrow> int \<Rightarrow> int" where
  "healthy_total accepted ticks pid =
    sum_list (map snd (filter (\<lambda>(p, t). p = pid \<and> p \<in> set accepted \<and> t > 0) ticks))"

lemma healthy_total_nonneg: "0 \<le> healthy_total accepted ticks pid"
  unfolding healthy_total_def by (rule sum_list_nonneg) auto

lemma healthy_total_snoc:
  "healthy_total accepted (ticks @ [(p, t)]) pid =
     healthy_total accepted ticks pid
     + (if p = pid \<and> p \<in> set accepted \<and> t > 0 then t else 0)"
  by (auto simp: healthy_total_def)

lemma champion_totals_snoc:
  "champion_totals accepted (ticks @ [(p, t)]) =
     (if p \<in> set accepted \<and> t > 0 then btree_add p t (champion_totals accepted ticks)
      else champion_totals accepted ticks)"
  by (simp add: champion_totals_def)

definition ticks_fit :: "int list \<Rightarrow> (int \<times> int) list \<Rightarrow> bool" where
  "ticks_fit accepted ticks \<longleftrightarrow> (\<forall>pid \<in> fst ` set ticks. healthy_total accepted ticks pid \<le> i64_max)"

lemma ticks_fit_le: "ticks_fit accepted ticks \<Longrightarrow> healthy_total accepted ticks pid \<le> i64_max"
proof (cases "pid \<in> fst ` set ticks")
  case False
  then have none: "filter (\<lambda>(p, t). p = pid \<and> p \<in> set accepted \<and> t > 0) ticks = []"
    by (force simp: filter_empty_conv)
  show ?thesis unfolding healthy_total_def none by simp
qed (auto simp: ticks_fit_def)

lemma ticks_fit_snoc: "ticks_fit accepted (ticks @ [(p, t)]) \<Longrightarrow> ticks_fit accepted ticks"
  unfolding ticks_fit_def
proof
  fix pid assume fit: "\<forall>pid \<in> fst ` set (ticks @ [(p, t)]). healthy_total accepted (ticks @ [(p, t)]) pid \<le> i64_max"
    and "pid \<in> fst ` set ticks"
  then have "healthy_total accepted (ticks @ [(p, t)]) pid \<le> i64_max" by auto
  then show "healthy_total accepted ticks pid \<le> i64_max"
    unfolding healthy_total_snoc by (auto split: if_splits)
qed

lemma champion_totals_spec:
  "ticks_fit accepted ticks \<Longrightarrow> btree_ok (champion_totals accepted ticks) \<and>
   map_of (champion_totals accepted ticks) pid =
     (if healthy_total accepted ticks pid > 0 then Some (healthy_total accepted ticks pid) else None)"
proof (induction ticks arbitrary: pid rule: rev_induct)
  case Nil
  show ?case by (simp add: champion_totals_def healthy_total_def)
next
  case (snoc x ticks)
  obtain p t where x: "x = (p, t)" by (cases x)
  note fit = ticks_fit_snoc [OF snoc.prems [unfolded x]]
  have le: "healthy_total accepted (ticks @ [(p, t)]) p \<le> i64_max"
    using ticks_fit_le [OF snoc.prems] x by simp
  have ok: "btree_ok (champion_totals accepted ticks)" using snoc.IH [OF fit] by blast
  have look: "\<And>q. map_of (champion_totals accepted ticks) q =
      (if healthy_total accepted ticks q > 0 then Some (healthy_total accepted ticks q) else None)"
    using snoc.IH [OF fit] by blast
  have nn: "0 \<le> healthy_total accepted ticks p" by (rule healthy_total_nonneg)
  show ?case
    unfolding x champion_totals_snoc healthy_total_snoc
    using ok look nn le [unfolded healthy_total_snoc]
    by (auto simp: btree_add_ok btree_add_lookup split: option.splits)
qed

lemma champion_totals_entries:
  assumes "ticks_fit accepted ticks"
  shows "(p, t) \<in> set (champion_totals accepted ticks) \<longleftrightarrow> t > 0 \<and> healthy_total accepted ticks p = t"
proof -
  have "distinct (map fst (champion_totals accepted ticks))"
    using champion_totals_spec [OF assms] strict_sorted_iff by blast
  then have "(p, t) \<in> set (champion_totals accepted ticks)
      \<longleftrightarrow> map_of (champion_totals accepted ticks) p = Some t"
    by simp
  then show ?thesis using champion_totals_spec [OF assms, of p] by (auto split: if_splits)
qed

lemma healthy_total_accepted: "healthy_total accepted ticks p > 0 \<Longrightarrow> p \<in> set accepted"
proof (rule ccontr)
  assume pos: "healthy_total accepted ticks p > 0" and out: "p \<notin> set accepted"
  then have none: "filter (\<lambda>(q, t). q = p \<and> q \<in> set accepted \<and> t > 0) ticks = []"
    by (auto simp: filter_empty_conv)
  show False using pos unfolding healthy_total_def none by simp
qed

text \<open>The leaders of a cycle: every accepted team with the largest positive number of ticks.\<close>

definition cycle_leaders :: "int list \<Rightarrow> (int \<times> int) list \<Rightarrow> int set" where
  "cycle_leaders accepted ticks =
    {p \<in> set accepted. healthy_total accepted ticks p > 0
       \<and> (\<forall>q \<in> set accepted. healthy_total accepted ticks q \<le> healthy_total accepted ticks p)}"

lemma champion_filter_leaders:
  assumes fit: "ticks_fit accepted ticks" and "champion_totals accepted ticks \<noteq> []"
  shows "set (map fst (filter (\<lambda>(pid, t). t = Max (snd ` set (champion_totals accepted ticks)))
           (champion_totals accepted ticks))) = cycle_leaders accepted ticks"
    (is "?L = _")
proof -
  let ?T = "champion_totals accepted ticks"
  let ?M = "Max (snd ` set ?T)"
  have fin: "finite (snd ` set ?T)" "snd ` set ?T \<noteq> {}" using assms(2) by auto
  obtain p0 where p0: "(p0, ?M) \<in> set ?T" using Max_in [OF fin] by auto
  have ge: "healthy_total accepted ticks q \<le> ?M" for q
  proof (cases "healthy_total accepted ticks q > 0")
    case True
    then have "(q, healthy_total accepted ticks q) \<in> set ?T" by (simp add: champion_totals_entries [OF fit])
    then have "healthy_total accepted ticks q \<in> snd ` set ?T" by force
    with fin show ?thesis by simp
  next
    case False
    with p0 show ?thesis by (auto simp: champion_totals_entries [OF fit])
  qed
  have pos: "0 < ?M" and tot0: "healthy_total accepted ticks p0 = ?M"
    using p0 by (auto simp: champion_totals_entries [OF fit])
  then have acc0: "p0 \<in> set accepted" by (metis healthy_total_accepted)
  have "p \<in> ?L \<longleftrightarrow> healthy_total accepted ticks p = ?M" for p
    using pos by (force simp: champion_totals_entries [OF fit] image_iff)
  moreover have "healthy_total accepted ticks p = ?M \<longleftrightarrow> p \<in> cycle_leaders accepted ticks" for p
  proof
    assume "healthy_total accepted ticks p = ?M"
    then show "p \<in> cycle_leaders accepted ticks"
      using ge pos healthy_total_accepted [of accepted ticks p] by (simp add: cycle_leaders_def)
  next
    assume "p \<in> cycle_leaders accepted ticks"
    then have "?M \<le> healthy_total accepted ticks p"
      using acc0 tot0 by (auto simp: cycle_leaders_def)
    then show "healthy_total accepted ticks p = ?M" using ge [of p] by simp
  qed
  ultimately show ?thesis by blast
qed

lemma no_totals_no_leaders:
  "ticks_fit accepted ticks \<Longrightarrow> champion_totals accepted ticks = [] \<Longrightarrow> cycle_leaders accepted ticks = {}"
  using champion_totals_entries [of accepted ticks] by (auto simp: cycle_leaders_def)

lemma sorted_wrt_map_filter: "sorted_wrt R (map f xs) \<Longrightarrow> sorted_wrt R (map f (filter P xs))"
  by (induction xs) auto

lemma select_cycle_champions_spec:
  assumes fit: "ticks_fit accepted ticks"
  shows "set (select_cycle_champions accepted ticks) =
     (if set accepted \<subseteq> cycle_leaders accepted ticks then {} else cycle_leaders accepted ticks)
   \<and> sorted_wrt (<) (select_cycle_champions accepted ticks)"
proof (cases "champion_totals accepted ticks = []")
  case True
  then show ?thesis
    by (simp add: select_cycle_champions_def no_totals_no_leaders [OF fit])
next
  case False
  let ?C = "map fst (filter (\<lambda>(pid, t). t = Max (snd ` set (champion_totals accepted ticks)))
              (champion_totals accepted ticks))"
  have set: "set ?C = cycle_leaders accepted ticks" by (rule champion_filter_leaders [OF fit False])
  have sorted: "sorted_wrt (<) ?C"
    using champion_totals_spec [OF fit] by (auto intro: sorted_wrt_map_filter)
  have sub: "cycle_leaders accepted ticks \<subseteq> set accepted" by (auto simp: cycle_leaders_def)
  have "length ?C = card (cycle_leaders accepted ticks)"
    using sorted set distinct_card [of ?C] strict_sorted_iff [of ?C] by simp
  moreover have "length (remdups accepted) = card (set accepted)"
    by (simp add: length_remdups_card_conv)
  moreover have "card (set accepted) - card (cycle_leaders accepted ticks) < 1
      \<longleftrightarrow> set accepted \<subseteq> cycle_leaders accepted ticks"
    using sub card_mono [OF _ sub] card_subset_eq [OF _ sub] by fastforce
  ultimately show ?thesis
    using False set sorted by (simp add: select_cycle_champions_def Let_def)
qed

section \<open>Properties of the claim automaton\<close>

lemma transition_claim_void:
  "status = InternalError \<or> \<not> complete \<Longrightarrow>
     fst (transition_claim prev token status k complete eligible) = prev
     \<and> \<not> co_is_scorable (snd (transition_claim prev token status k complete eligible))"
  by (auto simp: transition_claim_def claim_outcome_default_def)

lemma transition_claim_acquired:
  "co_acquisition_confirmed (snd (transition_claim prev token status k complete eligible)) \<Longrightarrow>
     \<exists>tok. token = Some tok \<and> status = CheckOk \<and> complete \<and> eligible
       \<and> cp_confirmed (fst (transition_claim prev token status k complete eligible))
           = Some (tok_participation_id tok)"
  by (auto simp: transition_claim_def claim_outcome_default_def Let_def
      split: if_splits option.splits)

lemma transition_claim_confirmed_change:
  "cp_confirmed (fst (transition_claim prev token status k complete eligible)) \<noteq> cp_confirmed prev
     \<Longrightarrow> co_acquisition_confirmed (snd (transition_claim prev token status k complete eligible))"
  by (auto simp: transition_claim_def Let_def split: if_splits option.splits)

definition projection_inv :: "claim_projection \<Rightarrow> bool" where
  "projection_inv p \<longleftrightarrow> 0 \<le> cp_streak p \<and> cp_streak p \<le> i32_max
     \<and> (cp_token_id p = None \<longrightarrow> cp_provisional p = None \<and> cp_streak p = 0)
     \<and> (\<forall>q. cp_provisional p = Some q \<longrightarrow> cp_confirmed p \<noteq> Some q)"

lemma projection_inv_default: "projection_inv claim_projection_default"
  by (simp add: projection_inv_def claim_projection_default_def)

lemma projection_inv_load:
  "claim_db_inv db \<Longrightarrow> projection_inv (load_projection db ob)"
  by (auto simp: load_projection_def claim_projection_default_def claim_db_inv_def claim_row_inv_def
      projection_inv_def ran_def split: option.splits)

lemma projection_inv_transition:
  "projection_inv prev \<Longrightarrow>
     projection_inv (fst (transition_claim prev token status k complete eligible))"
  by (auto simp: transition_claim_def projection_inv_def Let_def sat_add_i32_def
      split: if_splits option.splits)

lemma claim_row_inv_projection: "projection_inv p \<Longrightarrow> claim_row_inv (projection_row ob p)"
  by (simp add: projection_inv_def claim_row_inv_def projection_row_def)

lemma insert_acquisition_distinct:
  "distinct (map (\<lambda>r. (aq_cycle_id r, aq_token_id r)) rows) \<Longrightarrow>
     distinct (map (\<lambda>r. (aq_cycle_id r, aq_token_id r)) (insert_acquisition row rows))"
  by (auto simp: insert_acquisition_def)

text \<open>The handler as one equation over the shared helpers.\<close>

lemma apply_observation_cases:
  assumes "apply_observation db ob = Some (db', outcome)"
  obtains nxt where
    "transition_claim (load_projection db ob) (ob_token ob) (ob_status ob)
       (ob_confirmation_ticks ob) (ob_token_window_complete ob) (ob_claimant_is_eligible ob)
     = (nxt, outcome)"
    "claim_states db' = (if co_is_scorable outcome
       then (claim_states db)(ob_target_id ob \<mapsto> projection_row ob nxt) else claim_states db)"
    "acquisitions db' = acquisitions db
     \<or> (\<exists>tok. ob_token ob = Some tok \<and> co_acquisition_confirmed outcome
         \<and> acquisitions db' = insert_acquisition (acquisition_of ob tok) (acquisitions db))"
  using assms
  by (auto simp: apply_observation_def Let_def split: prod.splits if_splits option.splits)

lemma apply_observation_inv:
  assumes "claim_db_inv db" and "apply_observation db ob = Some (db', outcome)"
  shows "claim_db_inv db'"
proof (rule apply_observation_cases [OF assms(2)])
  fix nxt
  assume tr: "transition_claim (load_projection db ob) (ob_token ob) (ob_status ob)
       (ob_confirmation_ticks ob) (ob_token_window_complete ob) (ob_claimant_is_eligible ob)
     = (nxt, outcome)"
    and st: "claim_states db' = (if co_is_scorable outcome
       then (claim_states db)(ob_target_id ob \<mapsto> projection_row ob nxt) else claim_states db)"
    and aq: "acquisitions db' = acquisitions db
     \<or> (\<exists>tok. ob_token ob = Some tok \<and> co_acquisition_confirmed outcome
         \<and> acquisitions db' = insert_acquisition (acquisition_of ob tok) (acquisitions db))"
  have "projection_inv nxt"
    using projection_inv_transition [OF projection_inv_load [OF assms(1)]] tr by (metis fst_conv)
  then have row: "claim_row_inv (projection_row ob nxt)" by (rule claim_row_inv_projection)
  have "ran (claim_states db') \<subseteq> insert (projection_row ob nxt) (ran (claim_states db))"
    unfolding st by (auto simp: ran_def)
  with assms(1) row have "\<forall>r \<in> ran (claim_states db'). claim_row_inv r"
    by (auto simp: claim_db_inv_def)
  moreover have "distinct (map (\<lambda>r. (aq_cycle_id r, aq_token_id r)) (acquisitions db'))"
    using aq assms(1) by (auto simp: claim_db_inv_def intro: insert_acquisition_distinct)
  ultimately show ?thesis by (simp add: claim_db_inv_def)
qed

lemma claim_step_inv: "claim_step db db' \<Longrightarrow> claim_db_inv db \<Longrightarrow> claim_db_inv db'"
  by (induction rule: claim_step.induct) (rule apply_observation_inv)

lemma claim_db_inv_empty: "claim_db_inv empty_claim_db"
  by (simp add: claim_db_inv_def empty_claim_db_def)

interpretation claims: step_system "\<lambda>db. db = empty_claim_db" claim_step claim_db_inv
  by unfold_locales (auto intro: claim_step_inv claim_db_inv_empty)

text \<open>
  Holding one token: \<open>hold k tok n p\<close> is the projection after \<open>n\<close> further healthy passes in
  which the same eligible token was seen.
\<close>

definition hold :: "int \<Rightarrow> observed_token \<Rightarrow> nat \<Rightarrow> claim_projection \<Rightarrow> claim_projection" where
  "hold k tok n p = ((\<lambda>q. fst (transition_claim q (Some tok) CheckOk k True True)) ^^ n) p"

lemma hold_simps:
  "hold k tok 0 p = p"
  "hold k tok (Suc n) p = fst (transition_claim (hold k tok n p) (Some tok) CheckOk k True True)"
  by (simp_all add: hold_def)

lemma hold_before_threshold:
  assumes "cp_token_id p \<noteq> Some (tok_id tok)" "cp_confirmed p \<noteq> Some (tok_participation_id tok)"
    and "k \<le> i32_max" "int (Suc n) < max k 1"
  shows "hold k tok (Suc n) p =
    \<lparr> cp_token_id = Some (tok_id tok), cp_provisional = Some (tok_participation_id tok),
      cp_streak = int (Suc n), cp_confirmed = cp_confirmed p \<rparr>"
  using assms
proof (induction n)
  case 0
  then show ?case by (auto simp: hold_simps transition_claim_def Let_def)
next
  case (Suc n)
  then have IH: "hold k tok (Suc n) p =
    \<lparr> cp_token_id = Some (tok_id tok), cp_provisional = Some (tok_participation_id tok),
      cp_streak = int (Suc n), cp_confirmed = cp_confirmed p \<rparr>" by simp
  show ?case
    unfolding hold_simps(2) [of k tok "Suc n"] IH
    using Suc.prems by (simp add: transition_claim_def Let_def sat_add_i32_def)
qed

lemma hold_at_threshold:
  assumes "cp_token_id p \<noteq> Some (tok_id tok)" "cp_confirmed p \<noteq> Some (tok_participation_id tok)"
    and "k \<le> i32_max" "int (Suc n) = max k 1"
  shows "co_acquisition_confirmed
           (snd (transition_claim (hold k tok n p) (Some tok) CheckOk k True True))
    \<and> cp_confirmed (hold k tok (Suc n) p) = Some (tok_participation_id tok)
    \<and> cp_token_id (hold k tok (Suc n) p) = Some (tok_id tok)"
proof (cases n)
  case 0
  with assms show ?thesis by (auto simp: hold_simps transition_claim_def Let_def)
next
  case (Suc m)
  have "int (Suc m) < max k 1" using assms(4) Suc by simp
  from hold_before_threshold [OF assms(1-3) this] Suc
  have h: "hold k tok n p =
    \<lparr> cp_token_id = Some (tok_id tok), cp_provisional = Some (tok_participation_id tok),
      cp_streak = int (Suc m), cp_confirmed = cp_confirmed p \<rparr>" by simp
  show ?thesis
    unfolding hold_simps(2) h using assms Suc
    by (auto simp: transition_claim_def Let_def sat_add_i32_def)
qed

lemma hold_after_threshold:
  assumes "cp_token_id p = Some (tok_id tok)" "cp_confirmed p = Some (tok_participation_id tok)"
  shows "cp_token_id (hold k tok n p) = Some (tok_id tok)
    \<and> cp_confirmed (hold k tok n p) = Some (tok_participation_id tok)"
  using assms by (induction n) (auto simp: hold_simps transition_claim_def Let_def)

lemma hold_add: "hold k tok (m + n) p = hold k tok m (hold k tok n p)"
  by (simp add: hold_def funpow_add)

lemma confirmed_token_not_acquired_again:
  assumes "cp_token_id p = Some (tok_id tok)" "cp_confirmed p = Some (tok_participation_id tok)"
  shows "\<not> co_acquisition_confirmed (snd (transition_claim p (Some tok) s k c e))"
  using assms by (auto simp: transition_claim_def claim_outcome_default_def Let_def)

section \<open>Main results\<close>

text \<open>
  C1. A claim is credited after exactly the configured number of consecutive healthy passes: a
  team that starts holding a fresh token and keeps it through healthy, complete, eligible checker
  passes gets its acquisition confirmed on the pass whose number is the confirmation threshold
  (at least one), on no earlier pass, and on no later pass of the same hold.
\<close>

theorem acquisition_exactly_at_threshold:
  assumes "cp_token_id p \<noteq> Some (tok_id tok)"
    and "cp_confirmed p \<noteq> Some (tok_participation_id tok)"
    and "k \<le> i32_max"
  shows "co_acquisition_confirmed
           (snd (transition_claim (hold k tok n p) (Some tok) CheckOk k True True))
         \<longleftrightarrow> int (Suc n) = max k 1"
proof (cases "int (Suc n)" "max k 1" rule: linorder_cases)
  case less
  have "\<not> co_acquisition_confirmed
           (snd (transition_claim (hold k tok n p) (Some tok) CheckOk k True True))"
  proof (cases n)
    case 0
    with less assms show ?thesis by (auto simp: hold_simps transition_claim_def Let_def)
  next
    case (Suc m)
    have "int (Suc m) < max k 1" using less Suc by simp
    from hold_before_threshold [OF assms this] Suc
    have h: "hold k tok n p =
      \<lparr> cp_token_id = Some (tok_id tok), cp_provisional = Some (tok_participation_id tok),
        cp_streak = int (Suc m), cp_confirmed = cp_confirmed p \<rparr>" by simp
    show ?thesis
      unfolding h using less Suc by (auto simp: transition_claim_def Let_def sat_add_i32_def)
  qed
  with less show ?thesis by simp
next
  case equal
  with hold_at_threshold [OF assms equal] show ?thesis by simp
next
  case greater
  have "int (Suc (nat (max k 1) - 1)) = max k 1" by arith
  then obtain m where m: "int (Suc m) = max k 1" by blast
  from hold_at_threshold [OF assms m]
  have held: "cp_token_id (hold k tok (Suc m) p) = Some (tok_id tok)"
    "cp_confirmed (hold k tok (Suc m) p) = Some (tok_participation_id tok)" by auto
  have "Suc m \<le> n" using greater m by linarith
  then have "n = (n - Suc m) + Suc m" by simp
  then have "hold k tok n p = hold k tok (n - Suc m) (hold k tok (Suc m) p)"
    by (metis hold_add)
  with hold_after_threshold [OF held] have
    "cp_token_id (hold k tok n p) = Some (tok_id tok)"
    "cp_confirmed (hold k tok n p) = Some (tok_participation_id tok)" by simp_all
  from confirmed_token_not_acquired_again [OF this] greater show ?thesis
    by (metis order_less_irrefl)
qed

definition sample_token :: observed_token where
  "sample_token = \<lparr> tok_id = 10, tok_participation_id = 2, tok_window_round = 7 \<rparr>"

definition sample_observation :: claim_observation where
  "sample_observation =
    \<lparr> ob_game_id = 1, ob_challenge_id = 3, ob_target_id = 4, ob_cycle_id = 5,
      ob_container_id = lit ''hill'', ob_ad_round_id = 8, ob_token = Some sample_token,
      ob_status = CheckOk, ob_confirmation_ticks = 1, ob_token_window_complete = True,
      ob_claimant_is_eligible = True \<rparr>"

theorem acquisition_exactly_at_threshold_witness:
  "co_acquisition_confirmed (snd (transition_claim (hold 2 sample_token 1 claim_projection_default)
      (Some sample_token) CheckOk 2 True True))
   \<and> \<not> co_acquisition_confirmed (snd (transition_claim (hold 2 sample_token 5 claim_projection_default)
      (Some sample_token) CheckOk 2 True True))"
  using acquisition_exactly_at_threshold [of claim_projection_default sample_token 2 1]
    acquisition_exactly_at_threshold [of claim_projection_default sample_token 2 5]
  by (simp add: claim_projection_default_def)

text \<open>
  C4. In every state of the claim tables that checker passes can reach, streaks are between zero
  and the width of their column, a row without a token has neither claimant nor streak, the
  provisional claimant is never the confirmed holder, and no (cycle, token) pair is credited twice.
\<close>

theorem claim_tables_invariant:
  assumes "claim_reachable db"
  shows "claim_db_inv db"
  using claims.reachable_inv assms unfolding claim_reachable_def by blast

theorem claim_tables_invariant_witness:
  "\<exists>db. claim_reachable db \<and> acquisitions db = [acquisition_of sample_observation sample_token]
     \<and> claim_db_inv db"
proof -
  obtain db outcome where app: "apply_observation empty_claim_db sample_observation = Some (db, outcome)"
    and aq: "acquisitions db = [acquisition_of sample_observation sample_token]"
    by (simp add: apply_observation_def empty_claim_db_def sample_observation_def load_projection_def
        claim_projection_default_def transition_claim_def Let_def insert_acquisition_def)
  have "claim_reachable db"
    unfolding claim_reachable_def by (rule r_into_rtranclp, rule claim_step.observe [OF app])
  with claim_tables_invariant [OF this] aq show ?thesis by blast
qed

text \<open>
  C15. A checker pass always completes (the unwrap of the acquired token cannot fail), and the
  confirmed holder recorded for the observed container changes only on a pass that confirms an
  acquisition: a healthy pass over a complete token window in which an eligible claimant's token
  was seen, and then the new holder is that claimant.
\<close>

theorem holder_changes_only_by_acquisition:
  "\<exists>db' outcome. apply_observation db ob = Some (db', outcome)
     \<and> (cp_confirmed (load_projection db' ob) = cp_confirmed (load_projection db ob)
        \<or> (\<exists>tok. co_acquisition_confirmed outcome \<and> ob_token ob = Some tok
             \<and> ob_status ob = CheckOk \<and> ob_token_window_complete ob \<and> ob_claimant_is_eligible ob
             \<and> cp_confirmed (load_projection db' ob) = Some (tok_participation_id tok)))"
proof -
  obtain nxt outcome where tr: "transition_claim (load_projection db ob) (ob_token ob) (ob_status ob)
      (ob_confirmation_ticks ob) (ob_token_window_complete ob) (ob_claimant_is_eligible ob)
    = (nxt, outcome)" by fastforce
  note acq = transition_claim_acquired [of "load_projection db ob" "ob_token ob" "ob_status ob"
      "ob_confirmation_ticks ob" "ob_token_window_complete ob" "ob_claimant_is_eligible ob",
      unfolded tr fst_conv snd_conv]
  note chg = transition_claim_confirmed_change [of "load_projection db ob" "ob_token ob" "ob_status ob"
      "ob_confirmation_ticks ob" "ob_token_window_complete ob" "ob_claimant_is_eligible ob",
      unfolded tr fst_conv snd_conv]
  have "\<exists>db'. apply_observation db ob = Some (db', outcome)"
    using acq by (auto simp: apply_observation_def tr Let_def split: option.splits)
  then obtain db' where app: "apply_observation db ob = Some (db', outcome)" ..
  have "claim_states db' = (if co_is_scorable outcome
      then (claim_states db)(ob_target_id ob \<mapsto> projection_row ob nxt) else claim_states db)"
    using apply_observation_cases [OF app] tr by (metis fst_conv)
  then have load: "cp_confirmed (load_projection db' ob) =
      (if co_is_scorable outcome then cp_confirmed nxt else cp_confirmed (load_projection db ob))"
    by (auto simp: load_projection_def projection_row_def split: option.splits)
  show ?thesis using app load acq chg by (metis (full_types))
qed

text \<open>
  C16. The cooldown set of a cycle is exact: it holds precisely the accepted teams with the largest
  positive number of healthy controlled ticks, in ascending order without repetition, except that
  it is empty when that would leave no other accepted team to challenge. The tick totals have to
  fit the \<open>i64\<close> they are summed in.
\<close>

theorem select_cycle_champions_correct:
  assumes "ticks_fit accepted ticks"
  shows "set (select_cycle_champions accepted ticks) =
     (if set accepted \<subseteq> cycle_leaders accepted ticks then {} else cycle_leaders accepted ticks)
   \<and> sorted_wrt (<) (select_cycle_champions accepted ticks)"
  using assms by (rule select_cycle_champions_spec)

theorem select_cycle_champions_correct_witness:
  "ticks_fit [3, 1, 2] [(1, 4), (3, 1), (3, 3), (9, 50)]
   \<and> set (select_cycle_champions [3, 1, 2] [(1, 4), (3, 1), (3, 3), (9, 50)]) = {1, 3}"
proof -
  have fit: "ticks_fit [3, 1, 2] [(1, 4), (3, 1), (3, 3), (9, 50)]"
    by (simp add: ticks_fit_def healthy_total_def)
  have "cycle_leaders [3, 1, 2] [(1, 4), (3, 1), (3, 3), (9, 50)] = {1, 3}"
    by (auto simp: cycle_leaders_def healthy_total_def)
  with fit select_cycle_champions_correct [OF fit] show ?thesis by simp
qed

text \<open>
  Crown coordinates are exact: a round is recovered from its cycle number and its tick, ticks
  run from one to the cycle length and the first one is the boundary, and a cycle never straddles
  two epochs, because the epoch is determined by the cycle number alone.
\<close>

theorem cycle_position_coordinates:
  assumes "cycle_position round start epoch_ticks cycle_ticks = Some pos"
  shows "round = start + (ccp_cycle_number pos - 1) * cycle_ticks + (ccp_tick pos - 1)
    \<and> 1 \<le> ccp_tick pos \<and> ccp_tick pos \<le> cycle_ticks
    \<and> (ccp_is_boundary pos \<longleftrightarrow> ccp_tick pos = 1)
    \<and> ccp_epoch pos = (ccp_cycle_number pos - 1) div (epoch_ticks div cycle_ticks) + 1"
proof -
  note p = cycle_position_Some [OF assms]
  have "round - start = (round - start) div cycle_ticks * cycle_ticks + (round - start) mod cycle_ticks"
    by simp
  then have "round = start + (ccp_cycle_number pos - 1) * cycle_ticks + (ccp_tick pos - 1)"
    unfolding p by simp
  moreover have "ccp_epoch pos = (ccp_cycle_number pos - 1) div (epoch_ticks div cycle_ticks) + 1"
    unfolding p using div_div_dvd [OF p(4,3,5)] by simp
  moreover have "0 \<le> (round - start) mod cycle_ticks" "(round - start) mod cycle_ticks < cycle_ticks"
    using p(4) by simp_all
  ultimately show ?thesis unfolding p by auto
qed

theorem cycle_position_coordinates_witness:
  "\<exists>pos. cycle_position 22 10 12 3 = Some pos \<and> ccp_epoch pos = 2 \<and> ccp_tick pos = 1
     \<and> 22 = 10 + (ccp_cycle_number pos - 1) * 3 + (ccp_tick pos - 1)
     \<and> ccp_epoch pos = (ccp_cycle_number pos - 1) div (12 div 3) + 1"
proof -
  obtain pos where "cycle_position 22 10 12 3 = Some pos" "ccp_epoch pos = 2" "ccp_tick pos = 1"
    by (simp add: cycle_position_def)
  with cycle_position_coordinates [OF this(1)] show ?thesis by blast
qed

text \<open>
  A receipt is backfilled only for work that is done: for every phase of the reset pipeline the
  phases claimed complete are exactly the earlier ones in pipeline order, never the phase itself,
  and reading a phase back from its stored name gives that phase.
\<close>

theorem completed_phases_are_the_past:
  "(\<forall>p \<in> set reset_pipeline. completed_phases (crown_phase_as_str p)
       = map crown_phase_as_str (takeWhile (\<lambda>q. q \<noteq> p) reset_pipeline))
   \<and> (\<forall>p. crown_phase_as_str p \<notin> set (completed_phases (crown_phase_as_str p)))
   \<and> (\<forall>v p. crown_phase_parse v = Some p \<longleftrightarrow> v = crown_phase_as_str p)"
proof (intro conjI ballI allI)
  fix p assume "p \<in> set reset_pipeline"
  then show "completed_phases (crown_phase_as_str p)
      = map crown_phase_as_str (takeWhile (\<lambda>q. q \<noteq> p) reset_pipeline)"
    by (rule completed_phases_pipeline)
next
  fix p show "crown_phase_as_str p \<notin> set (completed_phases (crown_phase_as_str p))"
    by (cases p) (simp_all add: completed_phases_def)
next
  fix v p show "crown_phase_parse v = Some p \<longleftrightarrow> v = crown_phase_as_str p"
    using crown_phase_parse_as_str crown_phase_parse_Some by blast
qed

theorem completed_phases_are_the_past_witness:
  "CreatePending \<in> set reset_pipeline
   \<and> completed_phases (crown_phase_as_str CreatePending)
      = map crown_phase_as_str (takeWhile (\<lambda>q. q \<noteq> CreatePending) reset_pipeline)"
proof -
  have "CreatePending \<in> set reset_pipeline" by (simp add: reset_pipeline_def)
  with completed_phases_are_the_past show ?thesis by blast
qed

end
