(* ===== verification/Flag_Policy.thy ===== *)
theory Flag_Policy
  imports App_Error
begin

text \<open>
  Flag policies and flag generation, from \<^verbatim>\<open>src/utils/flag_policy.rs\<close> and
  \<^verbatim>\<open>src/utils/flag_generator.rs\<close>: the byte policies of normal and A&D flags, the template
  grammar with its placeholders, and the generators that expand a template. The SHA-256 digest,
  the hexadecimal decoder, the UUID formatter and the random strings are arguments.
\<close>

section \<open>Searching and replacing\<close>

text \<open>
  \<open>str::match_indices(..).count()\<close> and \<open>str::replace\<close> for a non-empty needle: leftmost,
  non-overlapping matches.
\<close>

fun occurrence_count :: "ustr \<Rightarrow> ustr \<Rightarrow> nat" where
  "occurrence_count [] needle = 0"
| "occurrence_count (c # s) needle =
    (if prefix needle (c # s) then Suc (occurrence_count (drop (length needle - 1) s) needle)
     else occurrence_count s needle)"

fun str_replace :: "ustr \<Rightarrow> ustr \<Rightarrow> ustr \<Rightarrow> ustr" where
  "str_replace [] needle by_text = []"
| "str_replace (c # s) needle by_text =
    (if prefix needle (c # s) then by_text @ str_replace (drop (length needle - 1) s) needle by_text
     else c # str_replace s needle by_text)"

definition str_contains :: "ustr \<Rightarrow> ustr \<Rightarrow> bool" where
  "str_contains s needle \<longleftrightarrow> sublist needle s"

text \<open>
  \<open>&s[..n]\<close> for a byte index \<open>n\<close>: \<open>None\<close> is the panic outside of a character boundary or
  past the end.
\<close>

fun str_prefix_bytes :: "ustr \<Rightarrow> nat \<Rightarrow> ustr option" where
  "str_prefix_bytes s 0 = Some []"
| "str_prefix_bytes [] (Suc n) = None"
| "str_prefix_bytes (c # s) (Suc n) =
    (if length (utf8 c) \<le> Suc n
     then map_option ((#) c) (str_prefix_bytes s (Suc n - length (utf8 c))) else None)"

section \<open>Policies\<close>

definition NORMAL_FLAG_MAX_BYTES :: nat where "NORMAL_FLAG_MAX_BYTES = 127"
definition AD_FLAG_BYTES :: nat where "AD_FLAG_BYTES = 38"
definition GUID_TOKEN :: ustr where "GUID_TOKEN = lit ''[GUID]''"
definition UUID_TOKEN :: ustr where "UUID_TOKEN = lit ''[UUID]''"
definition TEAM_HASH_TOKEN :: ustr where "TEAM_HASH_TOKEN = lit ''[TEAM_HASH]''"
definition UUID_EXPANDED_BYTES :: nat where "UUID_EXPANDED_BYTES = 36"
definition TEAM_HASH_EXPANDED_BYTES :: nat where "TEAM_HASH_EXPANDED_BYTES = 16"

definition is_flag_whitespace :: "nat \<Rightarrow> bool" where
  "is_flag_whitespace c \<longleftrightarrow>
    c \<in> {0x09, 0x0A, 0x0B, 0x0C, 0x0D, 0x20, 0x85, 0xA0, 0x1680} \<or> 0x2000 \<le> c \<and> c \<le> 0x200A
    \<or> c \<in> {0x2028, 0x2029, 0x202F, 0x205F, 0x3000, 0xFEFF}"

definition has_boundary_whitespace :: "ustr \<Rightarrow> bool" where
  "has_boundary_whitespace s \<longleftrightarrow>
    (case s of [] \<Rightarrow> False | c # _ \<Rightarrow> is_flag_whitespace c)
    \<or> (case rev s of [] \<Rightarrow> False | c # _ \<Rightarrow> is_flag_whitespace c)"

definition is_blank :: "ustr \<Rightarrow> bool" where
  "is_blank s \<longleftrightarrow> list_all is_flag_whitespace s"

datatype flag_policy_error =
    Empty | SurroundingWhitespace | TooLong nat nat | TemplateTooTrivial | InvalidAdGrammar

definition validate_normal :: "ustr \<Rightarrow> (flag_policy_error, unit) result" where
  "validate_normal s =
    (if s = [] then Inl Empty
     else if str_len s > NORMAL_FLAG_MAX_BYTES then Inl (TooLong (str_len s) NORMAL_FLAG_MAX_BYTES)
     else if has_boundary_whitespace s then Inl SurroundingWhitespace
     else Inr ())"

definition expanded_template_bytes :: "ustr \<Rightarrow> nat option" where
  "expanded_template_bytes template =
    (let guid_count = occurrence_count template GUID_TOKEN;
         uuid_count = occurrence_count template UUID_TOKEN;
         team_hash_count = occurrence_count template TEAM_HASH_TOKEN
     in Option.bind (checked_mul_u64 guid_count (UUID_EXPANDED_BYTES - str_len GUID_TOKEN)) (\<lambda>g.
        Option.bind (checked_add_u64 (str_len template) g) (\<lambda>n1.
        Option.bind (checked_mul_u64 uuid_count (UUID_EXPANDED_BYTES - str_len UUID_TOKEN)) (\<lambda>u.
        Option.bind (checked_add_u64 n1 u) (\<lambda>n2.
        Option.bind (checked_mul_u64 team_hash_count
            (TEAM_HASH_EXPANDED_BYTES - str_len TEAM_HASH_TOKEN)) (\<lambda>t.
        checked_add_u64 n2 t))))))"

definition validate_dynamic_template :: "ustr \<Rightarrow> (flag_policy_error, unit) result" where
  "validate_dynamic_template template =
    (if template = [] then Inl Empty
     else if str_len template > NORMAL_FLAG_MAX_BYTES
       then Inl (TooLong (str_len template) NORMAL_FLAG_MAX_BYTES)
     else if has_boundary_whitespace template then Inl SurroundingWhitespace
     else if \<not> (str_contains template GUID_TOKEN \<or> str_contains template UUID_TOKEN
                 \<or> str_contains template TEAM_HASH_TOKEN) then Inl TemplateTooTrivial
     else let actual = (case expanded_template_bytes template of Some n \<Rightarrow> n | None \<Rightarrow> usize_max)
          in if actual > NORMAL_FLAG_MAX_BYTES then Inl (TooLong actual NORMAL_FLAG_MAX_BYTES)
             else Inr ())"

definition validate_ad :: "ustr \<Rightarrow> (flag_policy_error, unit) result" where
  "validate_ad s =
    (let b = str_bytes s
     in if length b = AD_FLAG_BYTES \<and> prefix (lit ''flag{'') b \<and> suffix (lit ''}'') b
           \<and> list_all (\<lambda>x. ascii_alnum x \<or> x = 95 \<or> x = 45) (take 32 (drop 5 b))
        then Inr () else Inl InvalidAdGrammar)"

section \<open>Generators\<close>

text \<open>The three digests of the source that only format their input and hash it.\<close>

definition team_hash_salt :: "(ustr \<Rightarrow> ustr) \<Rightarrow> ustr \<Rightarrow> ustr" where
  "team_hash_salt sha256_str private_key =
    sha256_str (lit ''RSCTF@'' @ private_key @ lit ''@PK'')"

definition team_challenge_hash :: "(ustr \<Rightarrow> ustr) \<Rightarrow> ustr \<Rightarrow> int \<Rightarrow> ustr \<Rightarrow> ustr" where
  "team_challenge_hash sha256_str salt challenge_id team_token =
    sha256_str (salt @ lit ''::'' @ int_display challenge_id @ lit ''::'' @ team_token)"

text \<open>
  The expansion both generators share: \<open>None\<close> is the panic of the slice \<open>&team_hash[..16]\<close>.
\<close>

definition expand_template :: "ustr \<Rightarrow> ustr \<Rightarrow> ustr \<Rightarrow> ustr \<Rightarrow> ustr option" where
  "expand_template template guid uuid team_hash =
    map_option (\<lambda>h. str_replace (str_replace (str_replace template GUID_TOKEN guid) UUID_TOKEN uuid)
                      TEAM_HASH_TOKEN h)
      (str_prefix_bytes team_hash (min (str_len team_hash) 16))"

definition filter_blank :: "ustr option \<Rightarrow> ustr option" where
  "filter_blank template =
    (case template of None \<Rightarrow> None | Some t \<Rightarrow> if \<not> is_blank t then Some t else None)"

text \<open>\<open>generate_flag\<close> draws \<open>random_hex(16)\<close> or two fresh UUIDs: they are arguments.\<close>

definition generate_flag :: "ustr \<Rightarrow> ustr \<Rightarrow> ustr \<Rightarrow> ustr option \<Rightarrow> ustr \<Rightarrow> ustr option" where
  "generate_flag random_hex guid uuid template team_hash =
    (case filter_blank template of
       None \<Rightarrow> Some (lit ''flag{'' @ random_hex @ lit ''}'')
     | Some t \<Rightarrow> expand_template t guid uuid team_hash)"

definition deterministic_uuid ::
  "(ustr \<Rightarrow> bytes option) \<Rightarrow> (bytes \<Rightarrow> ustr) \<Rightarrow> ustr \<Rightarrow> ustr option" where
  "deterministic_uuid hex_decode uuid_to_string digest =
    Option.bind (str_prefix_bytes digest 32) (\<lambda>d.
    Option.bind (hex_decode d) (\<lambda>b.
      if length b \<noteq> 16 then None
      else let b1 = b[6 := or (and (b ! 6) 0x0f) 0x40];
               b2 = b1[8 := or (and (b1 ! 8) 0x3f) 0x80]
           in Some (uuid_to_string b2)))"

definition derive_digest :: "(ustr \<Rightarrow> ustr) \<Rightarrow> string \<Rightarrow> ustr \<Rightarrow> ustr \<Rightarrow> ustr" where
  "derive_digest sha256_str domain team_hash operation_id =
    sha256_str (lit ''rsctf:retryable-flag:v1'' @ [0] @ lit domain @ [0] @ team_hash @ [0]
                @ operation_id)"

definition generate_retryable_flag ::
  "(ustr \<Rightarrow> ustr) \<Rightarrow> (ustr \<Rightarrow> bytes option) \<Rightarrow> (bytes \<Rightarrow> ustr) \<Rightarrow> ustr option \<Rightarrow> ustr \<Rightarrow> ustr
    \<Rightarrow> ustr option" where
  "generate_retryable_flag sha256_str hex_decode uuid_to_string template team_hash operation_id =
    (let derive = (\<lambda>domain. derive_digest sha256_str domain team_hash operation_id)
     in Option.bind (deterministic_uuid hex_decode uuid_to_string (derive ''guid'')) (\<lambda>guid.
        Option.bind (deterministic_uuid hex_decode uuid_to_string (derive ''uuid'')) (\<lambda>uuid.
        case filter_blank template of
          None \<Rightarrow> map_option (\<lambda>h. lit ''flag{'' @ h @ lit ''}'') (str_prefix_bytes (derive ''empty'') 32)
        | Some t \<Rightarrow> expand_template t guid uuid team_hash)))"

text \<open>The checked generators: the outer \<open>option\<close> is the panic, the sum the \<open>AppResult\<close>.\<close>

definition validate_template_if_present :: "ustr option \<Rightarrow> unit app_result" where
  "validate_template_if_present template =
    (case filter_blank template of
       None \<Rightarrow> Inr ()
     | Some t \<Rightarrow> map_err (\<lambda>_. err_unavailable
         (lit ''Challenge flag definition is invalid; ask an administrator to repair it''))
         (validate_dynamic_template t))"

definition validate_generated_normal :: "ustr \<Rightarrow> ustr app_result" where
  "validate_generated_normal flag =
    rbind (map_err (\<lambda>_. err_unavailable
        (lit ''Challenge generated an invalid flag; ask an administrator to repair it''))
      (validate_normal flag)) (\<lambda>_. Inr flag)"

definition validate_generated_ad :: "ustr \<Rightarrow> ustr app_result" where
  "validate_generated_ad flag =
    rbind (map_err (\<lambda>_. err_internal (lit ''A&D flag generation failed'')) (validate_ad flag))
      (\<lambda>_. Inr flag)"

definition validate_stored_ad_flag :: "ustr \<Rightarrow> ustr app_result" where
  "validate_stored_ad_flag flag =
    rbind (map_err (\<lambda>_. err_unavailable
        (lit ''The current A&D flag is invalid; ask an administrator to repair it''))
      (validate_ad flag)) (\<lambda>_. Inr flag)"

definition generate_flag_checked ::
  "ustr \<Rightarrow> ustr \<Rightarrow> ustr \<Rightarrow> ustr option \<Rightarrow> ustr \<Rightarrow> ustr app_result option" where
  "generate_flag_checked random_hex guid uuid template team_hash =
    (case validate_template_if_present template of
       Inl e \<Rightarrow> Some (Inl e)
     | Inr _ \<Rightarrow> map_option validate_generated_normal
                  (generate_flag random_hex guid uuid template team_hash))"

definition generate_retryable_flag_checked ::
  "(ustr \<Rightarrow> ustr) \<Rightarrow> (ustr \<Rightarrow> bytes option) \<Rightarrow> (bytes \<Rightarrow> ustr) \<Rightarrow> ustr option \<Rightarrow> ustr \<Rightarrow> ustr
    \<Rightarrow> ustr app_result option" where
  "generate_retryable_flag_checked sha256_str hex_decode uuid_to_string template team_hash
      operation_id =
    (case validate_template_if_present template of
       Inl e \<Rightarrow> Some (Inl e)
     | Inr _ \<Rightarrow> map_option validate_generated_normal
         (generate_retryable_flag sha256_str hex_decode uuid_to_string template team_hash
           operation_id))"

definition generate_ad_flag :: "ustr \<Rightarrow> ustr \<Rightarrow> ustr \<Rightarrow> ustr app_result option" where
  "generate_ad_flag random_hex guid uuid =
    map_option validate_generated_ad (generate_flag random_hex guid uuid None [])"

definition generate_retryable_ad_flag ::
  "(ustr \<Rightarrow> ustr) \<Rightarrow> (ustr \<Rightarrow> bytes option) \<Rightarrow> (bytes \<Rightarrow> ustr) \<Rightarrow> ustr \<Rightarrow> ustr
    \<Rightarrow> ustr app_result option" where
  "generate_retryable_ad_flag sha256_str hex_decode uuid_to_string team_hash operation_id =
    map_option validate_generated_ad
      (generate_retryable_flag sha256_str hex_decode uuid_to_string None team_hash operation_id)"

section \<open>Laws of searching and replacing\<close>

lemma prefix_Cons_split:
  "needle \<noteq> [] \<Longrightarrow> prefix needle (c # s) \<Longrightarrow> c # s = needle @ drop (length needle - 1) s"
  by (cases needle) (auto simp: prefix_def)

lemma str_replace_prefix [simp]:
  "needle \<noteq> [] \<Longrightarrow> str_replace (needle @ s) needle t = t @ str_replace s needle t"
  by (cases needle) (auto simp: prefix_def)

lemma occurrence_count_prefix [simp]:
  "needle \<noteq> [] \<Longrightarrow> occurrence_count (needle @ s) needle = Suc (occurrence_count s needle)"
  by (cases needle) (auto simp: prefix_def)

lemma str_replace_no_match:
  "\<not> prefix needle (c # s) \<Longrightarrow> str_replace (c # s) needle t = c # str_replace s needle t"
  by simp

lemma occurrence_count_no_match:
  "\<not> prefix needle (c # s) \<Longrightarrow> occurrence_count (c # s) needle = occurrence_count s needle"
  by simp

declare str_replace.simps(2) [simp del] occurrence_count.simps(2) [simp del]

text \<open>The induction that follows the scan: at each position a match or one character.\<close>

lemma scan_induct [consumes 1, case_names empty match skip]:
  assumes "needle \<noteq> []" and "P []"
    and "\<And>s. P s \<Longrightarrow> P (needle @ s)"
    and "\<And>c s. \<not> prefix needle (c # s) \<Longrightarrow> P s \<Longrightarrow> P (c # s)"
  shows "P s"
proof (induction s rule: measure_induct_rule [of length])
  case (less s)
  show ?case
  proof (cases s)
    case Nil
    then show ?thesis using assms(2) by simp
  next
    case (Cons c r)
    show ?thesis
    proof (cases "prefix needle (c # r)")
      case True
      then obtain s' where s': "c # r = needle @ s'" by (auto simp: prefix_def)
      then have "length s' < length s"
        using assms(1) Cons by (metis append_eq_Cons_conv length_append length_greater_0_conv less_add_same_cancel2)
      with less.IH assms(3) show ?thesis unfolding Cons s' by blast
    next
      case False
      with less.IH [of r] assms(4) show ?thesis unfolding Cons by simp
    qed
  qed
qed

text \<open>Replacing changes the byte length by the difference of the two texts at every occurrence.\<close>

lemma str_replace_len:
  assumes "needle \<noteq> []"
  shows "str_len (str_replace s needle t) + occurrence_count s needle * str_len needle
       = str_len s + occurrence_count s needle * str_len t"
  using assms
  by (induction s rule: scan_induct)
    (auto simp: assms str_replace_no_match occurrence_count_no_match algebra_simps)

lemma str_replace_hd_last:
  assumes "needle \<noteq> []" "t \<noteq> []" "s \<noteq> []"
  shows "str_replace s needle t \<noteq> []
    \<and> hd (str_replace s needle t) \<in> {hd s, hd t}
    \<and> last (str_replace s needle t) \<in> {last s, last t}"
  using assms(1,3)
proof (induction s rule: scan_induct)
  case empty
  then show ?case by simp
next
  case (match s)
  then show ?case
    using assms str_replace_prefix [of needle "[]" t] by (cases "s = []") auto
next
  case (skip c s)
  then show ?case by (cases "s = []") (auto simp: str_replace_no_match)
qed

text \<open>
  The interface of placeholders: two different words in brackets that hold no bracket inside. One of
  them never overlaps the other, so replacing one by a text that shares no character with the
  other leaves the other's occurrences alone.
\<close>

locale token_pair =
  fixes f g :: ustr and wf wg :: ustr
  assumes f_def: "f = 91 # wf @ [93]" and g_def: "g = 91 # wg @ [93]"
    and brackets: "91 \<notin> set wf" "93 \<notin> set wf" "91 \<notin> set wg" "93 \<notin> set wg"
    and differ: "f \<noteq> g"
begin

lemma not_Nil [simp]: "f \<noteq> []" "g \<noteq> []"
  by (simp_all add: f_def g_def)

lemma not_prefix: "\<not> prefix g (f @ s)" "\<not> prefix f (g @ s)"
proof -
  have aux: "u = v" if "u @ 93 # x = v @ 93 # y" "93 \<notin> set u" "93 \<notin> set v" for u v x y :: ustr
    using that by (induction u arbitrary: v) (case_tac v; auto)+
  show "\<not> prefix g (f @ s)"
  proof
    assume "prefix g (f @ s)"
    then obtain r where "wf @ 93 # s = wg @ 93 # r" by (auto simp: f_def g_def prefix_def)
    with aux [OF this] brackets differ show False by (simp add: f_def g_def)
  qed
  show "\<not> prefix f (g @ s)"
  proof
    assume "prefix f (g @ s)"
    then obtain r where "wg @ 93 # s = wf @ 93 # r" by (auto simp: f_def g_def prefix_def)
    with aux [OF this] brackets differ show False by (simp add: f_def g_def)
  qed
qed

lemma skip_word_count: "91 \<notin> set u \<Longrightarrow> occurrence_count (u @ s) g = occurrence_count s g"
proof (induction u)
  case (Cons c u)
  then have "\<not> prefix g (c # u @ s)" by (auto simp: g_def)
  with Cons show ?case by (simp add: occurrence_count_no_match)
qed simp

lemma skip_word_replace: "91 \<notin> set u \<Longrightarrow> str_replace (u @ s) f t = u @ str_replace s f t"
proof (induction u)
  case (Cons c u)
  then have "\<not> prefix f (c # u @ s)" by (auto simp: f_def)
  with Cons show ?case by (simp add: str_replace_no_match)
qed simp

lemma count_after_f: "occurrence_count (f @ s) g = occurrence_count s g"
proof -
  have "\<not> prefix g (91 # (wf @ [93]) @ s)" using not_prefix(1) [of s] by (simp add: f_def)
  then have "occurrence_count (f @ s) g = occurrence_count ((wf @ [93]) @ s) g"
    by (simp add: f_def occurrence_count_no_match)
  also have "\<dots> = occurrence_count s g" by (rule skip_word_count) (use brackets in simp)
  finally show ?thesis .
qed

lemma replace_after_g: "str_replace (g @ s) f t = g @ str_replace s f t"
proof -
  have "\<not> prefix f (91 # (wg @ [93]) @ s)" using not_prefix(2) [of s] by (simp add: g_def)
  then have "str_replace (g @ s) f t = 91 # str_replace ((wg @ [93]) @ s) f t"
    by (simp add: g_def str_replace_no_match)
  also have "str_replace ((wg @ [93]) @ s) f t = (wg @ [93]) @ str_replace s f t"
    by (rule skip_word_replace) (use brackets in simp)
  finally show ?thesis by (simp add: g_def)
qed

lemma replaced_prefix:
  assumes "t \<noteq> []" "set t \<inter> set u = {}" "prefix u (str_replace s f t)"
  shows "prefix u s"
proof -
  have "f \<noteq> []" by simp
  then have "set t \<inter> set u = {} \<Longrightarrow> prefix u (str_replace s f t) \<Longrightarrow> prefix u s" for u
  proof (induction s arbitrary: u rule: scan_induct)
    case empty
    then show ?case by simp
  next
    case (match s)
    then show ?case using assms(1) by (cases u; cases t) auto
  next
    case (skip c s)
    then show ?case by (cases u) (auto simp: str_replace_no_match)
  qed
  with assms(2,3) show ?thesis by blast
qed

lemma replace_keeps_count:
  assumes "t \<noteq> []" and disj: "set t \<inter> set g = {}"
  shows "occurrence_count (str_replace s f t) g = occurrence_count s g"
proof (induction s rule: measure_induct_rule [of length])
  case (less s)
  show ?case
  proof (cases "prefix f s")
    case True
    then obtain r where s: "s = f @ r" by (auto simp: prefix_def)
    have "91 \<notin> set t" using disj by (auto simp: g_def)
    moreover have "length r < length s" by (simp add: s f_def)
    ultimately show ?thesis using less.IH [of r] by (simp add: s count_after_f skip_word_count)
  next
    case nf: False
    show ?thesis
    proof (cases s)
      case Nil
      then show ?thesis by simp
    next
      case (Cons c r)
      show ?thesis
      proof (cases "prefix g s")
        case True
        then obtain q where s: "s = g @ q" by (auto simp: prefix_def)
        have "length q < length s" by (simp add: s g_def)
        with less.IH [of q] show ?thesis by (simp add: s replace_after_g)
      next
        case False
        have "\<not> prefix g (c # str_replace r f t)"
        proof
          assume "prefix g (c # str_replace r f t)"
          then have "c = 91" "prefix (wg @ [93]) (str_replace r f t)" by (auto simp: g_def)
          moreover have "set t \<inter> set (wg @ [93]) = {}" using disj by (auto simp: g_def)
          ultimately have "prefix g s"
            using replaced_prefix [OF assms(1)] by (simp add: Cons g_def)
          with False show False ..
        qed
        then show ?thesis
          using nf False less.IH [of r] by (simp add: Cons str_replace_no_match occurrence_count_no_match)
      qed
    qed
  qed
qed

end

lemmas token_defs = GUID_TOKEN_def UUID_TOKEN_def TEAM_HASH_TOKEN_def lit_def

interpretation guid_uuid: token_pair GUID_TOKEN UUID_TOKEN "lit ''GUID''" "lit ''UUID''"
  by unfold_locales (simp_all add: token_defs)

interpretation guid_hash: token_pair GUID_TOKEN TEAM_HASH_TOKEN "lit ''GUID''" "lit ''TEAM_HASH''"
  by unfold_locales (simp_all add: token_defs)

interpretation uuid_hash: token_pair UUID_TOKEN TEAM_HASH_TOKEN "lit ''UUID''" "lit ''TEAM_HASH''"
  by unfold_locales (simp_all add: token_defs)

section \<open>Expansion of accepted templates\<close>

definition lower_hex :: "nat \<Rightarrow> bool" where
  "lower_hex c \<longleftrightarrow> ascii_digit c \<or> 97 \<le> c \<and> c \<le> 102"

definition uuid_text :: "ustr \<Rightarrow> bool" where
  "uuid_text u \<longleftrightarrow> length u = 36 \<and> (\<forall>c \<in> set u. lower_hex c \<or> c = 45)"

definition hex_text :: "nat \<Rightarrow> ustr \<Rightarrow> bool" where
  "hex_text n h \<longleftrightarrow> length h = n \<and> (\<forall>c \<in> set h. lower_hex c)"

lemma lower_hex_ascii: "lower_hex c \<Longrightarrow> c < 128"
  by (auto simp: lower_hex_def ascii_digit_def)

lemma lower_hex_not_whitespace: "lower_hex c \<Longrightarrow> \<not> is_flag_whitespace c"
  by (auto simp: lower_hex_def ascii_digit_def is_flag_whitespace_def)

lemma uuid_text_ascii: "uuid_text u \<Longrightarrow> \<forall>c \<in> set u. c < 128"
  by (auto simp: uuid_text_def dest: lower_hex_ascii)

lemma hex_text_ascii: "hex_text n h \<Longrightarrow> \<forall>c \<in> set h. c < 128"
  by (auto simp: hex_text_def dest: lower_hex_ascii)

lemma uuid_text_len: "uuid_text u \<Longrightarrow> str_len u = 36"
  using str_len_ascii [OF uuid_text_ascii] by (simp add: uuid_text_def)

lemma hex_text_len: "hex_text n h \<Longrightarrow> str_len h = n"
  using str_len_ascii [OF hex_text_ascii] by (simp add: hex_text_def)

lemma uuid_text_disjoint:
  assumes "uuid_text u"
  shows "u \<noteq> []" "set u \<inter> set UUID_TOKEN = {}" "set u \<inter> set TEAM_HASH_TOKEN = {}"
  using assms by (auto simp: uuid_text_def token_defs lower_hex_def ascii_digit_def)

lemma str_prefix_bytes_ascii:
  "\<forall>c \<in> set s. c < 128 \<Longrightarrow> n \<le> length s \<Longrightarrow> str_prefix_bytes s n = Some (take n s)"
  by (induction s n rule: str_prefix_bytes.induct) auto

lemma token_lens [simp]:
  "str_len GUID_TOKEN = 6" "str_len UUID_TOKEN = 6" "str_len TEAM_HASH_TOKEN = 11"
  by (simp_all add: token_defs)

lemma has_boundary_whitespace_iff:
  "s \<noteq> [] \<Longrightarrow> has_boundary_whitespace s \<longleftrightarrow> is_flag_whitespace (hd s) \<or> is_flag_whitespace (last s)"
proof -
  have "(case s of [] \<Rightarrow> False | c # _ \<Rightarrow> is_flag_whitespace c) \<longleftrightarrow> is_flag_whitespace (hd s)"
    if "s \<noteq> []" for s using that by (cases s) auto
  from this [of s] this [of "rev s"] show "has_boundary_whitespace s \<longleftrightarrow> is_flag_whitespace (hd s) \<or> is_flag_whitespace (last s)" if "s \<noteq> []" using that
    by (simp add: has_boundary_whitespace_def hd_rev)
qed

lemma replace_boundary:
  assumes "needle \<noteq> []" "t \<noteq> []" "s \<noteq> []" "\<not> has_boundary_whitespace s" "\<not> has_boundary_whitespace t"
  shows "str_replace s needle t \<noteq> []" "\<not> has_boundary_whitespace (str_replace s needle t)"
proof -
  note r = str_replace_hd_last [OF assms(1-3)]
  then show "str_replace s needle t \<noteq> []" by simp
  then show "\<not> has_boundary_whitespace (str_replace s needle t)"
    using r assms(2-5) by (auto simp: has_boundary_whitespace_iff)
qed

lemma no_whitespace_boundary: "\<forall>c \<in> set u. \<not> is_flag_whitespace c \<Longrightarrow> \<not> has_boundary_whitespace u"
  by (cases "u = []") (simp_all add: has_boundary_whitespace_iff, simp add: has_boundary_whitespace_def)

lemma uuid_text_boundary: "uuid_text u \<Longrightarrow> \<not> has_boundary_whitespace u"
proof -
  have "\<not> is_flag_whitespace 45" by (simp add: is_flag_whitespace_def)
  then show "uuid_text u \<Longrightarrow> \<not> has_boundary_whitespace u"
    using lower_hex_not_whitespace unfolding uuid_text_def by (metis no_whitespace_boundary)
qed

lemma hex_text_boundary: "hex_text n h \<Longrightarrow> \<not> has_boundary_whitespace h"
  using lower_hex_not_whitespace unfolding hex_text_def by (metis no_whitespace_boundary)

lemma occurrence_count_bound: "needle \<noteq> [] \<Longrightarrow> occurrence_count s needle * str_len needle \<le> str_len s"
proof -
  assume "needle \<noteq> []"
  from str_replace_len [OF this, of s "[]"] show ?thesis by simp
qed

lemma expanded_template_bytes_exact:
  assumes "str_len t \<le> 127"
  shows "expanded_template_bytes t = Some (str_len t + occurrence_count t GUID_TOKEN * 30
    + occurrence_count t UUID_TOKEN * 30 + occurrence_count t TEAM_HASH_TOKEN * 5)"
proof -
  have "occurrence_count t GUID_TOKEN * 6 \<le> 127" "occurrence_count t UUID_TOKEN * 6 \<le> 127"
    "occurrence_count t TEAM_HASH_TOKEN * 11 \<le> 127"
    using occurrence_count_bound [of GUID_TOKEN t] occurrence_count_bound [of UUID_TOKEN t]
      occurrence_count_bound [of TEAM_HASH_TOKEN t] assms by auto
  with assms show ?thesis
    by (simp add: expanded_template_bytes_def UUID_EXPANDED_BYTES_def TEAM_HASH_EXPANDED_BYTES_def
        checked_mul_u64_def checked_add_u64_def)
qed

lemma expanded_template_bytes_ge: "expanded_template_bytes t = Some n \<Longrightarrow> str_len t \<le> n"
  by (auto simp: expanded_template_bytes_def Let_def checked_mul_u64_def checked_add_u64_def
      bind_eq_Some_conv split: if_splits)

lemma expand_template_len:
  assumes "uuid_text guid" "uuid_text uuid" "str_len h = 16"
  shows "str_len (str_replace (str_replace (str_replace t GUID_TOKEN guid) UUID_TOKEN uuid)
            TEAM_HASH_TOKEN h)
    = str_len t + occurrence_count t GUID_TOKEN * 30
      + occurrence_count t UUID_TOKEN * 30 + occurrence_count t TEAM_HASH_TOKEN * 5"
proof -
  let ?s1 = "str_replace t GUID_TOKEN guid"
  let ?s2 = "str_replace ?s1 UUID_TOKEN uuid"
  note g = uuid_text_disjoint [OF assms(1)] and u = uuid_text_disjoint [OF assms(2)]
  have c1: "occurrence_count ?s1 UUID_TOKEN = occurrence_count t UUID_TOKEN"
    by (rule guid_uuid.replace_keeps_count [OF g(1,2)])
  have c2: "occurrence_count ?s2 TEAM_HASH_TOKEN = occurrence_count t TEAM_HASH_TOKEN"
    using uuid_hash.replace_keeps_count [OF u(1,3)] guid_hash.replace_keeps_count [OF g(1,3)] by simp
  show ?thesis
    using str_replace_len [OF guid_uuid.not_Nil(1), of t guid]
      str_replace_len [OF uuid_hash.not_Nil(1), of ?s1 uuid]
      str_replace_len [OF guid_hash.not_Nil(2), of ?s2 h]
    by (simp add: c1 c2 assms(3) uuid_text_len [OF assms(1)] uuid_text_len [OF assms(2)])
qed

text \<open>The acceptance conditions, without the redundant early length check.\<close>

lemma validate_dynamic_template_Inr:
  "validate_dynamic_template t = Inr () \<longleftrightarrow>
    t \<noteq> [] \<and> \<not> has_boundary_whitespace t
    \<and> (str_contains t GUID_TOKEN \<or> str_contains t UUID_TOKEN \<or> str_contains t TEAM_HASH_TOKEN)
    \<and> (\<exists>n \<le> 127. expanded_template_bytes t = Some n)"
proof (cases "expanded_template_bytes t")
  case None
  then show ?thesis by (simp add: validate_dynamic_template_def NORMAL_FLAG_MAX_BYTES_def)
next
  case (Some n)
  with expanded_template_bytes_ge [OF Some] show ?thesis
    by (auto simp: validate_dynamic_template_def NORMAL_FLAG_MAX_BYTES_def)
qed

lemma accepted_template_not_blank:
  "validate_dynamic_template t = Inr () \<Longrightarrow> filter_blank (Some t) = Some t"
  by (cases t) (auto simp: validate_dynamic_template_Inr filter_blank_def is_blank_def
      has_boundary_whitespace_iff)

lemma expand_template_accepted:
  assumes ok: "validate_dynamic_template t = Inr ()"
    and ids: "uuid_text guid" "uuid_text uuid" and hash: "hex_text 64 team_hash"
  obtains flag where "expand_template t guid uuid team_hash = Some flag"
    "validate_normal flag = Inr ()" "expanded_template_bytes t = Some (str_len flag)"
proof -
  let ?h = "take 16 team_hash"
  let ?s1 = "str_replace t GUID_TOKEN guid"
  let ?s2 = "str_replace ?s1 UUID_TOKEN uuid"
  let ?s3 = "str_replace ?s2 TEAM_HASH_TOKEN ?h"
  have h: "hex_text 16 ?h" using hash by (auto simp: hex_text_def dest: in_set_takeD)
  have "str_prefix_bytes team_hash 16 = Some ?h"
    using hash by (intro str_prefix_bytes_ascii) (auto simp: hex_text_def dest: lower_hex_ascii)
  then have ex: "expand_template t guid uuid team_hash = Some ?s3"
    by (simp add: expand_template_def hex_text_len [OF hash])
  from ok obtain n where t: "t \<noteq> []" "\<not> has_boundary_whitespace t" "n \<le> 127"
      and n: "expanded_template_bytes t = Some n"
    by (auto simp: validate_dynamic_template_Inr)
  have "str_len t \<le> 127" using expanded_template_bytes_ge [OF n] t(3) by simp
  from expanded_template_bytes_exact [OF this]
  have len: "expanded_template_bytes t = Some (str_len ?s3)"
    using expand_template_len [OF ids hex_text_len [OF h], of t] by simp
  note b1 = replace_boundary [OF guid_uuid.not_Nil(1) uuid_text_disjoint(1) [OF ids(1)] t(1,2)
      uuid_text_boundary [OF ids(1)]]
  note b2 = replace_boundary [OF uuid_hash.not_Nil(1) uuid_text_disjoint(1) [OF ids(2)] b1
      uuid_text_boundary [OF ids(2)]]
  have "?h \<noteq> []" using h by (auto simp: hex_text_def)
  note b3 = replace_boundary [OF guid_hash.not_Nil(2) this b2 hex_text_boundary [OF h]]
  have "validate_normal ?s3 = Inr ()"
    using b3 len n t(3) by (simp add: validate_normal_def NORMAL_FLAG_MAX_BYTES_def)
  with that ex len show ?thesis by blast
qed

section \<open>The A&D grammar\<close>

lemma validate_ad_Inr:
  "validate_ad s = Inr () \<longleftrightarrow>
    (\<exists>p. s = lit ''flag{'' @ p @ lit ''}'' \<and> length p = 32
       \<and> (\<forall>c \<in> set p. ascii_alnum c \<or> c = 95 \<or> c = 45))"
proof
  assume ok: "validate_ad s = Inr ()"
  let ?b = "str_bytes s"
  let ?ok = "\<lambda>c. ascii_alnum c \<or> c = 95 \<or> c = 45"
  from ok have len: "length ?b = 38" and pre: "prefix (lit ''flag{'') ?b" and suf: "suffix (lit ''}'') ?b"
    and pay: "list_all ?ok (take 32 (drop 5 ?b))"
    by (auto simp: validate_ad_def Let_def AD_FLAG_BYTES_def split: if_splits)
  from pre obtain r where r: "?b = lit ''flag{'' @ r" by (auto simp: prefix_def)
  with len have lr: "length r = 33" by (simp add: lit_def)
  from suf r lr obtain p where p: "r = p @ lit ''}''"
    by (cases r rule: rev_cases) (auto simp: suffix_def lit_def)
  with lr have lp: "length p = 32" by (simp add: lit_def)
  have "take 32 (drop 5 ?b) = p" using r p lp by (simp add: lit_def)
  with pay have okp: "\<forall>c \<in> set p. ?ok c" by (simp add: list_all_iff)
  have "\<forall>c \<in> set ?b. c < 128"
    using okp unfolding r p
    by (auto simp: lit_def ascii_alnum_def ascii_alpha_def ascii_lower_def ascii_upper_def ascii_digit_def)
  then have "str_bytes s = s" by (rule bytes_all_eq) simp
  with r p lp okp show "\<exists>p. s = lit ''flag{'' @ p @ lit ''}'' \<and> length p = 32 \<and> (\<forall>c \<in> set p. ?ok c)"
    by auto
next
  assume "\<exists>p. s = lit ''flag{'' @ p @ lit ''}'' \<and> length p = 32
       \<and> (\<forall>c \<in> set p. ascii_alnum c \<or> c = 95 \<or> c = 45)"
  then obtain p where s: "s = lit ''flag{'' @ p @ lit ''}''" and lp: "length p = 32"
    and okp: "\<forall>c \<in> set p. ascii_alnum c \<or> c = 95 \<or> c = 45" by blast
  have "\<forall>c \<in> set s. c < 128"
    using okp unfolding s
    by (auto simp: lit_def ascii_alnum_def ascii_alpha_def ascii_lower_def ascii_upper_def ascii_digit_def)
  then have "str_bytes s = s" by (rule str_bytes_ascii)
  with s lp okp show "validate_ad s = Inr ()"
    by (simp add: validate_ad_def AD_FLAG_BYTES_def lit_def suffix_def list_all_iff)
qed

lemma hex_flag_valid_ad:
  assumes "hex_text 32 h"
  shows "validate_ad (lit ''flag{'' @ h @ lit ''}'') = Inr ()"
  unfolding validate_ad_Inr
  using assms by (intro exI [of _ h])
    (auto simp: hex_text_def lower_hex_def ascii_alnum_def ascii_alpha_def ascii_lower_def)

lemma hex_flag_valid_normal:
  assumes "hex_text 32 h"
  shows "validate_normal (lit ''flag{'' @ h @ lit ''}'') = Inr ()"
  using hex_text_len [OF assms]
  by (simp add: validate_normal_def NORMAL_FLAG_MAX_BYTES_def has_boundary_whitespace_iff
      is_flag_whitespace_def lit_def)

section \<open>Main results\<close>

text \<open>
  C17. A template the policy accepts always yields a submittable flag: whatever UUIDs are drawn and
  whatever the team's SHA-256 hash is, expansion does not panic, the produced flag passes the
  policy of normal answers, its byte length is exactly the one the template check computed, and
  the checked generator returns that flag.
\<close>

theorem accepted_template_yields_valid_flag:
  assumes "validate_dynamic_template t = Inr ()"
    and "uuid_text guid" "uuid_text uuid" "hex_text 64 team_hash"
  shows "\<exists>flag. generate_flag random_hex guid uuid (Some t) team_hash = Some flag
    \<and> validate_normal flag = Inr ()
    \<and> expanded_template_bytes t = Some (str_len flag)
    \<and> generate_flag_checked random_hex guid uuid (Some t) team_hash = Some (Inr flag)"
proof -
  obtain flag where f: "expand_template t guid uuid team_hash = Some flag"
    "validate_normal flag = Inr ()" "expanded_template_bytes t = Some (str_len flag)"
    using expand_template_accepted [OF assms] .
  note nb = accepted_template_not_blank [OF assms(1)]
  have "generate_flag random_hex guid uuid (Some t) team_hash = Some flag"
    by (simp add: generate_flag_def nb f)
  with f assms(1) nb show ?thesis
    by (simp add: generate_flag_checked_def validate_template_if_present_def validate_generated_normal_def)
qed

definition sample_template :: ustr where
  "sample_template = lit ''flag{[UUID]-[TEAM_HASH]}''"

lemma sample_template_accepted: "validate_dynamic_template sample_template = Inr ()"
proof -
  have "occurrence_count sample_template GUID_TOKEN = 0" "occurrence_count sample_template UUID_TOKEN = 1"
    "occurrence_count sample_template TEAM_HASH_TOKEN = 1"
    by (simp_all add: sample_template_def token_defs occurrence_count.simps)
  moreover have "str_contains sample_template UUID_TOKEN"
    by (simp add: str_contains_def sample_template_def token_defs sublist_Cons_right)
  moreover have "str_len sample_template = 24" by (simp add: sample_template_def lit_def)
  ultimately show ?thesis
    using expanded_template_bytes_exact [of sample_template]
    by (simp add: validate_dynamic_template_Inr)
      (simp add: sample_template_def lit_def has_boundary_whitespace_def is_flag_whitespace_def)
qed

lemma sample_texts:
  "uuid_text (replicate 36 97)" "hex_text 64 (replicate 64 98)" "hex_text 32 (replicate 32 48)"
  by (simp_all add: uuid_text_def hex_text_def lower_hex_def ascii_digit_def)

theorem accepted_template_yields_valid_flag_witness:
  "validate_dynamic_template sample_template = Inr ()
   \<and> (\<exists>flag. generate_flag [] (replicate 36 97) (replicate 36 97) (Some sample_template) (replicate 64 98)
         = Some flag \<and> validate_normal flag = Inr ()
       \<and> expanded_template_bytes sample_template = Some (str_len flag))"
  using accepted_template_yields_valid_flag [OF sample_template_accepted sample_texts(1,1,2)]
    sample_template_accepted by blast

text \<open>
  The template check is exact in unbounded arithmetic: a template is accepted precisely when it
  is non-empty, has no whitespace at its ends, contains a placeholder, and its length with every
  occurrence of a placeholder expanded is at most 127 bytes. The early length check and the
  checked machine arithmetic reject nothing else.
\<close>

theorem validate_dynamic_template_exact:
  "validate_dynamic_template t = Inr () \<longleftrightarrow>
    t \<noteq> [] \<and> \<not> has_boundary_whitespace t
    \<and> (str_contains t GUID_TOKEN \<or> str_contains t UUID_TOKEN \<or> str_contains t TEAM_HASH_TOKEN)
    \<and> str_len t + occurrence_count t GUID_TOKEN * 30 + occurrence_count t UUID_TOKEN * 30
        + occurrence_count t TEAM_HASH_TOKEN * 5 \<le> 127"
proof (cases "str_len t \<le> 127")
  case True
  show ?thesis unfolding validate_dynamic_template_Inr expanded_template_bytes_exact [OF True] by auto
next
  case False
  then show ?thesis
    unfolding validate_dynamic_template_Inr using expanded_template_bytes_ge [of t] by fastforce
qed

text \<open>What the generators rely on in the digest, the hexadecimal decoder and the UUID formatter.\<close>

definition sha256_contract :: "(ustr \<Rightarrow> ustr) \<Rightarrow> bool" where
  "sha256_contract sha256_str \<longleftrightarrow> (\<forall>s. hex_text 64 (sha256_str s))"

definition hex_contract :: "(ustr \<Rightarrow> bytes option) \<Rightarrow> bool" where
  "hex_contract hex_decode \<longleftrightarrow> (\<forall>h. hex_text 32 h \<longrightarrow> (\<exists>b. hex_decode h = Some b \<and> length b = 16))"

definition uuid_contract :: "(bytes \<Rightarrow> ustr) \<Rightarrow> bool" where
  "uuid_contract uuid_to_string \<longleftrightarrow> (\<forall>b. length b = 16 \<longrightarrow> uuid_text (uuid_to_string b))"

lemma deterministic_uuid_ok:
  assumes "hex_contract hex_decode" "uuid_contract uuid_to_string" "hex_text 64 d"
  obtains u where "deterministic_uuid hex_decode uuid_to_string d = Some u" "uuid_text u"
proof -
  have p: "str_prefix_bytes d 32 = Some (take 32 d)"
    using assms(3) by (intro str_prefix_bytes_ascii) (auto simp: hex_text_def dest: lower_hex_ascii)
  have "hex_text 32 (take 32 d)" using assms(3) by (auto simp: hex_text_def dest: in_set_takeD)
  with assms(1) obtain b where b: "hex_decode (take 32 d) = Some b" "length b = 16"
    by (auto simp: hex_contract_def)
  let ?b1 = "b[6 := or (and (b ! 6) 0x0f) 0x40]"
  have "uuid_text (uuid_to_string (?b1[8 := or (and (?b1 ! 8) 0x3f) 0x80]))"
    using assms(2) b(2) by (simp add: uuid_contract_def)
  with that p b show ?thesis by (simp add: deterministic_uuid_def Let_def)
qed

lemma retryable_uuids:
  assumes "sha256_contract sha" "hex_contract hexd" "uuid_contract uts"
  obtains guid uuid where "uuid_text guid" "uuid_text uuid"
    "\<And>template. generate_retryable_flag sha hexd uts template th op =
      (case filter_blank template of
         None \<Rightarrow> Some (lit ''flag{'' @ take 32 (derive_digest sha ''empty'' th op) @ lit ''}'')
       | Some t \<Rightarrow> expand_template t guid uuid th)"
proof -
  have d: "hex_text 64 (derive_digest sha x th op)" for x
    using assms(1) by (simp add: sha256_contract_def derive_digest_def)
  obtain guid where g: "deterministic_uuid hexd uts (derive_digest sha ''guid'' th op) = Some guid" "uuid_text guid"
    using deterministic_uuid_ok [OF assms(2,3) d] .
  obtain uuid where u: "deterministic_uuid hexd uts (derive_digest sha ''uuid'' th op) = Some uuid" "uuid_text uuid"
    using deterministic_uuid_ok [OF assms(2,3) d] .
  have e: "str_prefix_bytes (derive_digest sha ''empty'' th op) 32
      = Some (take 32 (derive_digest sha ''empty'' th op))"
    using d by (intro str_prefix_bytes_ascii) (auto simp: hex_text_def dest: lower_hex_ascii)
  show ?thesis
    by (rule that [OF g(2) u(2)])
      (simp add: generate_retryable_flag_def Let_def g u e split: option.splits)
qed

text \<open>
  Crash-retryable generation always succeeds: with a digest of 64 lowercase hexadecimal digits,
  a decoder and a UUID formatter that meet their documentation, the retryable generator returns,
  for an accepted or a blank template, a flag that passes the normal policy, and the A&D variant
  a flag of the fixed A&D grammar that the stored-flag check accepts unchanged.
\<close>

theorem retryable_generation_succeeds:
  assumes "sha256_contract sha" "hex_contract hexd" "uuid_contract uts" "hex_text 64 team_hash"
    and "filter_blank template = None
      \<or> (\<exists>t. template = Some t \<and> validate_dynamic_template t = Inr ())"
  shows "(\<exists>flag. generate_retryable_flag_checked sha hexd uts template team_hash op = Some (Inr flag)
            \<and> validate_normal flag = Inr ())
    \<and> (\<exists>flag. generate_retryable_ad_flag sha hexd uts team_hash op = Some (Inr flag)
            \<and> validate_ad flag = Inr () \<and> validate_stored_ad_flag flag = Inr flag)"
proof -
  obtain guid uuid where ids: "uuid_text guid" "uuid_text uuid"
    and gen: "\<And>template. generate_retryable_flag sha hexd uts template team_hash op =
      (case filter_blank template of
         None \<Rightarrow> Some (lit ''flag{'' @ take 32 (derive_digest sha ''empty'' team_hash op) @ lit ''}'')
       | Some t \<Rightarrow> expand_template t guid uuid team_hash)"
    using retryable_uuids [OF assms(1-3)] by blast
  have h: "hex_text 32 (take 32 (derive_digest sha ''empty'' team_hash op))"
    using assms(1) by (auto simp: sha256_contract_def derive_digest_def hex_text_def dest: in_set_takeD)
  have "\<exists>flag. generate_retryable_flag_checked sha hexd uts template team_hash op = Some (Inr flag)
            \<and> validate_normal flag = Inr ()"
    using assms(5)
  proof
    assume "filter_blank template = None"
    with hex_flag_valid_normal [OF h] show ?thesis
      by (simp add: generate_retryable_flag_checked_def gen validate_template_if_present_def
          validate_generated_normal_def)
  next
    assume "\<exists>t. template = Some t \<and> validate_dynamic_template t = Inr ()"
    then obtain t where t: "template = Some t" "validate_dynamic_template t = Inr ()" by blast
    from expand_template_accepted [OF t(2) ids assms(4)] obtain flag where
      "expand_template t guid uuid team_hash = Some flag" "validate_normal flag = Inr ()" .
    with t accepted_template_not_blank [OF t(2)] show ?thesis
      by (simp add: generate_retryable_flag_checked_def gen validate_template_if_present_def
          validate_generated_normal_def)
  qed
  moreover have "filter_blank None = None" by (simp add: filter_blank_def)
  ultimately show ?thesis
    using hex_flag_valid_ad [OF h]
    by (simp add: generate_retryable_ad_flag_def gen validate_generated_ad_def validate_stored_ad_flag_def)
qed

theorem retryable_generation_succeeds_witness:
  "\<exists>flag. generate_retryable_flag_checked (\<lambda>_. replicate 64 98) (\<lambda>_. Some (replicate 16 0))
       (\<lambda>_. replicate 36 97) (Some sample_template) (replicate 64 98) (lit ''op-1'') = Some (Inr flag)
     \<and> validate_normal flag = Inr ()"
proof -
  have "sha256_contract (\<lambda>_. replicate 64 98)" "hex_contract (\<lambda>_. Some (replicate 16 0))"
    "uuid_contract (\<lambda>_. replicate 36 97)"
    using sample_texts by (simp_all add: sha256_contract_def hex_contract_def uuid_contract_def)
  from retryable_generation_succeeds [OF this sample_texts(2), of "Some sample_template" "lit ''op-1''"]
  show ?thesis using sample_template_accepted by blast
qed

text \<open>
  The A&D grammar is exact: the check accepts precisely the strings made of the prefix
  \<open>flag{\<close>, thirty-two characters that are ASCII alphanumeric, underscore or hyphen, and a closing
  brace, so non-ASCII text can never slip through the byte slice; every other string is reported
  as a grammar error.
\<close>

theorem validate_ad_exact:
  "validate_ad s =
    (if \<exists>p. s = lit ''flag{'' @ p @ lit ''}'' \<and> length p = 32
          \<and> list_all (\<lambda>c. ascii_alnum c \<or> c = 95 \<or> c = 45) p
     then Inr () else Inl InvalidAdGrammar)"
proof -
  have "validate_ad s = Inr () \<or> validate_ad s = Inl InvalidAdGrammar"
    by (simp add: validate_ad_def Let_def)
  then show ?thesis using validate_ad_Inr [of s] by (auto simp: list_all_iff)
qed

end
