(* ===== verification/Suspicion_Rules.thy ===== *)
theory Suspicion_Rules
  imports Rsctf_Prelude
begin

text \<open>
  The rules of the anti-cheat subsystem, from \<^verbatim>\<open>src/services/suspicion/mod.rs\<close>: the evidence
  tiers, the rule codes with their persisted kinds, the table of default weights, the incident
  caps, the corroboration units and the tier ceilings. Rule codes, evidence keys and descriptions
  are the UTF-8 bytes of the source's strings.
\<close>

section \<open>Tiers and rules\<close>

datatype suspicion_tier = TierContext | TierBehavioral | TierStrong | TierHard

fun suspicion_tier_rank :: "suspicion_tier \<Rightarrow> nat" where
  "suspicion_tier_rank TierContext = 0"
| "suspicion_tier_rank TierBehavioral = 1"
| "suspicion_tier_rank TierStrong = 2"
| "suspicion_tier_rank TierHard = 3"

instantiation suspicion_tier :: linorder
begin

definition less_eq_suspicion_tier :: "suspicion_tier \<Rightarrow> suspicion_tier \<Rightarrow> bool" where
  "a \<le> b \<longleftrightarrow> suspicion_tier_rank a \<le> suspicion_tier_rank b"

definition less_suspicion_tier :: "suspicion_tier \<Rightarrow> suspicion_tier \<Rightarrow> bool" where
  "a < b \<longleftrightarrow> suspicion_tier_rank a < suspicion_tier_rank b"

instance
proof
  fix a b :: suspicion_tier
  show "a \<le> b \<Longrightarrow> b \<le> a \<Longrightarrow> a = b"
    by (cases a; cases b) (simp_all add: less_eq_suspicion_tier_def)
qed (auto simp: less_eq_suspicion_tier_def less_suspicion_tier_def)

end

abbreviation em_dash :: string where
  "em_dash \<equiv> [CHR 0xE2, CHR 0x80, CHR 0x94]"

datatype suspicion_type =
    StolenFlag
  | SharedIp
  | SharedFingerprint
  | FingerprintChurn
  | IpChurn
  | UnknownIp
  | CrossTeamIp
  | TokenAbuse
  | Hoarding
  | Burst
  | NoDownload
  | NoContainer
  | FastSolveOpen
  | FastSolveDownload
  | FastSolveContainer
  | SequenceSimilarity
  | CollusionGroup
  | ZeroWrongAttempts
  | WrongFlagLeakage
  | SolutionRelay
  | AdaptiveFastSolve
  | DirectedSolving
  | ClusteredRegistration
  | SubnetOverlap
  | HighWrongRate
  | AutomatedPattern
  | SessionConcurrency
  | FirstBloodAnomaly
  | HoneypotHit
  | HoneypotProtocolHit
  | HoneypotCanaryFlag
  | HoneypotChain
  | FlagEgress
  | CrossTeamContainerAccess
  | DelayedSolveSubmission
  | InstantSubmitAfterAccess
  | SubmitterNeverAccessedContainer
  | AccessIpMismatchAtSubmission
  | AgentArtifact
  | AiDeclarationContradiction

fun suspicion_code :: "suspicion_type \<Rightarrow> string" where
  "suspicion_code StolenFlag = ''StolenFlag''"
| "suspicion_code SharedIp = ''SharedIP''"
| "suspicion_code SharedFingerprint = ''SharedFingerprint''"
| "suspicion_code FingerprintChurn = ''FingerprintChurn''"
| "suspicion_code IpChurn = ''IpChurn''"
| "suspicion_code UnknownIp = ''UnknownIP''"
| "suspicion_code CrossTeamIp = ''CrossTeamIP''"
| "suspicion_code TokenAbuse = ''TokenAbuse''"
| "suspicion_code Hoarding = ''Hoarding''"
| "suspicion_code Burst = ''Burst''"
| "suspicion_code NoDownload = ''NoDownload''"
| "suspicion_code NoContainer = ''NoContainer''"
| "suspicion_code FastSolveOpen = ''FastSolve-Open''"
| "suspicion_code FastSolveDownload = ''FastSolve-Download''"
| "suspicion_code FastSolveContainer = ''FastSolve-Container''"
| "suspicion_code SequenceSimilarity = ''SequenceSimilarity''"
| "suspicion_code CollusionGroup = ''CollusionGroup''"
| "suspicion_code ZeroWrongAttempts = ''ZeroWrongAttempts''"
| "suspicion_code WrongFlagLeakage = ''WrongFlagLeakage''"
| "suspicion_code SolutionRelay = ''SolutionRelay''"
| "suspicion_code AdaptiveFastSolve = ''AdaptiveFastSolve''"
| "suspicion_code DirectedSolving = ''DirectedSolving''"
| "suspicion_code ClusteredRegistration = ''ClusteredRegistration''"
| "suspicion_code SubnetOverlap = ''SubnetOverlap''"
| "suspicion_code HighWrongRate = ''HighWrongRate''"
| "suspicion_code AutomatedPattern = ''AutomatedPattern''"
| "suspicion_code SessionConcurrency = ''SessionConcurrency''"
| "suspicion_code FirstBloodAnomaly = ''FirstBloodAnomaly''"
| "suspicion_code HoneypotHit = ''HoneypotHit''"
| "suspicion_code HoneypotProtocolHit = ''HoneypotProtocolHit''"
| "suspicion_code HoneypotCanaryFlag = ''HoneypotCanaryFlag''"
| "suspicion_code HoneypotChain = ''HoneypotChain''"
| "suspicion_code FlagEgress = ''FlagEgress''"
| "suspicion_code CrossTeamContainerAccess = ''CrossTeamContainerAccess''"
| "suspicion_code DelayedSolveSubmission = ''DelayedSolveSubmission''"
| "suspicion_code InstantSubmitAfterAccess = ''InstantSubmitAfterAccess''"
| "suspicion_code SubmitterNeverAccessedContainer = ''SubmitterNeverAccessedContainer''"
| "suspicion_code AccessIpMismatchAtSubmission = ''AccessIpMismatchAtSubmission''"
| "suspicion_code AgentArtifact = ''AgentArtifact''"
| "suspicion_code AiDeclarationContradiction = ''AiDeclarationContradiction''"

fun suspicion_kind :: "suspicion_type \<Rightarrow> int" where
  "suspicion_kind StolenFlag = 0"
| "suspicion_kind SharedIp = 1"
| "suspicion_kind SharedFingerprint = 2"
| "suspicion_kind FingerprintChurn = 3"
| "suspicion_kind IpChurn = 4"
| "suspicion_kind UnknownIp = 5"
| "suspicion_kind CrossTeamIp = 6"
| "suspicion_kind TokenAbuse = 7"
| "suspicion_kind Hoarding = 8"
| "suspicion_kind Burst = 9"
| "suspicion_kind NoDownload = 10"
| "suspicion_kind NoContainer = 11"
| "suspicion_kind FastSolveOpen = 12"
| "suspicion_kind FastSolveDownload = 13"
| "suspicion_kind FastSolveContainer = 14"
| "suspicion_kind SequenceSimilarity = 15"
| "suspicion_kind CollusionGroup = 16"
| "suspicion_kind ZeroWrongAttempts = 17"
| "suspicion_kind WrongFlagLeakage = 18"
| "suspicion_kind SolutionRelay = 19"
| "suspicion_kind AdaptiveFastSolve = 20"
| "suspicion_kind DirectedSolving = 21"
| "suspicion_kind ClusteredRegistration = 22"
| "suspicion_kind SubnetOverlap = 23"
| "suspicion_kind HighWrongRate = 24"
| "suspicion_kind AutomatedPattern = 25"
| "suspicion_kind SessionConcurrency = 26"
| "suspicion_kind FirstBloodAnomaly = 27"
| "suspicion_kind HoneypotHit = 28"
| "suspicion_kind HoneypotProtocolHit = 29"
| "suspicion_kind HoneypotCanaryFlag = 30"
| "suspicion_kind HoneypotChain = 31"
| "suspicion_kind FlagEgress = 32"
| "suspicion_kind CrossTeamContainerAccess = 33"
| "suspicion_kind DelayedSolveSubmission = 34"
| "suspicion_kind InstantSubmitAfterAccess = 35"
| "suspicion_kind SubmitterNeverAccessedContainer = 36"
| "suspicion_kind AccessIpMismatchAtSubmission = 37"
| "suspicion_kind AgentArtifact = 38"
| "suspicion_kind AiDeclarationContradiction = 39"

definition suspicion_from_kind :: "int \<Rightarrow> suspicion_type option" where
  "suspicion_from_kind kind =
    (if kind = 0 then Some StolenFlag
     else if kind = 1 then Some SharedIp
     else if kind = 2 then Some SharedFingerprint
     else if kind = 3 then Some FingerprintChurn
     else if kind = 4 then Some IpChurn
     else if kind = 5 then Some UnknownIp
     else if kind = 6 then Some CrossTeamIp
     else if kind = 7 then Some TokenAbuse
     else if kind = 8 then Some Hoarding
     else if kind = 9 then Some Burst
     else if kind = 10 then Some NoDownload
     else if kind = 11 then Some NoContainer
     else if kind = 12 then Some FastSolveOpen
     else if kind = 13 then Some FastSolveDownload
     else if kind = 14 then Some FastSolveContainer
     else if kind = 15 then Some SequenceSimilarity
     else if kind = 16 then Some CollusionGroup
     else if kind = 17 then Some ZeroWrongAttempts
     else if kind = 18 then Some WrongFlagLeakage
     else if kind = 19 then Some SolutionRelay
     else if kind = 20 then Some AdaptiveFastSolve
     else if kind = 21 then Some DirectedSolving
     else if kind = 22 then Some ClusteredRegistration
     else if kind = 23 then Some SubnetOverlap
     else if kind = 24 then Some HighWrongRate
     else if kind = 25 then Some AutomatedPattern
     else if kind = 26 then Some SessionConcurrency
     else if kind = 27 then Some FirstBloodAnomaly
     else if kind = 28 then Some HoneypotHit
     else if kind = 29 then Some HoneypotProtocolHit
     else if kind = 30 then Some HoneypotCanaryFlag
     else if kind = 31 then Some HoneypotChain
     else if kind = 32 then Some FlagEgress
     else if kind = 33 then Some CrossTeamContainerAccess
     else if kind = 34 then Some DelayedSolveSubmission
     else if kind = 35 then Some InstantSubmitAfterAccess
     else if kind = 36 then Some SubmitterNeverAccessedContainer
     else if kind = 37 then Some AccessIpMismatchAtSubmission
     else if kind = 38 then Some AgentArtifact
     else if kind = 39 then Some AiDeclarationContradiction
     else None)"

definition DEFAULTS :: "(suspicion_type \<times> int \<times> string) list" where
  "DEFAULTS =
    [(StolenFlag, 100, ''Flag stolen from another team''),
     (SharedIp, 10, ''Multiple team members using same IP''),
     (SharedFingerprint, 60, ''Multiple users with same browser fingerprint''),
     (FingerprintChurn, 30, ''Single user using many different browser fingerprints''),
     (IpChurn, 20, ''Single user using many different IP addresses''),
     (UnknownIp, 10, ''Using IP not seen in game before''),
     (CrossTeamIp, 20, ''IP used by members from multiple teams''),
     (TokenAbuse, 80, ''Multiple people using same submission token''),
     (Hoarding, 30, ''Solved challenge long after container destroy''),
     (Burst, 30, ''Multiple challenges solved in a very short time''),
     (NoDownload, 80, ''Solved without downloading attachment''),
     (NoContainer, 80, ''Solved without starting container''),
     (FastSolveOpen, 50, ''Solved very quickly after opening challenge''),
     (FastSolveDownload, 50, ''Solved very quickly after downloading attachment''),
     (FastSolveContainer, 50, ''Solved very quickly after starting container''),
     (SequenceSimilarity, 40, ''High similarity in solve order and timing''),
     (CollusionGroup, 10, ''Member of a detected collusion group''),
     (ZeroWrongAttempts, 50, ''Solved dynamic challenge on first attempt with no wrong submissions''),
     (WrongFlagLeakage, 80, ''Submitted another team's valid dynamic flag as a wrong answer''),
     (SolutionRelay, 60, ''Consistently solves challenges shortly after another team with constant lag''),
     (AdaptiveFastSolve, 60, ''Solved far faster than the community median solve time''),
     (DirectedSolving, 30, ''Only opened challenges they solved '' @ em_dash @ '' no exploratory browsing''),
     (ClusteredRegistration, 40, ''Multiple team accounts registered from the same IP within 48h''),
     (SubnetOverlap, 5, ''Teams share the same /24 subnet''),
     (HighWrongRate, 40, ''Burst of wrong flag submissions '' @ em_dash @ '' possible brute force''),
     (AutomatedPattern, 50, ''Machine-speed flag submission intervals '' @ em_dash @ '' likely scripted''),
     (SessionConcurrency, 30, ''Same user account active from two different IPs within 10 minutes''),
     (FirstBloodAnomaly, 20, ''First blood on a hard challenge not solved by others for 2+ hours''),
     (HoneypotHit, 70, ''Hit a platform honeypot HTTP route '' @ em_dash @ '' automated reconnaissance''),
     (HoneypotProtocolHit, 90, ''Connected to a platform honeypot protocol service (SSH, Redis, etc.) '' @ em_dash @ '' broad infra scan''),
     (HoneypotCanaryFlag, 100, ''Submitted a canary flag exposed only via honeypot '' @ em_dash @ '' automated scrape pipeline''),
     (HoneypotChain, 150, ''Followed multiple cross-referenced honeypot baits '' @ em_dash @ '' automated link-following scanner or agent''),
     (FlagEgress, 80, ''Team flag observed in proxied container traffic '' @ em_dash @ '' exfil pipeline or automated solver''),
     (CrossTeamContainerAccess, 120, ''A non-admin user from a different team opened the proxy WebSocket on this team's container''),
     (DelayedSolveSubmission, 40, ''Submitter personally opened the container long before they submitted the flag''),
     (InstantSubmitAfterAccess, 50, ''Submission within seconds of the submitter's first proxy access '' @ em_dash @ '' automated solver pipeline''),
     (SubmitterNeverAccessedContainer, 30, ''Submitter never personally opened the container; a teammate did''),
     (AccessIpMismatchAtSubmission, 30, ''Submitter's IP at submission time does not match any IP they used to access the container''),
     (AgentArtifact, 40, ''Uploaded solver or writeup contains a trace left by AI agent tooling''),
     (AiDeclarationContradiction, 60, ''Declared \"No AI used\" for a challenge whose solver upload contains an AI agent trace'')]"

definition suspicion_from_code :: "string \<Rightarrow> suspicion_type option" where
  "suspicion_from_code code = map_option fst (find (\<lambda>(ty, _, _). suspicion_code ty = code) DEFAULTS)"

definition default_entry :: "suspicion_type \<Rightarrow> int \<times> string" where
  "default_entry self =
    (case find (\<lambda>(ty, _, _). ty = self) DEFAULTS of Some (_, w, d) \<Rightarrow> (w, d) | None \<Rightarrow> (10, []))"

definition rule_tier :: "suspicion_type \<Rightarrow> suspicion_tier" where
  "rule_tier self =
    (if self \<in> {StolenFlag, CrossTeamContainerAccess, WrongFlagLeakage, TokenAbuse,
                HoneypotCanaryFlag} then TierHard
     else if self \<in> {AutomatedPattern, HighWrongRate, SolutionRelay, AiDeclarationContradiction}
       then TierStrong
     else if self \<in> {SharedIp, CrossTeamIp, UnknownIp, IpChurn, SubnetOverlap, SessionConcurrency,
                     FastSolveOpen, FastSolveDownload, FastSolveContainer, DirectedSolving,
                     ClusteredRegistration, HoneypotHit, HoneypotProtocolHit, HoneypotChain,
                     FingerprintChurn, SharedFingerprint, AccessIpMismatchAtSubmission, FlagEgress,
                     NoDownload, NoContainer, SubmitterNeverAccessedContainer} then TierContext
     else TierBehavioral)"

definition max_incidents :: "suspicion_type \<Rightarrow> int" where
  "max_incidents self =
    (if self \<in> {StolenFlag, CrossTeamContainerAccess, WrongFlagLeakage} then 10
     else if self = TokenAbuse then 5
     else if self = HoneypotCanaryFlag then 3
     else if self \<in> {AutomatedPattern, HighWrongRate} then 3
     else if self = SolutionRelay then 2
     else if self = HoneypotChain then 1
     else if self = HoneypotProtocolHit then 3
     else if self \<in> {FastSolveOpen, FastSolveDownload, FastSolveContainer} then 3
     else if self \<in> {ZeroWrongAttempts, Burst, Hoarding, SequenceSimilarity} then 3
     else if self = CollusionGroup then 1
     else if self = AdaptiveFastSolve then 3
     else if self = DirectedSolving then 1
     else if self = FirstBloodAnomaly then 4
     else if self = DelayedSolveSubmission then 5
     else if self = InstantSubmitAfterAccess then 3
     else if self = SubmitterNeverAccessedContainer then 3
     else if self = HoneypotHit then 5
     else if self \<in> {NoDownload, NoContainer} then 3
     else if self \<in> {AgentArtifact, AiDeclarationContradiction} then 3
     else 3)"

definition corroboration_unit :: "suspicion_type \<Rightarrow> int" where
  "corroboration_unit self =
    (if self \<in> {NoDownload, NoContainer, FastSolveOpen, FastSolveDownload, FastSolveContainer,
                DirectedSolving, ClusteredRegistration, HoneypotHit, HoneypotProtocolHit,
                HoneypotChain, FlagEgress, SubmitterNeverAccessedContainer} then 0
     else if self = SharedFingerprint then 20
     else if self = CrossTeamIp then 10
     else if self = SessionConcurrency then 10
     else 5)"

fun tier_ceiling :: "suspicion_tier \<Rightarrow> int" where
  "tier_ceiling TierStrong = 60"
| "tier_ceiling TierBehavioral = 25"
| "tier_ceiling TierContext = 0"
| "tier_ceiling TierHard = i64_max"

definition default_weight :: "string \<Rightarrow> int" where
  "default_weight rule_code =
    (case suspicion_from_code rule_code of Some ty \<Rightarrow> fst (default_entry ty) | None \<Rightarrow> 10)"

text \<open>
  \<open>resolve_entry\<close>: the administrator's row of \<open>SuspicionRules\<close> when there is one. A failing query
  is the caller's error and is not a value of the table.
\<close>

definition resolve_entry :: "(string \<rightharpoonup> int) \<Rightarrow> suspicion_type \<Rightarrow> int \<times> string" where
  "resolve_entry rules ty =
    (let (default_w, desc) = default_entry ty
     in ((case rules (suspicion_code ty) of Some w \<Rightarrow> w | None \<Rightarrow> default_w), desc))"

section \<open>Round trips of the persisted identities\<close>

definition all_rules :: "suspicion_type list" where
  "all_rules = map fst DEFAULTS"

lemma all_rules_complete: "ty \<in> set all_rules"
  by (cases ty) (simp_all add: all_rules_def DEFAULTS_def)

lemma all_rules_distinct: "distinct (map suspicion_code all_rules)"
  by (simp add: all_rules_def DEFAULTS_def)

lemma suspicion_code_inj: "suspicion_code a = suspicion_code b \<longleftrightarrow> a = b"
  using all_rules_distinct all_rules_complete by (metis distinct_map inj_onD)

lemma all_rules_find: "\<exists>w d. find (\<lambda>(ty, _, _). ty = self) DEFAULTS = Some (self, w, d)"
proof -
  have "find (\<lambda>(ty, _, _). ty = self) DEFAULTS \<noteq> None"
  proof
    assume "find (\<lambda>(ty, _, _). ty = self) DEFAULTS = None"
    then have "self \<notin> fst ` set DEFAULTS" by (auto simp: find_None_iff)
    then show False using all_rules_complete [of self] by (simp add: all_rules_def)
  qed
  then obtain e where e: "find (\<lambda>(ty, _, _). ty = self) DEFAULTS = Some e" by blast
  then have "fst e = self" by (cases e) (auto simp: find_Some_iff)
  with e show ?thesis by (cases e) simp
qed

lemma suspicion_from_code_iff: "suspicion_from_code c = Some ty \<longleftrightarrow> suspicion_code ty = c"
proof
  show "suspicion_from_code c = Some ty \<Longrightarrow> suspicion_code ty = c"
    by (auto simp: suspicion_from_code_def find_Some_iff)
next
  assume c: "suspicion_code ty = c"
  have "(\<lambda>(t, _, _). suspicion_code t = c) = (\<lambda>(t :: suspicion_type, _ :: int, _ :: string). t = ty)"
    using c suspicion_code_inj by auto
  with all_rules_find [of ty] show "suspicion_from_code c = Some ty"
    by (auto simp: suspicion_from_code_def)
qed

lemma suspicion_from_kind_iff: "suspicion_from_kind k = Some ty \<longleftrightarrow> suspicion_kind ty = k"
proof
  show "suspicion_from_kind k = Some ty \<Longrightarrow> suspicion_kind ty = k"
    unfolding suspicion_from_kind_def by (simp split: if_splits)
  show "suspicion_kind ty = k \<Longrightarrow> suspicion_from_kind k = Some ty"
    by (cases ty) (auto simp: suspicion_from_kind_def)
qed

lemma max_incidents_pos: "0 < max_incidents ty" "max_incidents ty \<le> 10"
  by (simp_all add: max_incidents_def)

lemma corroboration_unit_nonneg: "0 \<le> corroboration_unit ty"
  by (simp add: corroboration_unit_def)

section \<open>Main results\<close>

text \<open>
  The persisted identities of a rule are unambiguous: reading a rule back from its code or from
  its numeric kind succeeds exactly for the code or kind of that rule, so no stored event can be
  reinterpreted as another rule and every stored rule is readable; and the table of defaults has
  exactly one entry per rule, so the fallback weight of a known code is never used.
\<close>

theorem suspicion_identity_roundtrip:
  "(suspicion_from_code c = Some ty \<longleftrightarrow> suspicion_code ty = c)
   \<and> (suspicion_from_kind k = Some ty \<longleftrightarrow> suspicion_kind ty = k)
   \<and> length (filter (\<lambda>e. fst e = ty) DEFAULTS) = 1
   \<and> default_weight (suspicion_code ty) = fst (default_entry ty)"
proof -
  have "length (filter (\<lambda>e. fst e = ty) DEFAULTS) = length (filter (\<lambda>t. t = ty) all_rules)"
    by (simp add: all_rules_def filter_map comp_def case_prod_beta)
  also have "\<dots> = card ({t. t = ty} \<inter> set all_rules)"
    using all_rules_distinct unfolding distinct_map by (blast intro: distinct_length_filter)
  finally have "length (filter (\<lambda>e. fst e = ty) DEFAULTS) = 1"
    using all_rules_complete [of ty] by simp
  moreover have "suspicion_from_code (suspicion_code ty) = Some ty"
    using suspicion_from_code_iff by blast
  then have "default_weight (suspicion_code ty) = fst (default_entry ty)"
    by (simp add: default_weight_def)
  ultimately show ?thesis
    by (simp add: suspicion_from_code_iff suspicion_from_kind_iff)
qed

end
