(* ===== verification/Suspicion_Scoring.thy ===== *)
theory Suspicion_Scoring
  imports Suspicion_Rules App_Error "HOL-Library.Char_ord" "HOL-Library.List_Lexorder"
    "HOL-Library.Product_Lexorder"
begin

text \<open>
  The tiered aggregation of suspicion evidence, from \<^verbatim>\<open>src/services/suspicion/scoring.rs\<close>, the
  projection it writes back to the participation, and the ranking of the cheat report, from
  \<^verbatim>\<open>src/controllers/game/cheat.rs\<close>. Times are integers. A reference definition gives each tier's
  score in closed form, and the loops are proved equal to it.
\<close>

section \<open>Data\<close>

datatype risk_band = BandClean | BandContext | BandWatch | BandInvestigate | BandEvidenced

fun risk_band_rank :: "risk_band \<Rightarrow> int" where
  "risk_band_rank BandClean = 0"
| "risk_band_rank BandContext = 1"
| "risk_band_rank BandWatch = 2"
| "risk_band_rank BandInvestigate = 3"
| "risk_band_rank BandEvidenced = 4"

fun band_key :: "risk_band \<Rightarrow> string" where
  "band_key BandEvidenced = ''evidenced''"
| "band_key BandInvestigate = ''investigate''"
| "band_key BandWatch = ''watch''"
| "band_key BandContext = ''context''"
| "band_key BandClean = ''clean''"

record suspicion_event_row =
  sv_rule_code :: string
  sv_evidence_key :: string
  sv_details :: string
  sv_time :: int
  sv_score_delta :: "int option"

record scored_event =
  se_rule_code :: string
  se_details :: string
  se_time :: int
  se_score_delta :: int
  se_applied :: int
  se_tier :: suspicion_tier
  se_counted :: bool

record suspicion_breakdown =
  bd_hard :: int
  bd_strong :: int
  bd_behavioral :: int
  bd_corroboration :: int
  bd_total :: int
  bd_band :: risk_band
  bd_events :: "scored_event list"

definition is_quarantined_evidence_key :: "string \<Rightarrow> bool" where
  "is_quarantined_evidence_key key \<longleftrightarrow> prefix ''legacy-untrusted:'' key"

section \<open>The aggregation loops\<close>

text \<open>State of the loop over one rule's events, newest first.\<close>

record incident_state =
  is_seen :: "string list"
  is_legacy_seen :: bool
  is_counted :: int
  is_newest_context :: "nat option"
  is_annotated :: "scored_event list"
  is_subtotal :: "suspicion_tier \<Rightarrow> int"

definition row_is_legacy :: "suspicion_event_row \<Rightarrow> bool" where
  "row_is_legacy e \<longleftrightarrow> sv_score_delta e = None \<or> prefix ''legacy:'' (sv_evidence_key e)"

definition row_delta :: "(string \<Rightarrow> int) \<Rightarrow> string \<Rightarrow> suspicion_event_row \<Rightarrow> int" where
  "row_delta weight rule_code e =
    (case sv_score_delta e of Some d \<Rightarrow> d | None \<Rightarrow> weight rule_code)"

definition score_event ::
  "(string \<Rightarrow> int) \<Rightarrow> string \<Rightarrow> suspicion_tier \<Rightarrow> int \<Rightarrow> suspicion_event_row \<Rightarrow> incident_state
    \<Rightarrow> incident_state" where
  "score_event weight rule_code tier cap e s =
    (let untrusted = is_quarantined_evidence_key (sv_evidence_key e);
         legacy = row_is_legacy e;
         (is_new, s1) =
           (if untrusted \<or> legacy \<and> is_legacy_seen s then (False, s)
            else if legacy then (True, s \<lparr> is_legacy_seen := True \<rparr>)
            else (sv_evidence_key e \<notin> set (is_seen s),
                  s \<lparr> is_seen := List.insert (sv_evidence_key e) (is_seen s) \<rparr>));
         score_delta = (if untrusted then 0 else row_delta weight rule_code e);
         (counted, applied, s2) =
           (if tier > TierContext \<and> is_new \<and> is_counted s1 < cap then
              let s' = s1 \<lparr> is_counted := is_counted s1 + 1 \<rparr>;
                  scored = is_subtotal s' tier;
                  contribution = min (max score_delta 0) (sat_sub_i64 (tier_ceiling tier) scored)
              in if contribution > 0
                 then (True, contribution,
                       s' \<lparr> is_subtotal := (is_subtotal s')(tier := scored + contribution) \<rparr>)
                 else (False, 0, s')
            else (False, 0, s1));
         index = length (is_annotated s2)
     in s2 \<lparr> is_annotated := is_annotated s2 @
               [\<lparr> se_rule_code = sv_rule_code e, se_details = sv_details e, se_time = sv_time e,
                  se_score_delta = score_delta, se_applied = applied, se_tier = tier,
                  se_counted = counted \<rparr>],
             is_newest_context :=
               (if tier = TierContext \<and> \<not> untrusted \<and> is_newest_context s2 = None
                then Some index else is_newest_context s2) \<rparr>)"

text \<open>State of the loop over the rules, in the order in which they were first seen.\<close>

record group_state =
  gs_annotated :: "scored_event list"
  gs_subtotal :: "suspicion_tier \<Rightarrow> int"
  gs_context_seen :: "string list"
  gs_candidates :: "(int \<times> string \<times> nat \<times> int) list"

definition rule_groups :: "suspicion_event_row list \<Rightarrow> string list" where
  "rule_groups events =
    fold (\<lambda>e groups. if sv_rule_code e \<in> set groups then groups else groups @ [sv_rule_code e])
      events []"

definition code_tier :: "string \<Rightarrow> suspicion_tier" where
  "code_tier c = (case suspicion_from_code c of Some t \<Rightarrow> rule_tier t | None \<Rightarrow> TierBehavioral)"

definition code_cap :: "string \<Rightarrow> int" where
  "code_cap c = (case suspicion_from_code c of Some t \<Rightarrow> max_incidents t | None \<Rightarrow> 3)"

definition code_unit :: "string \<Rightarrow> int" where
  "code_unit c = (case suspicion_from_code c of Some t \<Rightarrow> corroboration_unit t | None \<Rightarrow> 5)"

definition ordered_group :: "suspicion_event_row list \<Rightarrow> string \<Rightarrow> suspicion_event_row list" where
  "ordered_group events rule_code =
    sort_key (\<lambda>e. - sv_time e) (filter (\<lambda>e. sv_rule_code e = rule_code) events)"

definition process_group ::
  "(string \<Rightarrow> int) \<Rightarrow> suspicion_event_row list \<Rightarrow> string \<Rightarrow> group_state \<Rightarrow> group_state" where
  "process_group weight events rule_code st =
    (let tier = code_tier rule_code;
         s = fold (score_event weight rule_code tier (code_cap rule_code))
               (ordered_group events rule_code)
               \<lparr> is_seen = [], is_legacy_seen = False, is_counted = 0, is_newest_context = None,
                 is_annotated = gs_annotated st, is_subtotal = gs_subtotal st \<rparr>;
         st1 = st \<lparr> gs_annotated := is_annotated s, gs_subtotal := is_subtotal s \<rparr>
     in if tier = TierContext then
          (case is_newest_context s of
             Some i \<Rightarrow>
               if rule_code \<notin> set (gs_context_seen st1) then
                 let st2 = st1 \<lparr> gs_context_seen := rule_code # gs_context_seen st1 \<rparr>;
                     unit = code_unit rule_code
                 in if unit > 0
                    then st2 \<lparr> gs_candidates := gs_candidates st2
                           @ [(se_time (gs_annotated st2 ! i), rule_code, i, unit)] \<rparr>
                    else st2
               else st1
           | None \<Rightarrow> st1)
        else st1)"

text \<open>Handing out the corroboration budget, newest evidence first.\<close>

definition allocate_corroboration ::
  "int \<times> string \<times> nat \<times> int \<Rightarrow> scored_event list \<times> int \<times> int \<Rightarrow> scored_event list \<times> int \<times> int" where
  "allocate_corroboration candidate acc =
    (case (candidate, acc) of ((_, _, i, unit), (annotated, corroboration, remaining)) \<Rightarrow>
       let applied = min unit remaining
       in if applied = 0 then (annotated, corroboration, remaining)
          else (annotated[i := (annotated ! i) \<lparr> se_applied := applied, se_counted := True \<rparr>],
                corroboration + applied, remaining - applied))"

definition compute_breakdown ::
  "suspicion_event_row list \<Rightarrow> (string \<Rightarrow> int) \<Rightarrow> suspicion_breakdown" where
  "compute_breakdown events weight =
    (let st = fold (process_group weight events) (rule_groups events)
           \<lparr> gs_annotated = [], gs_subtotal = (\<lambda>_. 0), gs_context_seen = [], gs_candidates = [] \<rparr>;
         hard = gs_subtotal st TierHard;
         strong = gs_subtotal st TierStrong;
         behavioral = gs_subtotal st TierBehavioral;
         candidates = sort_key (\<lambda>(time, code, _, _). (- time, code)) (gs_candidates st);
         (annotated, corroboration, _) =
           fold allocate_corroboration candidates (gs_annotated st, 0, hard div 2);
         total = sat_add_i64 (sat_add_i64 (sat_add_i64 hard corroboration) strong) behavioral;
         band = (if hard > 0 then BandEvidenced else if strong > 0 then BandInvestigate
                 else if behavioral > 0 then BandWatch
                 else if gs_context_seen st \<noteq> [] then BandContext else BandClean)
     in \<lparr> bd_hard = hard, bd_strong = strong, bd_behavioral = behavioral,
          bd_corroboration = corroboration, bd_total = total, bd_band = band,
          bd_events = annotated \<rparr>)"

section \<open>The projection and the report\<close>

record stored_event =
  st_kind :: int
  st_evidence_key :: string
  st_score_delta :: int
  st_created_at :: int

definition event_of_stored :: "int \<Rightarrow> stored_event \<Rightarrow> suspicion_event_row app_result" where
  "event_of_stored participation_id e =
    (case suspicion_from_kind (st_kind e) of
       None \<Rightarrow> Inl (err_internal (lit ''unknown suspicion event kind '' @ int_display (st_kind e)
                 @ lit '' for participation '' @ int_display participation_id))
     | Some ty \<Rightarrow> Inr \<lparr> sv_rule_code = suspicion_code ty, sv_evidence_key = st_evidence_key e,
                       sv_details = snd (default_entry ty), sv_time = st_created_at e,
                       sv_score_delta = Some (st_score_delta e) \<rparr>)"

text \<open>
  The read, the aggregation and the update happen in the caller's transaction. The ledger rows are
  given newest first, as the query orders them; the participations are their stored scores.
\<close>

definition recompute_participation_suspicion_score ::
  "stored_event list \<Rightarrow> (int \<rightharpoonup> int) \<Rightarrow> int \<Rightarrow> ((int \<rightharpoonup> int) \<times> int) app_result" where
  "recompute_participation_suspicion_score stored participations participation_id =
    rbind (try_fold (\<lambda>events e. rbind (event_of_stored participation_id e)
              (\<lambda>row. Inr (events @ [row]))) [] stored)
      (\<lambda>events. let total = max 0 (min i32_max (bd_total (compute_breakdown events (\<lambda>_. 0))))
        in case participations participation_id of
             None \<Rightarrow> Inl (err_not_found (lit ''participation not found''))
           | Some _ \<Rightarrow> Inr (participations(participation_id \<mapsto> total), total))"

text \<open>The rows of the cheat report: band, total, counted incidents and team, and its ranking.\<close>

record cheat_row =
  cr_band :: risk_band
  cr_total :: int
  cr_counted :: nat
  cr_team_id :: int

definition cheat_row_of :: "int \<Rightarrow> suspicion_breakdown \<Rightarrow> cheat_row" where
  "cheat_row_of team_id bd =
    \<lparr> cr_band = bd_band bd, cr_total = bd_total bd,
      cr_counted = length (filter se_counted (bd_events bd)), cr_team_id = team_id \<rparr>"

definition rank_cheat_rows :: "cheat_row list \<Rightarrow> cheat_row list" where
  "rank_cheat_rows rows =
    sort_key (\<lambda>r. (- risk_band_rank (cr_band r), - cr_total r, - int (cr_counted r), cr_team_id r)) rows"

section \<open>Reference definition\<close>

text \<open>
  A row counts as an incident when it is trusted and its identity was not seen before; identities
  are the evidence keys, with one shared identity for all legacy rows. A rule scores its newest
  incidents up to its cap, and a tier the sum over its rules up to its ceiling.
\<close>

definition trusted :: "suspicion_event_row \<Rightarrow> bool" where
  "trusted e \<longleftrightarrow> \<not> is_quarantined_evidence_key (sv_evidence_key e)"

definition incident_identity :: "suspicion_event_row \<Rightarrow> string option" where
  "incident_identity e = (if row_is_legacy e then None else Some (sv_evidence_key e))"

fun distinct_incidents ::
  "string option set \<Rightarrow> suspicion_event_row list \<Rightarrow> suspicion_event_row list" where
  "distinct_incidents seen [] = []"
| "distinct_incidents seen (e # es) =
    (if incident_identity e \<in> seen then distinct_incidents seen es
     else e # distinct_incidents (insert (incident_identity e) seen) es)"

definition positive_deltas ::
  "(string \<Rightarrow> int) \<Rightarrow> string \<Rightarrow> suspicion_event_row list \<Rightarrow> int" where
  "positive_deltas weight rule es = (\<Sum>e\<leftarrow>es. max (row_delta weight rule e) 0)"

definition rule_score :: "(string \<Rightarrow> int) \<Rightarrow> suspicion_event_row list \<Rightarrow> string \<Rightarrow> int" where
  "rule_score weight events rule =
    positive_deltas weight rule
      (take (nat (code_cap rule)) (distinct_incidents {} (filter trusted (ordered_group events rule))))"

definition tier_score ::
  "(string \<Rightarrow> int) \<Rightarrow> suspicion_event_row list \<Rightarrow> suspicion_tier \<Rightarrow> int" where
  "tier_score weight events tier =
    min (tier_ceiling tier)
      (\<Sum>r \<in> {r \<in> sv_rule_code ` set events. code_tier r = tier}. rule_score weight events r)"

definition context_rules :: "suspicion_event_row list \<Rightarrow> string set" where
  "context_rules events =
    {r \<in> sv_rule_code ` set (filter trusted events). code_tier r = TierContext}"

section \<open>The loop over one rule\<close>

definition seen_identities :: "incident_state \<Rightarrow> string option set" where
  "seen_identities s = Some ` set (is_seen s) \<union> (if is_legacy_seen s then {None} else {})"

definition event_scores :: "suspicion_tier \<Rightarrow> int \<Rightarrow> suspicion_event_row \<Rightarrow> incident_state \<Rightarrow> bool" where
  "event_scores tier cap e s \<longleftrightarrow> tier \<noteq> TierContext \<and> trusted e
     \<and> incident_identity e \<notin> seen_identities s \<and> is_counted s < cap"

definition event_gain ::
  "(string \<Rightarrow> int) \<Rightarrow> string \<Rightarrow> suspicion_tier \<Rightarrow> int \<Rightarrow> suspicion_event_row \<Rightarrow> incident_state \<Rightarrow> int" where
  "event_gain weight rule tier cap e s =
    (if event_scores tier cap e s
     then max 0 (min (max (row_delta weight rule e) 0)
       (sat_sub_i64 (tier_ceiling tier) (is_subtotal s tier))) else 0)"

lemma tier_above_context: "TierContext < tier \<longleftrightarrow> tier \<noteq> TierContext"
  by (cases tier) (simp_all add: less_suspicion_tier_def)

lemma score_event_effect:
  "seen_identities (score_event weight rule tier cap e s) =
     (if trusted e then insert (incident_identity e) (seen_identities s) else seen_identities s)"
  "is_counted (score_event weight rule tier cap e s) =
     is_counted s + (if event_scores tier cap e s then 1 else 0)"
  "is_subtotal (score_event weight rule tier cap e s) =
     (is_subtotal s)(tier := is_subtotal s tier + event_gain weight rule tier cap e s)"
  "is_annotated (score_event weight rule tier cap e s) = is_annotated s @
     [\<lparr> se_rule_code = sv_rule_code e, se_details = sv_details e, se_time = sv_time e,
        se_score_delta = (if trusted e then row_delta weight rule e else 0),
        se_applied = event_gain weight rule tier cap e s, se_tier = tier,
        se_counted = (event_gain weight rule tier cap e s > 0) \<rparr>]"
  "is_newest_context (score_event weight rule tier cap e s) =
     (if tier = TierContext \<and> trusted e \<and> is_newest_context s = None
      then Some (length (is_annotated s)) else is_newest_context s)"
  by (auto simp: score_event_def Let_def trusted_def seen_identities_def incident_identity_def
      event_scores_def event_gain_def tier_above_context)

declare score_event_effect [simp]

lemma tier_ceiling_range: "0 \<le> tier_ceiling t" "tier_ceiling t \<le> i64_max"
  by (cases t; simp)+

lemma positive_deltas_simps [simp]:
  "positive_deltas weight rule [] = 0"
  "positive_deltas weight rule (e # es) = max (row_delta weight rule e) 0 + positive_deltas weight rule es"
  by (simp_all add: positive_deltas_def)

lemma positive_deltas_nonneg: "0 \<le> positive_deltas weight rule es"
  by (induction es) auto

lemma event_gain_exact:
  assumes "event_scores tier cap e s" "0 \<le> is_subtotal s tier" "is_subtotal s tier \<le> tier_ceiling tier"
  shows "is_subtotal s tier + event_gain weight rule tier cap e s
    = min (tier_ceiling tier) (is_subtotal s tier + max (row_delta weight rule e) 0)"
  using assms tier_ceiling_range [of tier] by (auto simp: event_gain_def sat_sub_i64_def)

lemma event_gain_nonneg: "0 \<le> event_gain weight rule tier cap e s"
  by (simp add: event_gain_def)

lemma min_absorb_gain: "0 \<le> (d :: int) \<Longrightarrow> min c (min c a + d) = min c (a + d)"
  by simp

text \<open>The subtotal after a rule's loop is the capped sum over the rule's fresh incidents.\<close>

lemma score_events_subtotal:
  assumes "0 \<le> is_subtotal s tier" "is_subtotal s tier \<le> tier_ceiling tier" "tier \<noteq> TierContext"
  shows "is_subtotal (fold (score_event weight rule tier cap) es s) =
    (is_subtotal s)(tier := min (tier_ceiling tier) (is_subtotal s tier
       + positive_deltas weight rule (take (nat (cap - is_counted s))
           (distinct_incidents (seen_identities s) (filter trusted es)))))"
  using assms
proof (induction es arbitrary: s)
  case Nil
  then show ?case by (auto simp: fun_eq_iff)
next
  case (Cons e es)
  let ?s = "score_event weight rule tier cap e s"
  have rng: "0 \<le> is_subtotal ?s tier" "is_subtotal ?s tier \<le> tier_ceiling tier"
    using Cons.prems event_gain_nonneg [of weight rule tier cap e s]
      event_gain_exact [of tier cap e s weight rule]
    by (auto simp: event_gain_def)
  note IH = Cons.IH [OF rng Cons.prems(3)]
  show ?case
  proof (cases "event_scores tier cap e s")
    case True
    then have "nat (cap - is_counted s) = Suc (nat (cap - (is_counted s + 1)))"
      "trusted e" "incident_identity e \<notin> seen_identities s"
      by (auto simp: event_scores_def)
    moreover let ?D = "positive_deltas weight rule (take (nat (cap - (is_counted s + 1)))
      (distinct_incidents (insert (incident_identity e) (seen_identities s)) (filter trusted es)))"
    have "min (tier_ceiling tier) (min (tier_ceiling tier) (is_subtotal s tier + max (row_delta weight rule e) 0) + ?D)
        = min (tier_ceiling tier) (is_subtotal s tier + max (row_delta weight rule e) 0 + ?D)"
      by (rule min_absorb_gain) (rule positive_deltas_nonneg)
    ultimately show ?thesis
      using True IH event_gain_exact [OF True Cons.prems(1,2), of weight rule]
      by (simp add: add.assoc fun_eq_iff)
  next
    case False
    then have "\<not> trusted e \<or> incident_identity e \<in> seen_identities s \<or> nat (cap - is_counted s) = 0"
      using Cons.prems(3) by (auto simp: event_scores_def)
    then show ?thesis using False IH by (auto simp: fun_eq_iff event_gain_def insert_absorb)
  qed
qed

lemma score_events_context_subtotal:
  "is_subtotal (fold (score_event weight rule TierContext cap) es s) = is_subtotal s"
  by (induction es arbitrary: s) (auto simp: event_gain_def event_scores_def)

text \<open>What a rule's loop appends: one annotation per row, whose gains add up to the change of the subtotal.\<close>

definition annotation_of :: "scored_event \<Rightarrow> string \<times> string \<times> int" where
  "annotation_of a = (se_rule_code a, se_details a, se_time a)"

definition row_annotation :: "suspicion_event_row \<Rightarrow> string \<times> string \<times> int" where
  "row_annotation e = (sv_rule_code e, sv_details e, sv_time e)"

definition applied_sum :: "scored_event list \<Rightarrow> int" where
  "applied_sum as = (\<Sum>a\<leftarrow>as. se_applied a)"

lemma applied_sum_simps [simp]:
  "applied_sum [] = 0"
  "applied_sum (a # as) = se_applied a + applied_sum as"
  "applied_sum (as @ bs) = applied_sum as + applied_sum bs"
  by (simp_all add: applied_sum_def)

definition well_counted :: "scored_event \<Rightarrow> bool" where
  "well_counted a \<longleftrightarrow> 0 \<le> se_applied a \<and> (se_counted a \<longleftrightarrow> se_applied a > 0)"

lemma score_events_annotated:
  obtains new where
    "is_annotated (fold (score_event weight rule tier cap) es s) = is_annotated s @ new"
    "map annotation_of new = map row_annotation es"
    "\<forall>a \<in> set new. well_counted a \<and> (tier = TierContext \<longrightarrow> se_applied a = 0)"
    "applied_sum new = is_subtotal (fold (score_event weight rule tier cap) es s) tier
       - is_subtotal s tier"
proof (induction es arbitrary: s thesis)
  case Nil
  then show ?case by simp
next
  case (Cons e es)
  let ?s = "score_event weight rule tier cap e s"
  obtain new where new: "is_annotated (fold (score_event weight rule tier cap) es ?s) = is_annotated ?s @ new"
    "map annotation_of new = map row_annotation es"
    "\<forall>a \<in> set new. well_counted a \<and> (tier = TierContext \<longrightarrow> se_applied a = 0)"
    "applied_sum new = is_subtotal (fold (score_event weight rule tier cap) es ?s) tier - is_subtotal ?s tier"
    using Cons.IH [of ?s] by metis
  obtain a where a: "is_annotated ?s = is_annotated s @ [a]" "annotation_of a = row_annotation e"
    "well_counted a" "tier = TierContext \<longrightarrow> se_applied a = 0"
    "se_applied a = event_gain weight rule tier cap e s"
    by (auto simp: annotation_of_def row_annotation_def well_counted_def event_gain_nonneg
        event_gain_def event_scores_def)
  show ?case
    by (rule Cons.prems [of "a # new"]) (use new a in auto)
qed

lemma score_events_newest:
  "is_newest_context (fold (score_event weight rule tier cap) es s) =
    (case is_newest_context s of Some i \<Rightarrow> Some i
     | None \<Rightarrow> if tier = TierContext \<and> (\<exists>e \<in> set es. trusted e)
       then Some (length (is_annotated s) + length (takeWhile (\<lambda>e. \<not> trusted e) es)) else None)"
proof (induction es arbitrary: s)
  case Nil
  then show ?case by (simp split: option.splits)
next
  case (Cons e es)
  show ?case by (auto simp: Cons.IH split: option.splits)
qed

lemma newest_index_bound:
  "\<exists>e \<in> set es. trusted e \<Longrightarrow> length (takeWhile (\<lambda>e. \<not> trusted e) es) < length es"
  by (induction es) auto

section \<open>The loop over the rules\<close>

definition empty_group_state :: group_state where
  "empty_group_state =
    \<lparr> gs_annotated = [], gs_subtotal = (\<lambda>_. 0), gs_context_seen = [], gs_candidates = [] \<rparr>"

definition run_groups ::
  "(string \<Rightarrow> int) \<Rightarrow> suspicion_event_row list \<Rightarrow> string list \<Rightarrow> group_state" where
  "run_groups weight events gs = fold (process_group weight events) gs empty_group_state"

lemma run_groups_snoc:
  "run_groups weight events (gs @ [r]) = process_group weight events r (run_groups weight events gs)"
  "run_groups weight events [] = empty_group_state"
  by (simp_all add: run_groups_def)

definition rule_loop ::
  "(string \<Rightarrow> int) \<Rightarrow> suspicion_event_row list \<Rightarrow> string \<Rightarrow> group_state \<Rightarrow> incident_state" where
  "rule_loop weight events r st =
    fold (score_event weight r (code_tier r) (code_cap r)) (ordered_group events r)
      \<lparr> is_seen = [], is_legacy_seen = False, is_counted = 0, is_newest_context = None,
        is_annotated = gs_annotated st, is_subtotal = gs_subtotal st \<rparr>"

lemma process_group_loop:
  "gs_annotated (process_group weight events r st) = is_annotated (rule_loop weight events r st)"
  "gs_subtotal (process_group weight events r st) = is_subtotal (rule_loop weight events r st)"
  by (auto simp: process_group_def rule_loop_def Let_def split: option.splits)

lemma process_group_subtotal:
  assumes "\<And>t. 0 \<le> gs_subtotal st t" "\<And>t. gs_subtotal st t \<le> tier_ceiling t"
  shows "gs_subtotal (process_group weight events r st) =
    (if code_tier r = TierContext then gs_subtotal st
     else (gs_subtotal st)(code_tier r :=
       min (tier_ceiling (code_tier r)) (gs_subtotal st (code_tier r) + rule_score weight events r)))"
  using assms score_events_subtotal [of _ "code_tier r" weight r "code_cap r" "ordered_group events r"]
  by (simp add: process_group_loop rule_loop_def score_events_context_subtotal rule_score_def
      seen_identities_def)

lemma rule_score_nonneg: "0 \<le> rule_score weight events r"
  by (simp add: rule_score_def positive_deltas_nonneg)

lemma run_groups_subtotal:
  "distinct gs \<Longrightarrow> gs_subtotal (run_groups weight events gs) t =
    (if t = TierContext then 0
     else min (tier_ceiling t) (\<Sum>r \<in> {r \<in> set gs. code_tier r = t}. rule_score weight events r))"
proof (induction gs arbitrary: t rule: rev_induct)
  case Nil
  then show ?case using tier_ceiling_range [of t] by (simp add: run_groups_snoc empty_group_state_def)
next
  case (snoc r gs)
  let ?st = "run_groups weight events gs"
  let ?S = "\<lambda>t. \<Sum>r \<in> {r \<in> set gs. code_tier r = t}. rule_score weight events r"
  have IH: "gs_subtotal ?st t = (if t = TierContext then 0 else min (tier_ceiling t) (?S t))" for t
    using snoc by simp
  have S: "0 \<le> ?S t" for t by (rule sum_nonneg) (rule rule_score_nonneg)
  have rng: "0 \<le> gs_subtotal ?st t" "gs_subtotal ?st t \<le> tier_ceiling t" for t
    using IH [of t] S [of t] tier_ceiling_range [of t] by auto
  have set: "{q \<in> set (gs @ [r]). code_tier q = t} =
      (if code_tier r = t then insert r {q \<in> set gs. code_tier q = t} else {q \<in> set gs. code_tier q = t})"
    by auto
  have "r \<notin> set gs" using snoc.prems by simp
  then have "(\<Sum>q \<in> {q \<in> set (gs @ [r]). code_tier q = t}. rule_score weight events q) =
      ?S t + (if code_tier r = t then rule_score weight events r else 0)"
    unfolding set by simp
  then show ?case
    using rule_score_nonneg [of weight events r] S [of t]
    by (auto simp: run_groups_snoc process_group_subtotal [OF rng] IH min_absorb_gain)
qed

text \<open>Annotations: one per row of the processed rules, whose gains are exactly the subtotals.\<close>

lemma rule_loop_annotated:
  obtains new where "gs_annotated (process_group weight events r st) = gs_annotated st @ new"
    "map annotation_of new = map row_annotation (ordered_group events r)"
    "\<forall>a \<in> set new. well_counted a \<and> (code_tier r = TierContext \<longrightarrow> se_applied a = 0)"
    "applied_sum new = gs_subtotal (process_group weight events r st) (code_tier r)
       - gs_subtotal st (code_tier r)"
  unfolding process_group_loop rule_loop_def
  using score_events_annotated [of weight r "code_tier r" "code_cap r" "ordered_group events r"
      "\<lparr> is_seen = [], is_legacy_seen = False, is_counted = 0, is_newest_context = None,
        is_annotated = gs_annotated st, is_subtotal = gs_subtotal st \<rparr>"]
  by (metis incident_state.select_convs(5,6))

lemma process_group_other_tiers:
  "t \<noteq> code_tier r \<Longrightarrow> gs_subtotal (process_group weight events r st) t = gs_subtotal st t"
proof -
  have "t \<noteq> tier \<Longrightarrow> is_subtotal (fold (score_event weight r tier cap) es s) t = is_subtotal s t" for tier cap es s
    by (induction es arbitrary: s) auto
  then show "t \<noteq> code_tier r \<Longrightarrow> ?thesis" by (simp add: process_group_loop rule_loop_def)
qed

lemma ordered_group_mset:
  "mset (ordered_group events r) = mset (filter (\<lambda>e. sv_rule_code e = r) events)"
  by (simp add: ordered_group_def)

lemma run_groups_annotated:
  assumes "distinct gs"
  shows "(\<forall>a \<in> set (gs_annotated (run_groups weight events gs)). well_counted a)
    \<and> applied_sum (gs_annotated (run_groups weight events gs)) =
        (\<Sum>t \<in> {TierHard, TierStrong, TierBehavioral}. gs_subtotal (run_groups weight events gs) t)
    \<and> mset (map annotation_of (gs_annotated (run_groups weight events gs))) =
        image_mset row_annotation (mset (filter (\<lambda>e. sv_rule_code e \<in> set gs) events))"
  using assms
proof (induction gs rule: rev_induct)
  case Nil
  then show ?case by (simp add: run_groups_snoc empty_group_state_def)
next
  case (snoc r gs)
  let ?st = "run_groups weight events gs"
  obtain new where new: "gs_annotated (process_group weight events r ?st) = gs_annotated ?st @ new"
    "map annotation_of new = map row_annotation (ordered_group events r)"
    "\<forall>a \<in> set new. well_counted a \<and> (code_tier r = TierContext \<longrightarrow> se_applied a = 0)"
    "applied_sum new = gs_subtotal (process_group weight events r ?st) (code_tier r) - gs_subtotal ?st (code_tier r)"
    by (rule rule_loop_annotated)
  have "gs_subtotal (run_groups weight events (gs @ [r])) TierContext = 0" "gs_subtotal ?st TierContext = 0"
    using run_groups_subtotal snoc.prems by (metis, metis distinct_append)
  then have sums: "applied_sum (gs_annotated ?st @ new) = (\<Sum>t \<in> {TierHard, TierStrong, TierBehavioral}.
      gs_subtotal (process_group weight events r ?st) t)"
    using snoc new(4) process_group_other_tiers [of _ r weight events ?st]
    by (cases "code_tier r") (auto simp: run_groups_snoc)
  have "r \<notin> set gs" using snoc.prems by simp
  then have split: "mset (filter (\<lambda>e. sv_rule_code e \<in> set (gs @ [r])) events) =
      mset (filter (\<lambda>e. sv_rule_code e \<in> set gs) events) + mset (ordered_group events r)"
    unfolding ordered_group_mset by (induction events) auto
  have "mset (map annotation_of new) = image_mset row_annotation (mset (ordered_group events r))"
    unfolding new(2) by simp
  then show ?case
    using snoc new(3) sums unfolding split run_groups_snoc new(1) by auto
qed

text \<open>Context rules: those with a trusted row become candidates, each pointing at an unscored annotation.\<close>

definition cand_code :: "int \<times> string \<times> nat \<times> int \<Rightarrow> string" where
  "cand_code c = (case c of (_, code, _, _) \<Rightarrow> code)"

definition cand_index :: "int \<times> string \<times> nat \<times> int \<Rightarrow> nat" where
  "cand_index c = (case c of (_, _, i, _) \<Rightarrow> i)"

definition cand_unit :: "int \<times> string \<times> nat \<times> int \<Rightarrow> int" where
  "cand_unit c = (case c of (_, _, _, u) \<Rightarrow> u)"

lemma cand_simps [simp]:
  "cand_code (time, code, i, u) = code" "cand_index (time, code, i, u) = i"
  "cand_unit (time, code, i, u) = u"
  by (simp_all add: cand_code_def cand_index_def cand_unit_def)

definition candidates_ok :: "scored_event list \<Rightarrow> (int \<times> string \<times> nat \<times> int) list \<Rightarrow> bool" where
  "candidates_ok annotated cs \<longleftrightarrow> distinct (map cand_index cs)
     \<and> (\<forall>c \<in> set cs. cand_index c < length annotated \<and> se_applied (annotated ! cand_index c) = 0
          \<and> 0 < cand_unit c)"

lemma rule_loop_newest:
  "is_newest_context (rule_loop weight events r st) =
    (if r \<in> context_rules events
     then Some (length (gs_annotated st) + length (takeWhile (\<lambda>e. \<not> trusted e) (ordered_group events r)))
     else None)"
proof -
  have "(\<exists>e \<in> set (ordered_group events r). trusted e) \<longleftrightarrow> r \<in> sv_rule_code ` set (filter trusted events)"
    by (auto simp: ordered_group_def)
  then show ?thesis
    by (auto simp: rule_loop_def score_events_newest context_rules_def)
qed

lemma process_group_unfold:
  "process_group weight events r st =
    (let s = rule_loop weight events r st;
         st1 = st \<lparr> gs_annotated := is_annotated s, gs_subtotal := is_subtotal s \<rparr>
     in if code_tier r = TierContext then
          (case is_newest_context s of
             Some i \<Rightarrow>
               if r \<notin> set (gs_context_seen st) then
                 if code_unit r > 0
                 then st1 \<lparr> gs_context_seen := r # gs_context_seen st,
                       gs_candidates := gs_candidates st @ [(se_time (is_annotated s ! i), r, i, code_unit r)] \<rparr>
                 else st1 \<lparr> gs_context_seen := r # gs_context_seen st \<rparr>
               else st1
           | None \<Rightarrow> st1)
        else st1)"
  by (simp add: process_group_def rule_loop_def Let_def cong: option.case_cong if_cong)

lemma process_group_context:
  assumes "r \<notin> set (gs_context_seen st)"
  shows "gs_context_seen (process_group weight events r st) =
      (if r \<in> context_rules events then r # gs_context_seen st else gs_context_seen st)"
    and "\<exists>time. gs_candidates (process_group weight events r st) = gs_candidates st @
      (if r \<in> context_rules events \<and> 0 < code_unit r
       then [(time, r, length (gs_annotated st)
                + length (takeWhile (\<lambda>e. \<not> trusted e) (ordered_group events r)), code_unit r)] else [])"
proof -
  have "r \<in> context_rules events \<Longrightarrow> code_tier r = TierContext" by (simp add: context_rules_def)
  then show "gs_context_seen (process_group weight events r st) =
      (if r \<in> context_rules events then r # gs_context_seen st else gs_context_seen st)"
    and "\<exists>time. gs_candidates (process_group weight events r st) = gs_candidates st @
      (if r \<in> context_rules events \<and> 0 < code_unit r
       then [(time, r, length (gs_annotated st)
                + length (takeWhile (\<lambda>e. \<not> trusted e) (ordered_group events r)), code_unit r)] else [])"
    using assms rule_loop_newest [of weight events r st]
    by (auto simp: process_group_unfold Let_def)
qed

lemma context_group_index:
  fixes st :: group_state
  assumes "r \<in> context_rules events"
  defines "i \<equiv> length (gs_annotated st) + length (takeWhile (\<lambda>e. \<not> trusted e) (ordered_group events r))"
  shows "i < length (gs_annotated (process_group weight events r st))
    \<and> se_applied (gs_annotated (process_group weight events r st) ! i) = 0"
proof -
  obtain new where new: "gs_annotated (process_group weight events r st) = gs_annotated st @ new"
    "map annotation_of new = map row_annotation (ordered_group events r)"
    "\<forall>a \<in> set new. well_counted a \<and> (code_tier r = TierContext \<longrightarrow> se_applied a = 0)"
    by (rule rule_loop_annotated)
  have tier: "code_tier r = TierContext" and "\<exists>e \<in> set (ordered_group events r). trusted e"
    using assms(1) by (auto simp: context_rules_def ordered_group_def)
  then have "length (takeWhile (\<lambda>e. \<not> trusted e) (ordered_group events r)) < length new"
    using newest_index_bound map_eq_imp_length_eq [OF new(2)] by metis
  with new(1,3) tier show ?thesis unfolding i_def by (simp add: nth_append)
qed

lemma candidates_ok_extend:
  assumes "candidates_ok as cs"
  shows "candidates_ok (as @ new) cs"
  using assms by (auto simp: candidates_ok_def nth_append)

lemma run_groups_context:
  assumes "distinct gs"
  shows "set (gs_context_seen (run_groups weight events gs)) = set gs \<inter> context_rules events
    \<and> candidates_ok (gs_annotated (run_groups weight events gs)) (gs_candidates (run_groups weight events gs))
    \<and> sum_list (map cand_unit (gs_candidates (run_groups weight events gs))) =
        (\<Sum>r \<in> set gs \<inter> context_rules events. code_unit r)"
  using assms
proof (induction gs rule: rev_induct)
  case Nil
  then show ?case by (simp add: run_groups_snoc empty_group_state_def candidates_ok_def)
next
  case (snoc r gs)
  let ?st = "run_groups weight events gs"
  let ?i = "length (gs_annotated ?st) + length (takeWhile (\<lambda>e. \<not> trusted e) (ordered_group events r))"
  have IH: "set (gs_context_seen ?st) = set gs \<inter> context_rules events"
    "candidates_ok (gs_annotated ?st) (gs_candidates ?st)"
    "sum_list (map cand_unit (gs_candidates ?st)) = (\<Sum>r \<in> set gs \<inter> context_rules events. code_unit r)"
    using snoc by simp_all
  have r: "r \<notin> set gs" "r \<notin> set (gs_context_seen ?st)" using snoc.prems IH(1) by auto
  obtain new where ann: "gs_annotated (process_group weight events r ?st) = gs_annotated ?st @ new"
    by (rule rule_loop_annotated)
  obtain time where cands: "gs_candidates (process_group weight events r ?st) = gs_candidates ?st @
      (if r \<in> context_rules events \<and> 0 < code_unit r then [(time, r, ?i, code_unit r)] else [])"
    using process_group_context(2) [OF r(2)] by blast
  have unit: "0 \<le> code_unit r"
    using corroboration_unit_nonneg by (simp add: code_unit_def split: option.splits)
  have ok: "candidates_ok (gs_annotated (process_group weight events r ?st))
      (gs_candidates (process_group weight events r ?st))"
  proof (cases "r \<in> context_rules events \<and> 0 < code_unit r")
    case True
    have fresh: "?i \<notin> cand_index ` set (gs_candidates ?st)"
      using IH(2) by (auto simp: candidates_ok_def)
    have old: "candidates_ok (gs_annotated (process_group weight events r ?st)) (gs_candidates ?st)"
      unfolding ann by (rule candidates_ok_extend [OF IH(2)])
    show ?thesis
      using True fresh old context_group_index [of r events ?st weight]
      by (auto simp: cands candidates_ok_def)
  next
    case False
    then show ?thesis unfolding cands ann using candidates_ok_extend [OF IH(2)] by auto
  qed
  have set: "set (gs @ [r]) \<inter> context_rules events =
      (if r \<in> context_rules events then insert r (set gs \<inter> context_rules events)
       else set gs \<inter> context_rules events)" by auto
  have sums: "sum_list (map cand_unit (gs_candidates (process_group weight events r ?st))) =
      (\<Sum>r \<in> set (gs @ [r]) \<inter> context_rules events. code_unit r)"
    unfolding set using IH(3) r(1) unit by (auto simp: cands)
  show ?case
    unfolding run_groups_snoc using ok sums IH(1) set
    by (simp add: process_group_context(1) [OF r(2)])
qed

section \<open>Handing out the corroboration\<close>

lemma applied_sum_update:
  "i < length as \<Longrightarrow> se_applied (as ! i) = 0 \<Longrightarrow>
     applied_sum (as[i := (as ! i) \<lparr> se_applied := v, se_counted := c \<rparr>]) = applied_sum as + v"
proof (induction as arbitrary: i)
  case (Cons a as)
  then show ?case by (cases i) auto
qed simp

lemma annotations_update:
  "map annotation_of (as[i := (as ! i) \<lparr> se_applied := v, se_counted := c \<rparr>]) = map annotation_of as"
proof (cases "i < length as")
  case True
  then show ?thesis by (simp add: map_update annotation_of_def list_update_same_conv)
qed (simp add: list_update_beyond)

lemma candidates_ok_Cons:
  assumes "candidates_ok as (c # cs)"
  shows "candidates_ok (as[cand_index c := x]) cs" "candidates_ok as cs"
  using assms by (auto simp: candidates_ok_def nth_list_update)

lemma allocate_one:
  "allocate_corroboration (time, code, i, u) (as, given, budget) =
    (if min u budget = 0 then (as, given, budget)
     else (as[i := (as ! i) \<lparr> se_applied := min u budget, se_counted := True \<rparr>],
           given + min u budget, budget - min u budget))"
  by (simp add: allocate_corroboration_def Let_def)

lemma allocate_all:
  assumes "candidates_ok as cs" "0 \<le> budget" "\<forall>a \<in> set as. well_counted a"
  obtains as' where "fold allocate_corroboration cs (as, given, budget) =
      (as', given + min budget (sum_list (map cand_unit cs)),
       budget - min budget (sum_list (map cand_unit cs)))"
    "applied_sum as' = applied_sum as + min budget (sum_list (map cand_unit cs))"
    "\<forall>a \<in> set as'. well_counted a" "map annotation_of as' = map annotation_of as"
  using assms
proof (induction cs arbitrary: as given budget thesis)
  case Nil
  then show ?case by simp
next
  case (Cons c cs)
  obtain time code i u where c: "c = (time, code, i, u)" by (cases c)
  have ci: "i < length as" "se_applied (as ! i) = 0" "0 < u"
    using Cons.prems(2) by (auto simp: c candidates_ok_def)
  have pos: "0 \<le> sum_list (map cand_unit cs)"
    using Cons.prems(2) by (intro sum_list_nonneg) (auto simp: candidates_ok_def)
  let ?v = "min u budget"
  let ?as = "as[i := (as ! i) \<lparr> se_applied := ?v, se_counted := True \<rparr>]"
  show ?case
  proof (cases "?v = 0")
    case True
    then have b: "budget = 0" using ci(3) Cons.prems(3) by (auto simp: min_def split: if_splits)
    from Cons.IH [OF _ candidates_ok_Cons(2) [OF Cons.prems(2)] Cons.prems(3,4), of given]
    obtain as' where "fold allocate_corroboration cs (as, given, budget) =
        (as', given + min budget (sum_list (map cand_unit cs)), budget - min budget (sum_list (map cand_unit cs)))"
      "applied_sum as' = applied_sum as + min budget (sum_list (map cand_unit cs))"
      "\<forall>a \<in> set as'. well_counted a" "map annotation_of as' = map annotation_of as" by blast
    with b pos ci(3) show ?thesis
      by (intro Cons.prems(1) [of as']) (auto simp: c allocate_one)
  next
    case False
    have v: "0 < ?v" using False ci(3) Cons.prems(3) by auto
    have ok: "candidates_ok ?as cs"
      using candidates_ok_Cons(1) [OF Cons.prems(2)] by (simp add: c)
    have wc: "\<forall>a \<in> set ?as. well_counted a"
      using Cons.prems(4) v by (auto dest!: set_update_subset_insert [THEN subsetD] simp: well_counted_def)
    have "0 \<le> budget - ?v" by simp
    from Cons.IH [OF _ ok this wc, of "given + ?v"] obtain as' where
      as': "fold allocate_corroboration cs (?as, given + ?v, budget - ?v) =
        (as', given + ?v + min (budget - ?v) (sum_list (map cand_unit cs)),
         budget - ?v - min (budget - ?v) (sum_list (map cand_unit cs)))"
      "applied_sum as' = applied_sum ?as + min (budget - ?v) (sum_list (map cand_unit cs))"
      "\<forall>a \<in> set as'. well_counted a" "map annotation_of as' = map annotation_of ?as" by blast
    have m: "?v + min (budget - ?v) (sum_list (map cand_unit cs)) =
        min budget (sum_list (map cand_unit (c # cs)))"
      using pos ci(3) by (auto simp: c min_def)
    show ?thesis
      by (rule Cons.prems(1) [of as'])
        (use as' m False applied_sum_update [OF ci(1,2)] annotations_update in
          \<open>auto simp: c allocate_one\<close>)
  qed
qed

section \<open>The breakdown\<close>

lemma rule_groups_snoc:
  "rule_groups (es @ [e]) = (if sv_rule_code e \<in> set (rule_groups es) then rule_groups es
     else rule_groups es @ [sv_rule_code e])"
  by (simp add: rule_groups_def)

lemma rule_groups_set: "set (rule_groups events) = sv_rule_code ` set events \<and> distinct (rule_groups events)"
proof (induction events rule: rev_induct)
  case Nil
  show ?case by (simp add: rule_groups_def)
next
  case (snoc e es)
  then show ?case by (auto simp: rule_groups_snoc)
qed

lemma candidates_ok_sort: "candidates_ok as cs \<Longrightarrow> candidates_ok as (sort_key k cs)"
proof -
  have "mset (map cand_index (sort_key k cs)) = mset (map cand_index cs)" by simp
  then have "distinct (map cand_index (sort_key k cs)) \<longleftrightarrow> distinct (map cand_index cs)"
    by (rule mset_eq_imp_distinct_iff)
  then show "candidates_ok as cs \<Longrightarrow> ?thesis" by (simp add: candidates_ok_def)
qed

lemma sum_units_sort: "sum_list (map cand_unit (sort_key k cs)) = sum_list (map cand_unit cs)"
proof -
  have "mset (map cand_unit (sort_key k cs)) = mset (map cand_unit cs)" by simp
  then show ?thesis by (metis sum_mset_sum_list)
qed

definition corroboration_score :: "(string \<Rightarrow> int) \<Rightarrow> suspicion_event_row list \<Rightarrow> int" where
  "corroboration_score weight events =
    min (tier_score weight events TierHard div 2) (\<Sum>r \<in> context_rules events. code_unit r)"

lemma run_all_subtotal:
  "t \<noteq> TierContext \<Longrightarrow>
    gs_subtotal (run_groups weight events (rule_groups events)) t = tier_score weight events t"
  using rule_groups_set [of events] by (simp add: run_groups_subtotal tier_score_def)

lemma tier_score_range: "0 \<le> tier_score weight events t" "tier_score weight events t \<le> tier_ceiling t"
  using tier_ceiling_range [of t] by (auto simp: tier_score_def intro: sum_nonneg rule_score_nonneg)

lemma context_rules_inter: "set (rule_groups events) \<inter> context_rules events = context_rules events"
  using rule_groups_set [of events] by (auto simp: context_rules_def)

lemma compute_breakdown_reference:
  obtains as where "compute_breakdown events weight =
    (let hard = tier_score weight events TierHard; strong = tier_score weight events TierStrong;
         behavioral = tier_score weight events TierBehavioral;
         corroboration = corroboration_score weight events
     in \<lparr> bd_hard = hard, bd_strong = strong, bd_behavioral = behavioral, bd_corroboration = corroboration,
          bd_total = sat_add_i64 (sat_add_i64 (sat_add_i64 hard corroboration) strong) behavioral,
          bd_band = (if hard > 0 then BandEvidenced else if strong > 0 then BandInvestigate
             else if behavioral > 0 then BandWatch
             else if context_rules events \<noteq> {} then BandContext else BandClean),
          bd_events = as \<rparr>)"
    "applied_sum as = tier_score weight events TierHard + tier_score weight events TierStrong
       + tier_score weight events TierBehavioral + corroboration_score weight events"
    "\<forall>a \<in> set as. well_counted a"
    "mset (map annotation_of as) = mset (map row_annotation events)"
proof -
  let ?st = "run_groups weight events (rule_groups events)"
  let ?key = "\<lambda>(time :: int, code :: string, _ :: nat, _ :: int). (- time, code)"
  let ?cs = "sort_key ?key (gs_candidates ?st)"
  have dist: "distinct (rule_groups events)" using rule_groups_set by blast
  note ctx = run_groups_context [OF dist, of weight events, unfolded context_rules_inter]
  note ann = run_groups_annotated [OF dist, of weight events]
  have budget: "0 \<le> tier_score weight events TierHard div 2"
    using tier_score_range(1) [of weight events TierHard] by simp
  obtain as where as: "fold allocate_corroboration ?cs (gs_annotated ?st, 0, tier_score weight events TierHard div 2) =
      (as, 0 + min (tier_score weight events TierHard div 2) (sum_list (map cand_unit ?cs)),
       tier_score weight events TierHard div 2
         - min (tier_score weight events TierHard div 2) (sum_list (map cand_unit ?cs)))"
    "applied_sum as = applied_sum (gs_annotated ?st)
       + min (tier_score weight events TierHard div 2) (sum_list (map cand_unit ?cs))"
    "\<forall>a \<in> set as. well_counted a" "map annotation_of as = map annotation_of (gs_annotated ?st)"
    using allocate_all [OF candidates_ok_sort [of _ _ ?key] budget, of "gs_annotated ?st" "gs_candidates ?st" 0] ctx ann
    by blast
  have units: "sum_list (map cand_unit ?cs) = (\<Sum>r \<in> context_rules events. code_unit r)"
    using ctx sum_units_sort by metis
  have all: "filter (\<lambda>e. sv_rule_code e \<in> set (rule_groups events)) events = events"
    using rule_groups_set [of events] by (simp add: filter_id_conv)
  show ?thesis
  proof (rule that [of as])
    show "compute_breakdown events weight =
      (let hard = tier_score weight events TierHard; strong = tier_score weight events TierStrong;
           behavioral = tier_score weight events TierBehavioral;
           corroboration = corroboration_score weight events
       in \<lparr> bd_hard = hard, bd_strong = strong, bd_behavioral = behavioral, bd_corroboration = corroboration,
            bd_total = sat_add_i64 (sat_add_i64 (sat_add_i64 hard corroboration) strong) behavioral,
            bd_band = (if hard > 0 then BandEvidenced else if strong > 0 then BandInvestigate
               else if behavioral > 0 then BandWatch
               else if context_rules events \<noteq> {} then BandContext else BandClean),
            bd_events = as \<rparr>)"
      using as(1) units ctx
      unfolding compute_breakdown_def corroboration_score_def Let_def
        empty_group_state_def [symmetric] run_groups_def [symmetric]
      by (auto simp: run_all_subtotal)
    show "applied_sum as = tier_score weight events TierHard + tier_score weight events TierStrong
       + tier_score weight events TierBehavioral + corroboration_score weight events"
      using as(2) ann by (simp add: run_all_subtotal units corroboration_score_def)
    show "\<forall>a \<in> set as. well_counted a" by (rule as(3))
    show "mset (map annotation_of as) = mset (map row_annotation events)"
      using as(4) ann all by simp
  qed
qed

section \<open>Bounds and quarantine\<close>

lemma take_sum_bound:
  "\<forall>e \<in> set es. row_delta weight r e \<le> m \<Longrightarrow> 0 \<le> m \<Longrightarrow>
     positive_deltas weight r (take n es) \<le> int n * m"
proof (induction es arbitrary: n)
  case (Cons e es)
  then show ?case
  proof (cases n)
    case (Suc k)
    have "positive_deltas weight r (take k es) \<le> int k * m" using Cons by simp
    moreover have "max (row_delta weight r e) 0 \<le> m" using Cons.prems by simp
    ultimately have "max (row_delta weight r e) 0 + positive_deltas weight r (take k es) \<le> m + int k * m"
      by (rule add_mono [rotated])
    then show ?thesis by (simp add: Suc algebra_simps)
  qed simp
qed simp

lemma distinct_incidents_subset: "set (distinct_incidents seen es) \<subseteq> set es"
  by (induction es arbitrary: seen) auto

text \<open>The deltas and weights of the source are \<open>i32\<close> values.\<close>

definition deltas_i32 :: "(string \<Rightarrow> int) \<Rightarrow> suspicion_event_row list \<Rightarrow> bool" where
  "deltas_i32 weight events \<longleftrightarrow> (\<forall>e \<in> set events. row_delta weight (sv_rule_code e) e \<le> i32_max)"

lemma code_cap_le: "code_cap r \<le> 10"
  using max_incidents_pos(2) by (simp add: code_cap_def split: option.splits)

lemma rule_score_bound:
  assumes "deltas_i32 weight events"
  shows "rule_score weight events r \<le> 10 * i32_max"
proof -
  have "\<forall>e \<in> set (distinct_incidents {} (filter trusted (ordered_group events r))). row_delta weight r e \<le> i32_max"
    using assms distinct_incidents_subset [of "{}" "filter trusted (ordered_group events r)"]
    by (fastforce simp: deltas_i32_def ordered_group_def)
  from take_sum_bound [OF this, of "nat (code_cap r)"]
  have "rule_score weight events r \<le> int (nat (code_cap r)) * i32_max" by (simp add: rule_score_def)
  also have "\<dots> \<le> 10 * i32_max" using code_cap_le [of r] by simp
  finally show ?thesis .
qed

lemma hard_rules: "code_tier r = TierHard \<Longrightarrow>
    r \<in> suspicion_code ` {StolenFlag, CrossTeamContainerAccess, WrongFlagLeakage, TokenAbuse, HoneypotCanaryFlag}"
proof -
  assume hard: "code_tier r = TierHard"
  then obtain ty where ty: "suspicion_from_code r = Some ty" "rule_tier ty = TierHard"
    by (auto simp: code_tier_def split: option.splits)
  then have "suspicion_code ty = r" by (simp add: suspicion_from_code_iff)
  moreover have "ty \<in> {StolenFlag, CrossTeamContainerAccess, WrongFlagLeakage, TokenAbuse, HoneypotCanaryFlag}"
    using ty(2) by (auto simp: rule_tier_def split: if_splits)
  ultimately show ?thesis by blast
qed

lemma hard_score_bound:
  assumes "deltas_i32 weight events"
  shows "tier_score weight events TierHard \<le> 50 * i32_max"
proof -
  let ?R = "{r \<in> sv_rule_code ` set events. code_tier r = TierHard}"
  let ?H = "suspicion_code ` {StolenFlag, CrossTeamContainerAccess, WrongFlagLeakage, TokenAbuse, HoneypotCanaryFlag}"
  have "?R \<subseteq> ?H" using hard_rules by blast
  moreover have "card ?H \<le> 5"
    by (rule order_trans [OF card_image_le]) (simp_all add: card_insert_if)
  ultimately have card: "card ?R \<le> 5" using card_mono [of ?H ?R] by fastforce
  have "(\<Sum>r \<in> ?R. rule_score weight events r) \<le> of_nat (card ?R) * (10 * i32_max)"
    by (rule sum_bounded_above) (rule rule_score_bound [OF assms])
  also have "\<dots> \<le> 5 * (10 * i32_max)" using card by simp
  finally show ?thesis by (simp add: tier_score_def)
qed

lemma corroboration_range:
  "0 \<le> corroboration_score weight events"
  "corroboration_score weight events \<le> tier_score weight events TierHard div 2"
  using tier_score_range(1) [of weight events TierHard] corroboration_unit_nonneg
  by (auto simp: corroboration_score_def code_unit_def intro!: sum_nonneg split: option.splits)

lemma total_exact:
  assumes "deltas_i32 weight events"
  shows "sat_add_i64 (sat_add_i64 (sat_add_i64 (tier_score weight events TierHard)
      (corroboration_score weight events)) (tier_score weight events TierStrong))
      (tier_score weight events TierBehavioral)
    = tier_score weight events TierHard + corroboration_score weight events
      + tier_score weight events TierStrong + tier_score weight events TierBehavioral"
  using hard_score_bound [OF assms] corroboration_range [of weight events]
    tier_score_range [of weight events TierHard] tier_score_range [of weight events TierStrong]
    tier_score_range [of weight events TierBehavioral]
  by simp

lemma rule_score_trusted: "rule_score weight (filter trusted events) r = rule_score weight events r"
proof -
  have "ordered_group (filter trusted events) r = filter trusted (ordered_group events r)"
    by (simp add: ordered_group_def filter_sort conj_commute)
  then show ?thesis by (simp add: rule_score_def)
qed

lemma rule_score_untrusted:
  assumes "r \<notin> sv_rule_code ` set (filter trusted events)"
  shows "rule_score weight events r = 0"
proof -
  have "filter trusted (ordered_group events r) = []"
    using assms by (auto simp: ordered_group_def filter_empty_conv)
  then show ?thesis by (simp add: rule_score_def)
qed

lemma tier_score_trusted: "tier_score weight (filter trusted events) t = tier_score weight events t"
proof -
  have "(\<Sum>r \<in> {r \<in> sv_rule_code ` set (filter trusted events). code_tier r = t}. rule_score weight events r)
      = (\<Sum>r \<in> {r \<in> sv_rule_code ` set events. code_tier r = t}. rule_score weight events r)"
    by (rule sum.mono_neutral_left) (auto intro!: rule_score_untrusted)
  then show ?thesis by (simp add: tier_score_def rule_score_trusted)
qed

lemma context_rules_trusted: "context_rules (filter trusted events) = context_rules events"
  by (simp add: context_rules_def)

section \<open>What the report relies on\<close>

text \<open>
  The contract of an aggregation towards the cheat report: the headline band is the top one exactly
  when there is hard evidence. Ranking is proved against it.
\<close>

locale risk_assessment =
  fixes assess :: "'e \<Rightarrow> suspicion_breakdown"
  assumes evidenced: "bd_band (assess e) = BandEvidenced \<longleftrightarrow> bd_hard (assess e) > 0"
begin

lemma ranked_evidenced_first:
  "takeWhile (\<lambda>r. cr_band r = BandEvidenced) (rank_cheat_rows (map (\<lambda>(team, e). cheat_row_of team (assess e)) teams))
   = rank_cheat_rows (map (\<lambda>(team, e). cheat_row_of team (assess e))
       (filter (\<lambda>(team, e). bd_hard (assess e) > 0) teams))"
proof -
  let ?key = "\<lambda>r. (- risk_band_rank (cr_band r), - cr_total r, - int (cr_counted r), cr_team_id r)"
  let ?ev = "\<lambda>r. cr_band r = BandEvidenced"
  let ?row = "\<lambda>(team, e). cheat_row_of team (assess e)"
  have prefix: "takeWhile ?ev rs = filter ?ev rs" if "sorted (map ?key rs)" for rs
    using that
  proof (induction rs)
    case (Cons r rs)
    have "filter ?ev rs = []" if "\<not> ?ev r"
    proof -
      have "risk_band_rank (cr_band r) \<le> 3" using that by (cases "cr_band r") auto
      moreover have "\<forall>q \<in> set rs. risk_band_rank (cr_band q) \<le> risk_band_rank (cr_band r)"
        using Cons.prems by (auto simp: less_eq_prod_def)
      ultimately show ?thesis by (force simp: filter_empty_conv)
    qed
    with Cons show ?case by auto
  qed simp
  have "filter ?ev (map ?row teams) = map ?row (filter (\<lambda>(team, e). bd_hard (assess e) > 0) teams)"
    by (induction teams) (auto simp: cheat_row_of_def evidenced)
  then show ?thesis
    unfolding rank_cheat_rows_def by (simp add: prefix filter_sort)
qed

end

interpretation breakdown: risk_assessment "\<lambda>events. compute_breakdown events weight" for weight
proof
  fix events
  show "bd_band (compute_breakdown events weight) = BandEvidenced
      \<longleftrightarrow> bd_hard (compute_breakdown events weight) > 0"
    by (rule compute_breakdown_reference [of events weight]) (simp add: Let_def)
qed

section \<open>The projection\<close>

definition stored_row :: "stored_event \<Rightarrow> suspicion_event_row" where
  "stored_row e =
    (case suspicion_from_kind (st_kind e) of
       None \<Rightarrow> \<lparr> sv_rule_code = [], sv_evidence_key = [], sv_details = [], sv_time = 0, sv_score_delta = None \<rparr>
     | Some ty \<Rightarrow> \<lparr> sv_rule_code = suspicion_code ty, sv_evidence_key = st_evidence_key e,
                   sv_details = snd (default_entry ty), sv_time = st_created_at e,
                   sv_score_delta = Some (st_score_delta e) \<rparr>)"

definition known_kind :: "stored_event \<Rightarrow> bool" where
  "known_kind e \<longleftrightarrow> suspicion_from_kind (st_kind e) \<noteq> None"

lemma event_of_stored_known:
  "known_kind e \<Longrightarrow> event_of_stored pid e = Inr (stored_row e)"
  "\<not> known_kind e \<Longrightarrow> \<exists>m. event_of_stored pid e = Inl (Internal m)"
  by (auto simp: known_kind_def event_of_stored_def stored_row_def err_internal_def)

lemma load_stored:
  "try_fold (\<lambda>events e. rbind (event_of_stored pid e) (\<lambda>row. Inr (events @ [row]))) acc stored =
     (if list_all known_kind stored then Inr (acc @ map stored_row stored)
      else rbind (event_of_stored pid (hd (dropWhile known_kind stored))) (\<lambda>_. Inr []))"
proof (induction stored arbitrary: acc)
  case (Cons e es)
  show ?case
  proof (cases "known_kind e")
    case True
    then show ?thesis by (simp add: event_of_stored_known Cons.IH)
  next
    case False
    then obtain m where "event_of_stored pid e = Inl (Internal m)" using event_of_stored_known(2) by blast
    with False show ?thesis by simp
  qed
qed simp

section \<open>Main results\<close>

text \<open>
  C26. The aggregation loops compute their closed form: each tier's score is the sum over its rules
  of the newest distinct trusted incidents up to the rule's cap, limited by the tier's ceiling,
  whatever the order of the rules; corroboration is the sum of the units of the context rules that
  have a trusted row, limited by half of the hard score; the band is the highest tier that scored.
\<close>

theorem compute_breakdown_closed_form:
  "bd_hard (compute_breakdown events weight) = tier_score weight events TierHard
   \<and> bd_strong (compute_breakdown events weight) = tier_score weight events TierStrong
   \<and> bd_behavioral (compute_breakdown events weight) = tier_score weight events TierBehavioral
   \<and> bd_corroboration (compute_breakdown events weight) =
       min (tier_score weight events TierHard div 2) (\<Sum>r \<in> context_rules events. code_unit r)
   \<and> bd_band (compute_breakdown events weight) =
       (if tier_score weight events TierHard > 0 then BandEvidenced
        else if tier_score weight events TierStrong > 0 then BandInvestigate
        else if tier_score weight events TierBehavioral > 0 then BandWatch
        else if context_rules events \<noteq> {} then BandContext else BandClean)"
  by (rule compute_breakdown_reference [of events weight]) (simp add: Let_def corroboration_score_def)

text \<open>
  C27. The score is bounded and every point of it is visible: strong evidence gives at most 60 points
  and behavioural evidence at most 25, corroboration at most half of the hard points, the total
  is the exact sum of the four (the saturating additions never saturate on \<open>i32\<close> deltas) and
  equals the sum of the contributions shown on the events; every row is shown exactly once, and a
  row is marked counted exactly when it contributed.
\<close>

theorem breakdown_bounded_and_reconciled:
  assumes "deltas_i32 weight events"
  defines "bd \<equiv> compute_breakdown events weight"
  shows "0 \<le> bd_hard bd \<and> 0 \<le> bd_strong bd \<and> bd_strong bd \<le> 60
    \<and> 0 \<le> bd_behavioral bd \<and> bd_behavioral bd \<le> 25
    \<and> 0 \<le> bd_corroboration bd \<and> bd_corroboration bd \<le> bd_hard bd div 2
    \<and> bd_total bd = bd_hard bd + bd_corroboration bd + bd_strong bd + bd_behavioral bd
    \<and> (\<Sum>a\<leftarrow>bd_events bd. se_applied a) = bd_total bd
    \<and> (\<forall>a \<in> set (bd_events bd). se_counted a \<longleftrightarrow> se_applied a > 0)
    \<and> mset (map annotation_of (bd_events bd)) = mset (map row_annotation events)"
  unfolding bd_def
  by (rule compute_breakdown_reference [of events weight])
    (use tier_score_range(1) [of weight events TierHard] tier_score_range [of weight events TierStrong]
      tier_score_range [of weight events TierBehavioral] corroboration_range [of weight events]
      total_exact [OF assms(1)] in
      \<open>simp add: Let_def applied_sum_def well_counted_def\<close>)

definition sample_rows :: "suspicion_event_row list" where
  "sample_rows =
    [\<lparr> sv_rule_code = ''TokenAbuse'', sv_evidence_key = ''k1'', sv_details = [], sv_time = 5,
       sv_score_delta = Some 80 \<rparr>,
     \<lparr> sv_rule_code = ''SharedFingerprint'', sv_evidence_key = ''global'', sv_details = [], sv_time = 7,
       sv_score_delta = Some 60 \<rparr>]"

theorem breakdown_bounded_and_reconciled_witness:
  "deltas_i32 default_weight sample_rows
   \<and> (\<Sum>a\<leftarrow>bd_events (compute_breakdown sample_rows default_weight). se_applied a)
      = bd_total (compute_breakdown sample_rows default_weight)"
proof -
  have "deltas_i32 default_weight sample_rows"
    by (simp add: deltas_i32_def sample_rows_def row_delta_def)
  with breakdown_bounded_and_reconciled [OF this] show ?thesis by blast
qed

text \<open>
  C28. Quarantined evidence is inert: deleting every row whose evidence key carries the
  \<open>legacy-untrusted:\<close> mark changes none of the four scores, nor the total, nor the band, so such
  rows consume no incident cap, select no band and corroborate nothing.
\<close>

theorem quarantined_evidence_is_inert:
  "bd_hard (compute_breakdown (filter trusted events) weight) = bd_hard (compute_breakdown events weight)
   \<and> bd_strong (compute_breakdown (filter trusted events) weight) = bd_strong (compute_breakdown events weight)
   \<and> bd_behavioral (compute_breakdown (filter trusted events) weight)
       = bd_behavioral (compute_breakdown events weight)
   \<and> bd_corroboration (compute_breakdown (filter trusted events) weight)
       = bd_corroboration (compute_breakdown events weight)
   \<and> bd_total (compute_breakdown (filter trusted events) weight) = bd_total (compute_breakdown events weight)
   \<and> bd_band (compute_breakdown (filter trusted events) weight) = bd_band (compute_breakdown events weight)"
proof -
  obtain as where as: "compute_breakdown events weight = (let hard = tier_score weight events TierHard;
      strong = tier_score weight events TierStrong; behavioral = tier_score weight events TierBehavioral;
      corroboration = corroboration_score weight events
     in \<lparr> bd_hard = hard, bd_strong = strong, bd_behavioral = behavioral, bd_corroboration = corroboration,
          bd_total = sat_add_i64 (sat_add_i64 (sat_add_i64 hard corroboration) strong) behavioral,
          bd_band = (if hard > 0 then BandEvidenced else if strong > 0 then BandInvestigate
             else if behavioral > 0 then BandWatch
             else if context_rules events \<noteq> {} then BandContext else BandClean),
          bd_events = as \<rparr>)"
    using compute_breakdown_reference by metis
  show ?thesis
    by (rule compute_breakdown_reference [of "filter trusted events" weight])
      (simp add: as Let_def corroboration_score_def tier_score_trusted context_rules_trusted)
qed

text \<open>
  C29. In the cheat report no team without hard evidence is ranked above a team with hard evidence:
  the rows of the teams that have any are exactly the leading rows, ranked among themselves,
  whatever the totals are.
\<close>

theorem hard_evidence_ranks_first:
  "takeWhile (\<lambda>r. cr_band r = BandEvidenced)
     (rank_cheat_rows (map (\<lambda>(team, events). cheat_row_of team (compute_breakdown events weight)) teams))
   = rank_cheat_rows (map (\<lambda>(team, events). cheat_row_of team (compute_breakdown events weight))
       (filter (\<lambda>(team, events). bd_hard (compute_breakdown events weight) > 0) teams))"
  by (rule breakdown.ranked_evidenced_first)

text \<open>
  The stored projection is canonical: recomputing a participation's score succeeds exactly when
  every ledger row has a known kind and the participation exists; then the stored and returned
  score is the sum of the four parts of the breakdown of the whole ledger, held at the top of the
  \<open>i32\<close> range, and no other participation changes. An unknown kind is an internal error that
  leaves everything unwritten.
\<close>

theorem recompute_is_canonical:
  assumes "\<forall>e \<in> set stored. st_score_delta e \<le> i32_max"
  defines "bd \<equiv> compute_breakdown (map stored_row stored) (\<lambda>_. 0)"
  defines "score \<equiv> min i32_max (bd_hard bd + bd_corroboration bd + bd_strong bd + bd_behavioral bd)"
  shows "(recompute_participation_suspicion_score stored participations pid = Inr r \<longleftrightarrow>
      list_all known_kind stored \<and> participations pid \<noteq> None
      \<and> r = (participations(pid \<mapsto> score), score))
    \<and> (\<not> list_all known_kind stored \<longrightarrow>
        (\<exists>m. recompute_participation_suspicion_score stored participations pid = Inl (Internal m)))
    \<and> 0 \<le> score"
proof -
  have "deltas_i32 (\<lambda>_. 0) (map stored_row stored)"
    using assms(1) by (auto simp: deltas_i32_def row_delta_def stored_row_def split: option.splits)
  note total = total_exact [OF this]
  have nonneg: "0 \<le> bd_hard bd + bd_corroboration bd + bd_strong bd + bd_behavioral bd"
    and bd_total: "bd_total bd = bd_hard bd + bd_corroboration bd + bd_strong bd + bd_behavioral bd"
    unfolding bd_def
    by (rule compute_breakdown_reference [of "map stored_row stored" "\<lambda>_. 0"],
        use total tier_score_range(1) [of "\<lambda>_. 0" "map stored_row stored"]
          corroboration_range(1) [of "\<lambda>_. 0" "map stored_row stored"] in \<open>simp add: Let_def\<close>)+
  have "max 0 (min i32_max (bd_total bd)) = score"
    using nonneg unfolding bd_total score_def by simp
  then have ok: "list_all known_kind stored \<Longrightarrow>
      recompute_participation_suspicion_score stored participations pid =
        (case participations pid of None \<Rightarrow> Inl (err_not_found (lit ''participation not found''))
         | Some _ \<Rightarrow> Inr (participations(pid \<mapsto> score), score))"
    by (simp add: recompute_participation_suspicion_score_def load_stored Let_def bd_def split: option.split)
  have bad: "\<exists>m. recompute_participation_suspicion_score stored participations pid = Inl (Internal m)"
    if "\<not> list_all known_kind stored"
  proof -
    have "\<not> known_kind (hd (dropWhile known_kind stored))"
      using that hd_dropWhile [of known_kind stored] by (auto simp: list_all_iff)
    from event_of_stored_known(2) [OF this, of pid] obtain m where
      "event_of_stored pid (hd (dropWhile known_kind stored)) = Inl (Internal m)" by blast
    with that show ?thesis by (simp add: recompute_participation_suspicion_score_def load_stored)
  qed
  show ?thesis
  proof (cases "list_all known_kind stored")
    case True
    then show ?thesis using ok nonneg by (auto simp: score_def split: option.splits)
  next
    case False
    then show ?thesis using bad nonneg by (auto simp: score_def)
  qed
qed

definition sample_ledger :: "stored_event list" where
  "sample_ledger = [\<lparr> st_kind = 7, st_evidence_key = ''k1'', st_score_delta = 80, st_created_at = 5 \<rparr>]"

theorem recompute_is_canonical_witness:
  "\<exists>score. recompute_participation_suspicion_score sample_ledger [3 \<mapsto> 0] 3 = Inr ([3 \<mapsto> 0, 3 \<mapsto> score], score)
     \<and> 0 \<le> score"
proof -
  have "\<forall>e \<in> set sample_ledger. st_score_delta e \<le> i32_max" "list_all known_kind sample_ledger"
    by (simp_all add: sample_ledger_def known_kind_def suspicion_from_kind_def)
  with recompute_is_canonical [OF this(1), of "[3 \<mapsto> 0]" 3] show ?thesis by simp
qed

end
