(* ===== verification/Admission_Core.thy ===== *)
theory Admission_Core
  imports Rsctf_Prelude
begin

text \<open>
  What the admission gates share: tables that count the live permits of a key. \<open>tally ks\<close> is the
  table for the permit keys \<open>ks\<close>: absent keys have no permit, and no entry ever holds zero. The
  locale \<open>keyed_counter\<close> is the contract of a table's increment and release towards the gates
  that combine several tables, and its lemmas are what their proofs use.
\<close>

definition tally :: "'k list \<Rightarrow> ('k \<rightharpoonup> nat)" where
  "tally ks k = (if count_list ks k = 0 then None else Some (count_list ks k))"

lemma count_list_remove1:
  "count_list (remove1 k ks) j = (if j = k then count_list ks k - 1 else count_list ks j)"
proof (induction ks)
  case (Cons x ks)
  then show ?case by (cases "count_list ks k") auto
qed simp

lemma count_list_le_length: "count_list ks k \<le> length ks"
  by (induction ks) auto

lemma tally_Nil [simp]: "tally [] = Map.empty"
  by (simp add: tally_def fun_eq_iff)

lemma tally_Cons: "tally (k # ks) = (tally ks)(k \<mapsto> Suc (count_list ks k))"
  by (auto simp: tally_def fun_eq_iff)

lemma tally_cong: "(\<And>k. count_list ks k = count_list ls k) \<Longrightarrow> tally ks = tally ls"
  by (simp add: tally_def fun_eq_iff)

lemma tally_remove1_Cons [simp]: "tally (remove1 k (k # ks)) = tally ks"
  by simp

lemma tally_eq_None: "tally ks k = None \<longleftrightarrow> k \<notin> set ks"
  by (simp add: tally_def count_list_0_iff)

lemma dom_tally: "dom (tally ks) = set ks"
  using tally_eq_None [of ks] by (auto simp: dom_def) 

lemma map_remove1_count:
  "p \<in> set ps \<Longrightarrow> count_list (map f (remove1 p ps)) k = count_list (remove1 (f p) (map f ps)) k"
proof (induction ps)
  case (Cons a ps)
  have "p \<in> set ps \<Longrightarrow> 0 < count_list (map f ps) (f p)"
    using count_list_0_iff [of "map f ps" "f p"] by (cases "count_list (map f ps) (f p)") auto
  with Cons show ?case by (auto simp: count_list_remove1)
qed simp

lemma tally_map_remove1: "p \<in> set ps \<Longrightarrow> tally (map f (remove1 p ps)) = tally (remove1 (f p) (map f ps))"
  by (rule tally_cong) (rule map_remove1_count)

text \<open>Every key within its limit.\<close>

definition within :: "('k \<Rightarrow> nat) \<Rightarrow> 'k list \<Rightarrow> bool" where
  "within limit ks \<longleftrightarrow> (\<forall>k. count_list ks k \<le> limit k)"

lemma within_Nil [simp]: "within limit []"
  by (simp add: within_def)

lemma within_Cons: "within limit ks \<Longrightarrow> count_list ks k < limit k \<Longrightarrow> within limit (k # ks)"
  by (auto simp: within_def)

lemma within_map_remove1: "within limit (map f ps) \<Longrightarrow> p \<in> set ps \<Longrightarrow> within limit (map f (remove1 p ps))"
  unfolding within_def map_remove1_count count_list_remove1
  by (metis (mono_tags, lifting) diff_le_self le_trans)

locale keyed_counter =
  fixes inc :: "nat \<Rightarrow> 'k \<Rightarrow> ('k \<rightharpoonup> nat) \<Rightarrow> ('k \<rightharpoonup> nat) option"
    and rel :: "'k \<Rightarrow> ('k \<rightharpoonup> nat) \<Rightarrow> ('k \<rightharpoonup> nat)"
  assumes inc_tally: "0 < limit \<Longrightarrow>
      inc limit k (tally ks) = (if count_list ks k < limit then Some (tally (k # ks)) else None)"
    and rel_tally: "k \<in> set ks \<Longrightarrow> rel k (tally ks) = tally (remove1 k ks)"
begin

text \<open>Taking a slot and giving it back restores the table: what every rollback path relies on.\<close>

lemma rel_inc: "rel k (tally (k # ks)) = tally ks"
  by (simp add: rel_tally)

lemma inc_rel_id: "0 < limit \<Longrightarrow> inc limit k (tally ks) = Some m \<Longrightarrow> rel k m = tally ks"
  using rel_inc by (auto simp: inc_tally split: if_splits)

lemma rel_permit: "p \<in> set ps \<Longrightarrow> rel (f p) (tally (map f ps)) = tally (map f (remove1 p ps))"
  by (simp add: rel_tally tally_map_remove1)

lemma inc_cases:
  assumes "0 < limit"
  obtains (granted) "inc limit k (tally ks) = Some (tally (k # ks))" "count_list ks k < limit"
  | (refused) "inc limit k (tally ks) = None" "\<not> count_list ks k < limit"
  using inc_tally [OF assms] by (metis (full_types))

end

section \<open>Shared atomic counters\<close>

text \<open>
  The tables of \<^verbatim>\<open>asset_admission.rs\<close> and \<^verbatim>\<open>proxy_admission.rs\<close> map a key to a shared atomic
  counter. Calls are modelled one after the other; then a permit's counter is the one in the
  table, and when a release brings it to zero the only two references left are the table's and
  the caller's, so the entry is removed. \<open>arc_increment\<close> returns whether the slot was granted and
  the table, in which the entry exists from then on; \<open>fetch_sub\<close> wraps at zero.
\<close>

definition arc_increment :: "nat \<Rightarrow> 'k \<Rightarrow> ('k \<rightharpoonup> nat) \<Rightarrow> bool \<times> ('k \<rightharpoonup> nat)" where
  "arc_increment limit key m =
    (let value = (case m key of Some n \<Rightarrow> n | None \<Rightarrow> 0)
     in if value < limit then (True, m(key \<mapsto> value + 1)) else (False, m(key \<mapsto> value)))"

definition arc_release :: "'k \<Rightarrow> ('k \<rightharpoonup> nat) \<Rightarrow> ('k \<rightharpoonup> nat)" where
  "arc_release key m =
    (case m key of
       None \<Rightarrow> m
     | Some n \<Rightarrow> if n = 1 then m(key := None) else m(key \<mapsto> (if n = 0 then usize_max else n - 1)))"

definition fetch_sub :: "nat \<Rightarrow> nat \<Rightarrow> nat" where
  "fetch_sub n amount = (if amount \<le> n then n - amount else n + (usize_max + 1) - amount)"

definition arc_take :: "nat \<Rightarrow> 'k \<Rightarrow> ('k \<rightharpoonup> nat) \<Rightarrow> ('k \<rightharpoonup> nat) option" where
  "arc_take limit key m = (case arc_increment limit key m of (ok, m') \<Rightarrow> if ok then Some m' else None)"

lemma tally_value: "(case tally ks k of Some n \<Rightarrow> n | None \<Rightarrow> 0) = count_list ks k"
  by (simp add: tally_def)

interpretation arc: keyed_counter arc_take arc_release
proof
  fix limit :: nat and k :: 'k and ks :: "'k list"
  show "0 < limit \<Longrightarrow> arc_take limit k (tally ks) =
      (if count_list ks k < limit then Some (tally (k # ks)) else None)"
    by (auto simp: arc_take_def arc_increment_def tally_Cons Let_def tally_value)
  show "k \<in> set ks \<Longrightarrow> arc_release k (tally ks) = tally (remove1 k ks)"
    using count_list_0_iff [of ks k]
    by (auto simp: arc_release_def tally_def fun_eq_iff count_list_remove1)
qed

lemma arc_increment_tally:
  assumes "0 < limit"
  shows "arc_increment limit k (tally ks) =
    (if count_list ks k < limit then (True, tally (k # ks)) else (False, tally ks))"
  using arc.inc_tally [OF assms, of k ks] assms
  by (auto simp: arc_take_def arc_increment_def Let_def split: if_splits option.splits)

lemma count_list_map_filter: "count_list (List.map_filter f ps) k = count_list (map f ps) (Some k)"
  by (induction ps) (auto simp: map_filter_simps split: option.splits)

lemma tally_map_filter_remove1:
  assumes "p \<in> set ps"
  shows "tally (List.map_filter f (remove1 p ps)) =
    (case f p of None \<Rightarrow> tally (List.map_filter f ps) | Some k \<Rightarrow> tally (remove1 k (List.map_filter f ps)))"
  by (auto intro!: tally_cong split: option.splits
      simp: count_list_map_filter map_remove1_count [OF assms] count_list_remove1)

lemma within_map_filter_remove1:
  "within limit (List.map_filter f ps) \<Longrightarrow> p \<in> set ps \<Longrightarrow> within limit (List.map_filter f (remove1 p ps))"
  by (auto simp: within_def count_list_map_filter map_remove1_count count_list_remove1 intro: le_trans [OF diff_le_self])

lemma in_map_filter: "p \<in> set ps \<Longrightarrow> f p = Some k \<Longrightarrow> k \<in> set (List.map_filter f ps)"
  by (induction ps) (auto simp: map_filter_simps split: option.splits)

end
