(* ===== verification/Hub_Admission.thy ===== *)
theory Hub_Admission
  imports Admission_Core
begin

text \<open>
  Admission of the event-stream WebSocket hubs, from \<^verbatim>\<open>src/hubs/admission.rs\<close>: connection permits
  over a process-wide semaphore and two keyed tables, the process-lifetime counters, and the
  lock-free one-second window over inbound frames. Connection admission is modelled call by call;
  the window is modelled one atomic instruction at a time, with any number of threads interleaved.
\<close>

section \<open>Connection permits\<close>

definition MAX_CONNECTIONS :: nat where "MAX_CONNECTIONS = 2048"
definition MAX_CONNECTIONS_PER_CLIENT :: nat where "MAX_CONNECTIONS_PER_CLIENT = 128"
definition MAX_CONNECTIONS_PER_GAME :: nat where "MAX_CONNECTIONS_PER_GAME = 1024"
definition MAX_GLOBAL_SCOPE_CONNECTIONS :: nat where "MAX_GLOBAL_SCOPE_CONNECTIONS = 256"
definition MAX_INBOUND_FRAMES_PER_SECOND :: nat where "MAX_INBOUND_FRAMES_PER_SECOND = 8192"
definition MAX_INBOUND_BYTES_PER_SECOND :: nat where "MAX_INBOUND_BYTES_PER_SECOND = 32 * 1024 * 1024"

datatype hub_scope = ScopeGame int | ScopeGlobal

record hub_limits =
  hl_per_client :: nat
  hl_per_game :: nat
  hl_global_scope :: nat

definition HUB_LIMITS :: hub_limits where
  "HUB_LIMITS = \<lparr> hl_per_client = MAX_CONNECTIONS_PER_CLIENT, hl_per_game = MAX_CONNECTIONS_PER_GAME,
     hl_global_scope = MAX_GLOBAL_SCOPE_CONNECTIONS \<rparr>"

fun scope_limit :: "hub_limits \<Rightarrow> hub_scope \<Rightarrow> nat" where
  "scope_limit limits (ScopeGame _) = hl_per_game limits"
| "scope_limit limits ScopeGlobal = hl_global_scope limits"

definition hub_increment :: "nat \<Rightarrow> 'k \<Rightarrow> ('k \<rightharpoonup> nat) \<Rightarrow> ('k \<rightharpoonup> nat) option" where
  "hub_increment limit key counts =
    (case counts key of
       Some n \<Rightarrow> if n < limit then Some (counts(key \<mapsto> n + 1)) else None
     | None \<Rightarrow> Some (counts(key \<mapsto> 1)))"

definition hub_release :: "'k \<Rightarrow> ('k \<rightharpoonup> nat) \<Rightarrow> ('k \<rightharpoonup> nat)" where
  "hub_release key counts =
    (case counts key of
       Some n \<Rightarrow> if n \<le> 1 then counts(key := None) else counts(key \<mapsto> n - 1)
     | None \<Rightarrow> counts)"

text \<open>A live \<open>ConnectionPermit\<close> is its client and its scope; it holds one semaphore slot.\<close>

type_synonym connection_permit = "ustr \<times> hub_scope"

record hub_state =
  hs_available :: nat
  hs_clients :: "ustr \<rightharpoonup> nat"
  hs_scopes :: "hub_scope \<rightharpoonup> nat"
  hs_permits :: "connection_permit list"
  hs_rejected :: nat

definition try_connection_permit_with ::
  "hub_limits \<Rightarrow> ustr \<Rightarrow> hub_scope \<Rightarrow> hub_state \<Rightarrow> connection_permit option \<times> hub_state" where
  "try_connection_permit_with limits client scope st =
    (if hs_available st = 0 then (None, st)
     else let st1 = st \<lparr> hs_available := hs_available st - 1 \<rparr>
     in case hub_increment (hl_per_client limits) client (hs_clients st1) of
          None \<Rightarrow> (None, st1 \<lparr> hs_available := hs_available st1 + 1 \<rparr>)
        | Some clients \<Rightarrow>
            let st2 = st1 \<lparr> hs_clients := clients \<rparr>
            in case hub_increment (scope_limit limits scope) scope (hs_scopes st2) of
                 None \<Rightarrow> (None, st2 \<lparr> hs_clients := hub_release client (hs_clients st2),
                                    hs_available := hs_available st2 + 1 \<rparr>)
               | Some scopes \<Rightarrow>
                   (Some (client, scope),
                    st2 \<lparr> hs_scopes := scopes, hs_permits := (client, scope) # hs_permits st2 \<rparr>))"

definition try_connection_permit ::
  "ustr \<Rightarrow> hub_scope \<Rightarrow> hub_state \<Rightarrow> connection_permit option \<times> hub_state" where
  "try_connection_permit client scope st =
    (let (permit, st1) = try_connection_permit_with HUB_LIMITS client scope st
     in (permit, if permit = None
                 then st1 \<lparr> hs_rejected := sat_add_u64 (hs_rejected st1) 1 \<rparr> else st1))"

text \<open>Dropping a permit drops its fields: the semaphore slot, the client and the scope entry.\<close>

definition drop_connection_permit :: "connection_permit \<Rightarrow> hub_state \<Rightarrow> hub_state" where
  "drop_connection_permit permit st =
    st \<lparr> hs_available := hs_available st + 1,
         hs_clients := hub_release (fst permit) (hs_clients st),
         hs_scopes := hub_release (snd permit) (hs_scopes st),
         hs_permits := remove1 permit (hs_permits st) \<rparr>"

definition hub_init :: hub_state where
  "hub_init = \<lparr> hs_available = MAX_CONNECTIONS, hs_clients = Map.empty, hs_scopes = Map.empty,
     hs_permits = [], hs_rejected = 0 \<rparr>"

inductive hub_step :: "hub_state \<Rightarrow> hub_state \<Rightarrow> bool" where
  connect: "try_connection_permit client scope st = (permit, st') \<Longrightarrow> hub_step st st'"
| disconnect: "permit \<in> set (hs_permits st) \<Longrightarrow> hub_step st (drop_connection_permit permit st)"

inductive_cases hub_stepE [elim]: "hub_step st st'"

section \<open>Operational counters\<close>

datatype close_reason =
  CloseQuota | CloseProtocol | CloseInvalidHandshake | CloseIdleTimeout | CloseAuthorization
| CloseFeedResync

record operational_counters =
  oc_started_at_unix_ms :: int
  oc_connections_rejected :: nat
  oc_inbound_frames :: nat
  oc_inbound_bytes :: nat
  oc_inbound_quota_rejections :: nat
  oc_protocol_rejections :: nat
  oc_quota_closes :: nat
  oc_protocol_closes :: nat
  oc_invalid_handshake_closes :: nat
  oc_idle_timeout_closes :: nat
  oc_authorization_closes :: nat
  oc_feed_resync_closes :: nat

definition operational_counters_new :: "int \<Rightarrow> operational_counters" where
  "operational_counters_new now_ms =
    \<lparr> oc_started_at_unix_ms = (if now_ms \<le> i64_max then now_ms else i64_max),
      oc_connections_rejected = 0, oc_inbound_frames = 0, oc_inbound_bytes = 0,
      oc_inbound_quota_rejections = 0, oc_protocol_rejections = 0, oc_quota_closes = 0,
      oc_protocol_closes = 0, oc_invalid_handshake_closes = 0, oc_idle_timeout_closes = 0,
      oc_authorization_closes = 0, oc_feed_resync_closes = 0 \<rparr>"

definition record_inbound_attempt_with ::
  "nat \<Rightarrow> bool \<Rightarrow> operational_counters \<Rightarrow> operational_counters" where
  "record_inbound_attempt_with bytes admitted c =
    (let c1 = c \<lparr> oc_inbound_frames := sat_add_u64 (oc_inbound_frames c) 1,
                  oc_inbound_bytes := sat_add_u64 (oc_inbound_bytes c) bytes \<rparr>
     in if \<not> admitted
        then c1 \<lparr> oc_inbound_quota_rejections := sat_add_u64 (oc_inbound_quota_rejections c1) 1 \<rparr>
        else c1)"

definition record_protocol_rejection :: "operational_counters \<Rightarrow> operational_counters" where
  "record_protocol_rejection c =
    c \<lparr> oc_protocol_rejections := sat_add_u64 (oc_protocol_rejections c) 1 \<rparr>"

fun record_close :: "close_reason \<Rightarrow> operational_counters \<Rightarrow> operational_counters" where
  "record_close CloseQuota c = c \<lparr> oc_quota_closes := sat_add_u64 (oc_quota_closes c) 1 \<rparr>"
| "record_close CloseProtocol c = c \<lparr> oc_protocol_closes := sat_add_u64 (oc_protocol_closes c) 1 \<rparr>"
| "record_close CloseInvalidHandshake c =
    c \<lparr> oc_invalid_handshake_closes := sat_add_u64 (oc_invalid_handshake_closes c) 1 \<rparr>"
| "record_close CloseIdleTimeout c =
    c \<lparr> oc_idle_timeout_closes := sat_add_u64 (oc_idle_timeout_closes c) 1 \<rparr>"
| "record_close CloseAuthorization c =
    c \<lparr> oc_authorization_closes := sat_add_u64 (oc_authorization_closes c) 1 \<rparr>"
| "record_close CloseFeedResync c =
    c \<lparr> oc_feed_resync_closes := sat_add_u64 (oc_feed_resync_closes c) 1 \<rparr>"

section \<open>The inbound window, instruction by instruction\<close>

text \<open>
  \<open>WINDOW_RESETTING\<close> is bit 63 of the \<open>second\<close> word. Seconds are below \<open>2 ^ 63\<close>, so testing
  the bit is comparing with it and setting it is adding it.
\<close>

definition WINDOW_RESETTING :: nat where "WINDOW_RESETTING = 2 ^ 63"

record inbound_window =
  iw_second :: nat
  iw_frames :: nat
  iw_bytes :: nat

definition inbound_window_new :: inbound_window where
  "inbound_window_new = \<lparr> iw_second = 0, iw_frames = 0, iw_bytes = 0 \<rparr>"

text \<open>One call of \<open>admit\<close> and where it stands: each constructor is the next atomic instruction.\<close>

datatype admit_pc =
    AtLoad | AtCas nat | AtStoreFrames | AtStoreBytes | AtStoreSecond | AtAddFrames | AtAddBytes nat
  | AdmitDone bool

record admit_call =
  ac_bytes :: nat
  ac_second :: nat

definition admit_micro ::
  "nat \<Rightarrow> nat \<Rightarrow> admit_call \<Rightarrow> inbound_window \<Rightarrow> admit_pc \<Rightarrow> inbound_window \<times> admit_pc" where
  "admit_micro frame_limit byte_limit call w pc =
    (case pc of
       AtLoad \<Rightarrow>
         (let observed = iw_second w
          in if observed = ac_second call then (w, AtAddFrames)
             else if WINDOW_RESETTING \<le> observed then (w, AtLoad)
             else if observed > ac_second call then (w, AtAddFrames)
             else (w, AtCas observed))
     | AtCas observed \<Rightarrow>
         (if iw_second w = observed
          then (w \<lparr> iw_second := ac_second call + WINDOW_RESETTING \<rparr>, AtStoreFrames)
          else (w, AtLoad))
     | AtStoreFrames \<Rightarrow> (w \<lparr> iw_frames := 0 \<rparr>, AtStoreBytes)
     | AtStoreBytes \<Rightarrow> (w \<lparr> iw_bytes := 0 \<rparr>, AtStoreSecond)
     | AtStoreSecond \<Rightarrow> (w \<lparr> iw_second := ac_second call \<rparr>, AtAddFrames)
     | AtAddFrames \<Rightarrow>
         (let frames = (iw_frames w + 1) mod 2 ^ 64
          in (w \<lparr> iw_frames := frames \<rparr>, AtAddBytes frames))
     | AtAddBytes frames \<Rightarrow>
         (let bytes = (iw_bytes w + ac_bytes call) mod 2 ^ 64
          in (w \<lparr> iw_bytes := bytes \<rparr>, AdmitDone (frames \<le> frame_limit \<and> bytes \<le> byte_limit)))
     | AdmitDone r \<Rightarrow> (w, AdmitDone r))"

text \<open>The call run on its own, and the metering of a frame that uses it.\<close>

definition inbound_admit ::
  "nat \<Rightarrow> nat \<Rightarrow> admit_call \<Rightarrow> inbound_window \<Rightarrow> bool \<times> inbound_window" where
  "inbound_admit frame_limit byte_limit call w =
    (let w1 = (if iw_second w < ac_second call
               then \<lparr> iw_second = ac_second call, iw_frames = 0, iw_bytes = 0 \<rparr> else w);
         frames = (iw_frames w1 + 1) mod 2 ^ 64;
         bytes = (iw_bytes w1 + ac_bytes call) mod 2 ^ 64
     in (frames \<le> frame_limit \<and> bytes \<le> byte_limit, w1 \<lparr> iw_frames := frames, iw_bytes := bytes \<rparr>))"

definition meter_inbound_frame_with ::
  "nat \<Rightarrow> nat \<Rightarrow> admit_call \<Rightarrow> bool \<Rightarrow> inbound_window \<Rightarrow> operational_counters
    \<Rightarrow> bool \<times> inbound_window \<times> operational_counters" where
  "meter_inbound_frame_with frame_limit byte_limit call locally_admitted w c =
    (let (globally_admitted, w') = inbound_admit frame_limit byte_limit call w;
         admitted = (locally_admitted \<and> globally_admitted)
     in (admitted, w', record_inbound_attempt_with (ac_bytes call) admitted c))"

definition meter_inbound_frame ::
  "admit_call \<Rightarrow> bool \<Rightarrow> inbound_window \<Rightarrow> operational_counters
    \<Rightarrow> bool \<times> inbound_window \<times> operational_counters" where
  "meter_inbound_frame = meter_inbound_frame_with MAX_INBOUND_FRAMES_PER_SECOND MAX_INBOUND_BYTES_PER_SECOND"

text \<open>
  Any number of threads share the window. Ghost fields record, since the last time a counter was
  cleared, how many frames and bytes were counted and how many of them were let through, and the
  seconds whose reset was won, newest first.
\<close>

record window_system =
  ws_window :: inbound_window
  ws_threads :: "nat \<rightharpoonup> admit_call \<times> admit_pc"
  ws_counted :: nat
  ws_passed :: nat
  ws_bytes_counted :: nat
  ws_bytes_passed :: nat
  ws_resets :: "nat list"

definition window_init :: window_system where
  "window_init = \<lparr> ws_window = inbound_window_new, ws_threads = Map.empty, ws_counted = 0,
     ws_passed = 0, ws_bytes_counted = 0, ws_bytes_passed = 0, ws_resets = [] \<rparr>"

definition run_thread :: "nat \<Rightarrow> nat \<Rightarrow> nat \<Rightarrow> window_system \<Rightarrow> window_system" where
  "run_thread frame_limit byte_limit t ws =
    (case ws_threads ws t of
       None \<Rightarrow> ws
     | Some (call, pc) \<Rightarrow>
         let (w, pc') = admit_micro frame_limit byte_limit call (ws_window ws) pc;
             ws1 = ws \<lparr> ws_window := w, ws_threads := (ws_threads ws)(t \<mapsto> (call, pc')) \<rparr>
         in case pc of
              AtCas observed \<Rightarrow>
                if pc' = AtStoreFrames then ws1 \<lparr> ws_resets := ac_second call # ws_resets ws1 \<rparr> else ws1
            | AtStoreFrames \<Rightarrow> ws1 \<lparr> ws_counted := 0, ws_passed := 0 \<rparr>
            | AtStoreBytes \<Rightarrow> ws1 \<lparr> ws_bytes_counted := 0, ws_bytes_passed := 0 \<rparr>
            | AtAddFrames \<Rightarrow> ws1 \<lparr> ws_counted := ws_counted ws1 + 1,
                ws_passed := ws_passed ws1 + (if iw_frames w \<le> frame_limit then 1 else 0) \<rparr>
            | AtAddBytes _ \<Rightarrow> ws1 \<lparr> ws_bytes_counted := ws_bytes_counted ws1 + ac_bytes call,
                ws_bytes_passed := ws_bytes_passed ws1 + (if pc' = AdmitDone True then ac_bytes call else 0) \<rparr>
            | _ \<Rightarrow> ws1)"

inductive window_step :: "nat \<Rightarrow> nat \<Rightarrow> window_system \<Rightarrow> window_system \<Rightarrow> bool"
  for frame_limit byte_limit where
  call: "ws_threads ws t = None \<Longrightarrow> ac_second c < WINDOW_RESETTING \<Longrightarrow>
     window_step frame_limit byte_limit ws (ws \<lparr> ws_threads := (ws_threads ws)(t \<mapsto> (c, AtLoad)) \<rparr>)"
| run: "ws_threads ws t \<noteq> None \<Longrightarrow>
     window_step frame_limit byte_limit ws (run_thread frame_limit byte_limit t ws)"

lemma admit_micro_simps [simp]:
  "admit_micro fl bl c w AtLoad =
    (if iw_second w = ac_second c then (w, AtAddFrames)
     else if WINDOW_RESETTING \<le> iw_second w then (w, AtLoad)
     else if iw_second w > ac_second c then (w, AtAddFrames) else (w, AtCas (iw_second w)))"
  "admit_micro fl bl c w (AtCas observed) =
    (if iw_second w = observed
     then (w \<lparr> iw_second := ac_second c + WINDOW_RESETTING \<rparr>, AtStoreFrames) else (w, AtLoad))"
  "admit_micro fl bl c w AtStoreFrames = (w \<lparr> iw_frames := 0 \<rparr>, AtStoreBytes)"
  "admit_micro fl bl c w AtStoreBytes = (w \<lparr> iw_bytes := 0 \<rparr>, AtStoreSecond)"
  "admit_micro fl bl c w AtStoreSecond = (w \<lparr> iw_second := ac_second c \<rparr>, AtAddFrames)"
  "admit_micro fl bl c w AtAddFrames =
    (w \<lparr> iw_frames := (iw_frames w + 1) mod 2 ^ 64 \<rparr>, AtAddBytes ((iw_frames w + 1) mod 2 ^ 64))"
  "admit_micro fl bl c w (AtAddBytes n) =
    (w \<lparr> iw_bytes := (iw_bytes w + ac_bytes c) mod 2 ^ 64 \<rparr>,
     AdmitDone (n \<le> fl \<and> (iw_bytes w + ac_bytes c) mod 2 ^ 64 \<le> bl))"
  "admit_micro fl bl c w (AdmitDone r) = (w, AdmitDone r)"
  by (simp_all add: admit_micro_def Let_def)

text \<open>\<open>n\<close> instructions of a call that nobody disturbs.\<close>

fun admit_solo ::
  "nat \<Rightarrow> nat \<Rightarrow> admit_call \<Rightarrow> nat \<Rightarrow> inbound_window \<times> admit_pc \<Rightarrow> inbound_window \<times> admit_pc" where
  "admit_solo fl bl c 0 st = st"
| "admit_solo fl bl c (Suc n) (w, pc) = admit_solo fl bl c n (admit_micro fl bl c w pc)"

section \<open>Correctness of connection admission\<close>

interpretation hub: keyed_counter hub_increment hub_release
proof
  fix limit :: nat and k :: 'k and ks :: "'k list"
  show "0 < limit \<Longrightarrow> hub_increment limit k (tally ks) =
      (if count_list ks k < limit then Some (tally (k # ks)) else None)"
    by (auto simp: hub_increment_def tally_Cons) (simp_all add: tally_def)
  show "k \<in> set ks \<Longrightarrow> hub_release k (tally ks) = tally (remove1 k ks)"
    by (auto simp: hub_release_def tally_def fun_eq_iff count_list_remove1 count_list_0_iff)
qed

definition hub_inv :: "hub_state \<Rightarrow> bool" where
  "hub_inv st \<longleftrightarrow> hs_available st + length (hs_permits st) = MAX_CONNECTIONS
     \<and> hs_clients st = tally (map fst (hs_permits st))
     \<and> hs_scopes st = tally (map snd (hs_permits st))
     \<and> within (\<lambda>_. MAX_CONNECTIONS_PER_CLIENT) (map fst (hs_permits st))
     \<and> within (scope_limit HUB_LIMITS) (map snd (hs_permits st))"

lemma hub_limits_pos: "0 < hl_per_client HUB_LIMITS" "0 < scope_limit HUB_LIMITS scope"
  by (simp_all add: HUB_LIMITS_def MAX_CONNECTIONS_PER_CLIENT_def)
    (cases scope; simp add: HUB_LIMITS_def MAX_CONNECTIONS_PER_GAME_def MAX_GLOBAL_SCOPE_CONNECTIONS_def)

definition hub_full :: "ustr \<Rightarrow> hub_scope \<Rightarrow> hub_state \<Rightarrow> bool" where
  "hub_full client scope st \<longleftrightarrow> length (hs_permits st) = MAX_CONNECTIONS
     \<or> MAX_CONNECTIONS_PER_CLIENT \<le> count_list (map fst (hs_permits st)) client
     \<or> scope_limit HUB_LIMITS scope \<le> count_list (map snd (hs_permits st)) scope"

lemma try_connection_permit_effect:
  assumes "hub_inv st"
  shows "try_connection_permit client scope st =
    (if hub_full client scope st then (None, st \<lparr> hs_rejected := sat_add_u64 (hs_rejected st) 1 \<rparr>)
     else (Some (client, scope),
       st \<lparr> hs_available := hs_available st - 1,
            hs_clients := tally (map fst ((client, scope) # hs_permits st)),
            hs_scopes := tally (map snd ((client, scope) # hs_permits st)),
            hs_permits := (client, scope) # hs_permits st \<rparr>))"
proof -
  have [simp]: "hl_per_client HUB_LIMITS = MAX_CONNECTIONS_PER_CLIENT" by (simp add: HUB_LIMITS_def)
  have inv: "hs_available st + length (hs_permits st) = MAX_CONNECTIONS"
    "hs_clients st = tally (map fst (hs_permits st))" "hs_scopes st = tally (map snd (hs_permits st))"
    using assms by (simp_all add: hub_inv_def)
  have full: "hs_available st = 0 \<longleftrightarrow> length (hs_permits st) = MAX_CONNECTIONS" using inv(1) by auto
  note c = hub.inc_tally [OF hub_limits_pos(1), of client "map fst (hs_permits st)"]
  note s = hub.inc_tally [OF hub_limits_pos(2), of scope scope "map snd (hs_permits st)"]
  show ?thesis
    using hub.rel_inc [of client "map fst (hs_permits st)"] c s full inv(2,3)
    by (cases st)
      (auto simp: try_connection_permit_def try_connection_permit_with_def Let_def hub_full_def
        split: if_splits)
qed

lemma hub_inv_connect:
  assumes "hub_inv st" "try_connection_permit client scope st = (permit, st')"
  shows "hub_inv st'"
proof (cases "hub_full client scope st")
  case True
  with assms try_connection_permit_effect [OF assms(1), of client scope] show ?thesis
    by (auto simp: hub_inv_def)
next
  case False
  then have "within (\<lambda>_. MAX_CONNECTIONS_PER_CLIENT) (map fst ((client, scope) # hs_permits st))"
    "within (scope_limit HUB_LIMITS) (map snd ((client, scope) # hs_permits st))"
    using assms(1) by (auto simp: hub_inv_def hub_full_def intro!: within_Cons)
  then show ?thesis
    using False assms try_connection_permit_effect [OF assms(1), of client scope]
    by (auto simp: hub_inv_def hub_full_def)
qed

lemma hub_inv_disconnect:
  assumes "hub_inv st" "permit \<in> set (hs_permits st)"
  shows "hub_inv (drop_connection_permit permit st)"
proof -
  obtain n where n: "length (hs_permits st) = Suc n" using assms(2) by (cases "hs_permits st") auto
  then show ?thesis
    using assms hub.rel_permit [OF assms(2), of fst] hub.rel_permit [OF assms(2), of snd]
    by (simp add: hub_inv_def drop_connection_permit_def within_map_remove1 length_remove1)
qed

interpretation hub_conn: step_system "\<lambda>st. st = hub_init" hub_step hub_inv
proof
  fix st st' assume "hub_inv st" "hub_step st st'"
  then show "hub_inv st'" by (auto intro: hub_inv_connect hub_inv_disconnect)
qed (simp add: hub_inv_def hub_init_def)

section \<open>Correctness of the window\<close>

definition storing :: "admit_pc \<Rightarrow> bool" where
  "storing pc \<longleftrightarrow> pc \<in> {AtStoreFrames, AtStoreBytes, AtStoreSecond}"

definition thread_inv :: "window_system \<Rightarrow> bool" where
  "thread_inv ws \<longleftrightarrow> (\<forall>t c pc. ws_threads ws t = Some (c, pc) \<longrightarrow>
     ac_second c < WINDOW_RESETTING
     \<and> (storing pc \<longrightarrow> iw_second (ws_window ws) = ac_second c + WINDOW_RESETTING)
     \<and> (\<forall>observed. pc = AtCas observed \<longrightarrow> observed < ac_second c))"

definition single_writer :: "window_system \<Rightarrow> bool" where
  "single_writer ws \<longleftrightarrow> (\<forall>t u c d pc qc. ws_threads ws t = Some (c, pc) \<longrightarrow> ws_threads ws u = Some (d, qc)
     \<longrightarrow> storing pc \<longrightarrow> storing qc \<longrightarrow> t = u)"

definition counter_inv :: "nat \<Rightarrow> nat \<Rightarrow> window_system \<Rightarrow> bool" where
  "counter_inv frame_limit byte_limit ws \<longleftrightarrow>
     (ws_counted ws < 2 ^ 64 \<longrightarrow> iw_frames (ws_window ws) = ws_counted ws
        \<and> ws_passed ws \<le> ws_counted ws \<and> ws_passed ws \<le> frame_limit)
     \<and> (ws_bytes_counted ws < 2 ^ 64 \<longrightarrow> iw_bytes (ws_window ws) = ws_bytes_counted ws
        \<and> ws_bytes_passed ws \<le> ws_bytes_counted ws \<and> ws_bytes_passed ws \<le> byte_limit)"

definition reset_inv :: "window_system \<Rightarrow> bool" where
  "reset_inv ws \<longleftrightarrow> sorted_wrt (>) (ws_resets ws)
     \<and> (\<forall>s \<in> set (ws_resets ws). s \<le> iw_second (ws_window ws) mod WINDOW_RESETTING)"

definition window_inv :: "nat \<Rightarrow> nat \<Rightarrow> window_system \<Rightarrow> bool" where
  "window_inv frame_limit byte_limit ws \<longleftrightarrow> thread_inv ws \<and> single_writer ws
     \<and> counter_inv frame_limit byte_limit ws \<and> reset_inv ws"

lemma run_thread_counter:
  assumes "counter_inv fl bl ws"
  shows "counter_inv fl bl (run_thread fl bl t ws)"
proof (cases "ws_threads ws t")
  case None
  with assms show ?thesis by (simp add: run_thread_def)
next
  case (Some x)
  obtain c pc where x: "x = (c, pc)" by (cases x)
  show ?thesis
  proof (cases pc)
    case AtAddFrames
    then show ?thesis
      using assms Some x
      by (auto simp: run_thread_def admit_micro_def Let_def counter_inv_def)
  next
    case (AtAddBytes frames)
    then show ?thesis
      using assms Some x
      by (auto simp: run_thread_def admit_micro_def Let_def counter_inv_def)
  qed (use assms Some x in \<open>auto simp: run_thread_def admit_micro_def Let_def counter_inv_def\<close>)
qed

lemma run_thread_other:
  "u \<noteq> t \<Longrightarrow> ws_threads (run_thread fl bl t ws) u = ws_threads ws u"
  by (auto simp: run_thread_def Let_def split: option.splits prod.splits admit_pc.splits)

lemma storing_simps [simp]:
  "storing AtStoreFrames" "storing AtStoreBytes" "storing AtStoreSecond" "\<not> storing AtLoad"
  "\<not> storing (AtCas observed)" "\<not> storing AtAddFrames" "\<not> storing (AtAddBytes n)" "\<not> storing (AdmitDone r)"
  by (simp_all add: storing_def)

text \<open>What one instruction of a thread does to the word \<open>second\<close>, and to its own position.\<close>

lemma admit_micro_second:
  "iw_second (fst (admit_micro fl bl c w pc)) =
    (case pc of AtCas observed \<Rightarrow> if iw_second w = observed then ac_second c + WINDOW_RESETTING else iw_second w
     | AtStoreSecond \<Rightarrow> ac_second c | _ \<Rightarrow> iw_second w)"
  by (cases pc) (auto simp: admit_micro_def Let_def)

lemma admit_micro_storing:
  "storing (snd (admit_micro fl bl c w pc)) \<longleftrightarrow>
    (case pc of AtCas observed \<Rightarrow> iw_second w = observed | AtStoreFrames \<Rightarrow> True | AtStoreBytes \<Rightarrow> True | _ \<Rightarrow> False)"
  by (cases pc) (auto simp: admit_micro_def Let_def)

lemma admit_micro_cas:
  "snd (admit_micro fl bl c w pc) = AtCas observed \<Longrightarrow> pc = AtLoad \<and> observed < ac_second c"
  by (cases pc) (auto simp: admit_micro_def Let_def split: if_splits)

lemma run_thread_fields:
  assumes "ws_threads ws t = Some (c, pc)"
  shows "ws_window (run_thread fl bl t ws) = fst (admit_micro fl bl c (ws_window ws) pc)"
    "ws_threads (run_thread fl bl t ws) = (ws_threads ws)(t \<mapsto> (c, snd (admit_micro fl bl c (ws_window ws) pc)))"
    "ws_resets (run_thread fl bl t ws) =
      (case pc of AtCas observed \<Rightarrow> if iw_second (ws_window ws) = observed
         then ac_second c # ws_resets ws else ws_resets ws | _ \<Rightarrow> ws_resets ws)"
  using assms
  by (auto simp: run_thread_def Let_def admit_micro_def split: prod.splits admit_pc.splits)

lemma no_writer_unflagged:
  assumes "thread_inv ws" "ws_threads ws u = Some (d, qc)" "iw_second (ws_window ws) < WINDOW_RESETTING"
  shows "\<not> storing qc"
  using assms unfolding thread_inv_def by fastforce

lemma cas_unflagged:
  assumes "thread_inv ws" "ws_threads ws t = Some (c, AtCas observed)" "iw_second (ws_window ws) = observed"
  shows "iw_second (ws_window ws) < ac_second c" "iw_second (ws_window ws) < WINDOW_RESETTING"
  using assms unfolding thread_inv_def by (metis, metis order.strict_trans)

lemma run_thread_threads:
  assumes ti: "thread_inv ws" and sw: "single_writer ws" and t: "ws_threads ws t = Some (c, pc)"
  shows "thread_inv (run_thread fl bl t ws)"
  unfolding thread_inv_def run_thread_fields [OF t]
proof (intro allI impI)
  fix u d qc
  let ?w = "ws_window ws"
  assume u: "((ws_threads ws)(t \<mapsto> (c, snd (admit_micro fl bl c ?w pc)))) u = Some (d, qc)"
  have me: "ac_second c < WINDOW_RESETTING" "storing pc \<longrightarrow> iw_second ?w = ac_second c + WINDOW_RESETTING"
    using ti t unfolding thread_inv_def by blast+
  show "ac_second d < WINDOW_RESETTING
     \<and> (storing qc \<longrightarrow> iw_second (fst (admit_micro fl bl c ?w pc)) = ac_second d + WINDOW_RESETTING)
     \<and> (\<forall>observed. qc = AtCas observed \<longrightarrow> observed < ac_second d)"
  proof (cases "u = t")
    case True
    then have "d = c" "qc = snd (admit_micro fl bl c ?w pc)" using u by auto
    then show ?thesis
      using me admit_micro_cas [of fl bl c ?w pc]
      by (auto simp: admit_micro_storing admit_micro_second split: admit_pc.splits)
  next
    case False
    then have old: "ws_threads ws u = Some (d, qc)" using u by simp
    have "storing qc \<Longrightarrow> iw_second (fst (admit_micro fl bl c ?w pc)) = iw_second ?w"
      using cas_unflagged(2) [OF ti, of t c] no_writer_unflagged [OF ti old] t sw old False
      by (auto simp: admit_micro_second single_writer_def split: admit_pc.splits)
    then show ?thesis using ti old unfolding thread_inv_def by fastforce
  qed
qed

lemma run_thread_single:
  assumes ti: "thread_inv ws" and sw: "single_writer ws" and t: "ws_threads ws t = Some (c, pc)"
  shows "single_writer (run_thread fl bl t ws)"
proof -
  let ?w = "ws_window ws"
  have key: "t = u" if "ws_threads ws u = Some (d, qc)" "storing qc"
    "storing (snd (admit_micro fl bl c ?w pc))" for u d qc
  proof (cases "\<exists>observed. pc = AtCas observed")
    case True
    then show ?thesis
      using that cas_unflagged(2) [OF ti, of t c] no_writer_unflagged [OF ti that(1)] t
      by (auto simp: admit_micro_storing)
  next
    case False
    then have "storing pc" using that(3)
      by (auto simp: admit_micro_storing split: admit_pc.splits)
    then show ?thesis using sw t that(1,2) unfolding single_writer_def by blast
  qed
  show ?thesis
    unfolding single_writer_def run_thread_fields [OF t]
    using key sw unfolding single_writer_def by (auto split: if_splits)
qed

lemma run_thread_resets:
  assumes ti: "thread_inv ws" and ri: "reset_inv ws" and t: "ws_threads ws t = Some (c, pc)"
  shows "reset_inv (run_thread fl bl t ws)"
proof -
  let ?w = "ws_window ws"
  have me: "ac_second c < WINDOW_RESETTING" "storing pc \<longrightarrow> iw_second ?w = ac_second c + WINDOW_RESETTING"
    using ti t unfolding thread_inv_def by blast+
  show ?thesis
  proof (cases "\<exists>observed. pc = AtCas observed \<and> iw_second ?w = observed")
    case True
    then have lt: "iw_second ?w < ac_second c" "iw_second ?w < WINDOW_RESETTING"
      using cas_unflagged [OF ti] t by blast+
    then show ?thesis
      using True ri me(1) unfolding reset_inv_def run_thread_fields [OF t] admit_micro_second
      by fastforce
  next
    case False
    have "iw_second (fst (admit_micro fl bl c ?w pc)) mod WINDOW_RESETTING = iw_second ?w mod WINDOW_RESETTING"
      using False me by (auto simp: admit_micro_second split: admit_pc.splits)
    moreover have "ws_resets (run_thread fl bl t ws) = ws_resets ws"
      using False by (auto simp: run_thread_fields [OF t] split: admit_pc.splits)
    ultimately show ?thesis using ri unfolding reset_inv_def run_thread_fields(1) [OF t] by simp
  qed
qed

lemma window_inv_init: "window_inv fl bl window_init"
  by (simp add: window_inv_def window_init_def thread_inv_def single_writer_def counter_inv_def
      reset_inv_def inbound_window_new_def)

lemma window_inv_call:
  assumes "window_inv fl bl ws" "ws_threads ws t = None" "ac_second c < WINDOW_RESETTING"
  shows "window_inv fl bl (ws \<lparr> ws_threads := (ws_threads ws)(t \<mapsto> (c, AtLoad)) \<rparr>)"
  using assms
  by (auto simp: window_inv_def thread_inv_def single_writer_def counter_inv_def reset_inv_def)

interpretation window: step_system "\<lambda>ws. ws = window_init" "window_step fl bl" "window_inv fl bl" for fl bl
proof
  fix ws ws' assume inv: "window_inv fl bl ws" and "window_step fl bl ws ws'"
  from this(2) show "window_inv fl bl ws'"
  proof cases
    case (call t c)
    with inv show ?thesis by (simp add: window_inv_call)
  next
    case (run t)
    then obtain c pc where "ws_threads ws t = Some (c, pc)" by auto
    with inv run show ?thesis
      unfolding window_inv_def
      by (simp add: run_thread_threads run_thread_single run_thread_counter run_thread_resets)
  qed
qed (simp add: window_inv_init)

section \<open>Main results\<close>

text \<open>
  C35. Connection permits are accounted exactly: in every state that connects and disconnects can
  reach, the semaphore and both tables agree with the live permits, no client and no scope is over
  its limit and no more than 2048 permits are live; and a connect is refused exactly when one of
  the three limits is reached, in which case nothing but the rejection counter changes.
\<close>

theorem hub_permits_accounted:
  assumes "hub_step\<^sup>*\<^sup>* hub_init st"
  shows "hs_available st = MAX_CONNECTIONS - length (hs_permits st)
    \<and> length (hs_permits st) \<le> MAX_CONNECTIONS
    \<and> hs_clients st = tally (map fst (hs_permits st))
    \<and> hs_scopes st = tally (map snd (hs_permits st))
    \<and> count_list (map fst (hs_permits st)) client \<le> MAX_CONNECTIONS_PER_CLIENT
    \<and> count_list (map snd (hs_permits st)) scope \<le> scope_limit HUB_LIMITS scope
    \<and> (case try_connection_permit client scope st of
         (None, st') \<Rightarrow> hub_full client scope st \<and> st' = st \<lparr> hs_rejected := sat_add_u64 (hs_rejected st) 1 \<rparr>
       | (Some p, st') \<Rightarrow> \<not> hub_full client scope st \<and> p = (client, scope) \<and> hs_permits st' = p # hs_permits st)"
proof -
  have inv: "hub_inv st" using hub_conn.reachable_inv assms by blast
  then have "hs_available st = MAX_CONNECTIONS - length (hs_permits st)" "length (hs_permits st) \<le> MAX_CONNECTIONS"
    by (auto simp: hub_inv_def)
  then show ?thesis
    using inv unfolding try_connection_permit_effect [OF inv] by (simp add: hub_inv_def within_def)
qed

theorem hub_permits_accounted_witness:
  "\<exists>st. hub_step\<^sup>*\<^sup>* hub_init st \<and> hs_permits st = [(lit ''a'', ScopeGlobal)]
     \<and> hs_available st = MAX_CONNECTIONS - 1"
proof -
  obtain st where st: "try_connection_permit (lit ''a'') ScopeGlobal hub_init = (Some (lit ''a'', ScopeGlobal), st)"
    "hs_permits st = [(lit ''a'', ScopeGlobal)]"
    by (simp add: try_connection_permit_def try_connection_permit_with_def hub_init_def hub_increment_def
        MAX_CONNECTIONS_def Let_def)
  have "hub_step\<^sup>*\<^sup>* hub_init st" by (rule r_into_rtranclp) (rule hub_step.connect [OF st(1)])
  with hub_permits_accounted [OF this] st(2) show ?thesis by auto
qed

text \<open>
  C34. The lock-free window is safe under every interleaving: whatever the threads and their timing,
  between two clearings of a counter at most the configured number of frames and of bytes is let
  through (as long as fewer than \<open>2 ^ 64\<close> were counted), the window is cleared at most once for
  any second, and these seconds only move forward.
\<close>

theorem inbound_window_safe:
  assumes "(window_step frame_limit byte_limit)\<^sup>*\<^sup>* window_init ws"
    and "ws_counted ws < 2 ^ 64" "ws_bytes_counted ws < 2 ^ 64"
  shows "ws_passed ws \<le> frame_limit \<and> ws_bytes_passed ws \<le> byte_limit
    \<and> sorted_wrt (>) (ws_resets ws) \<and> distinct (ws_resets ws)"
proof -
  have "window_inv frame_limit byte_limit ws" using window.reachable_inv assms(1) by blast
  then have c: "counter_inv frame_limit byte_limit ws" and r: "sorted_wrt (>) (ws_resets ws)"
    by (simp_all add: window_inv_def reset_inv_def)
  have "distinct (ws_resets ws)"
    using r by (induction "ws_resets ws" rule: rev_induct) (auto simp: sorted_wrt_append distinct_conv_nth sorted_wrt_iff_nth_less nat_neq_iff)
  with c r assms(2,3) show ?thesis by (simp add: counter_inv_def)
qed

lemma seven_Suc: "(7 :: nat) = Suc (Suc (Suc (Suc (Suc (Suc (Suc 0))))))"
  by simp

definition sample_call :: admit_call where
  "sample_call = \<lparr> ac_bytes = 40, ac_second = 9 \<rparr>"

definition sample_system :: window_system where
  "sample_system = window_init \<lparr> ws_threads := [0 \<mapsto> (sample_call, AtLoad)] \<rparr>"

lemma sample_run_reachable:
  "(window_step 8 100)\<^sup>*\<^sup>* window_init ((run_thread 8 100 0 ^^ n) sample_system)
   \<and> ws_threads ((run_thread 8 100 0 ^^ n) sample_system) 0 \<noteq> None"
proof (induction n)
  case 0
  have "window_step 8 100 window_init sample_system"
    unfolding sample_system_def
    using window_step.call [of window_init 0 sample_call 8 100]
    by (simp add: window_init_def sample_call_def WINDOW_RESETTING_def)
  then show ?case by (simp add: r_into_rtranclp sample_system_def)
next
  case (Suc n)
  let ?ws = "(run_thread 8 100 0 ^^ n) sample_system"
  have "window_step 8 100 ?ws (run_thread 8 100 0 ?ws)" using Suc by (intro window_step.run) simp
  moreover obtain c pc where "ws_threads ?ws 0 = Some (c, pc)" using Suc by auto
  ultimately show ?case using Suc by (auto simp: run_thread_fields intro: rtranclp.rtrancl_into_rtrancl)
qed

theorem inbound_window_safe_witness:
  "\<exists>ws. (window_step 8 100)\<^sup>*\<^sup>* window_init ws \<and> ws_passed ws = 1 \<and> ws_bytes_passed ws = 40
     \<and> ws_resets ws = [9] \<and> ws_bytes_passed ws \<le> 100 \<and> distinct (ws_resets ws)"
proof -
  let ?ws = "(run_thread 8 100 0 ^^ 7) sample_system"
  have "ws_passed ?ws = 1 \<and> ws_bytes_passed ?ws = 40 \<and> ws_resets ?ws = [9] \<and> ws_counted ?ws = 1
      \<and> ws_bytes_counted ?ws = 40"
    unfolding seven_Suc
      by (simp add: sample_system_def sample_call_def window_init_def run_thread_def
          inbound_window_new_def WINDOW_RESETTING_def)
  with inbound_window_safe [of 8 100 ?ws] sample_run_reachable [of 7] show ?thesis by auto
qed

text \<open>
  The lock-free code computes the sequential window when it is not disturbed: a call that runs
  alone on a window that is not being reset finishes within seven instructions with the verdict
  and the window of the sequential definition, in which a caller with an older second never moves
  the window back.
\<close>

theorem inbound_admit_refined:
  assumes "iw_second w < WINDOW_RESETTING"
  shows "admit_solo frame_limit byte_limit call 7 (w, AtLoad)
      = (snd (inbound_admit frame_limit byte_limit call w),
         AdmitDone (fst (inbound_admit frame_limit byte_limit call w)))
    \<and> iw_second (snd (inbound_admit frame_limit byte_limit call w)) = max (iw_second w) (ac_second call)"
  using assms unfolding seven_Suc
  by (cases w; cases "iw_second w" "ac_second call" rule: linorder_cases)
    (simp_all add: inbound_admit_def Let_def)

theorem inbound_admit_refined_witness:
  "admit_solo 8 100 sample_call 7 (inbound_window_new, AtLoad)
     = (\<lparr> iw_second = 9, iw_frames = 1, iw_bytes = 40 \<rparr>, AdmitDone True)"
proof -
  have "iw_second inbound_window_new < WINDOW_RESETTING"
    by (simp add: inbound_window_new_def WINDOW_RESETTING_def)
  from inbound_admit_refined [OF this, of 8 100 sample_call] show ?thesis
    by (simp add: inbound_admit_def inbound_window_new_def sample_call_def)
qed

end
