(* ===== verification/Asset_Admission.thy ===== *)
theory Asset_Admission
  imports Admission_Core
begin

text \<open>
  Admission of asset downloads, from \<^verbatim>\<open>src/services/asset_admission.rs\<close>: byte streams are limited
  per user, per file and in total, and the request work before them per source, per file, in
  total and in the number of distinct files, each with its rollback on refusal and its release
  when the permit is dropped. Calls are modelled one after the other.
\<close>

definition MAX_GLOBAL_STREAMS :: nat where "MAX_GLOBAL_STREAMS = 2048"
definition MAX_PER_USER_STREAMS :: nat where "MAX_PER_USER_STREAMS = 16"
definition MAX_PER_HASH_STREAMS :: nat where "MAX_PER_HASH_STREAMS = 1536"
definition MAX_ACTIVE_REQUESTS :: nat where "MAX_ACTIVE_REQUESTS = 512"
definition MAX_PER_SOURCE_REQUESTS :: nat where "MAX_PER_SOURCE_REQUESTS = 32"
definition MAX_PER_HASH_REQUESTS :: nat where "MAX_PER_HASH_REQUESTS = 64"
definition MAX_DISTINCT_REQUEST_HASHES :: nat where "MAX_DISTINCT_REQUEST_HASHES = 256"

text \<open>A live stream permit is its user, if any, and its file hash; a request permit its source and hash.\<close>

type_synonym stream_permit = "uuid option \<times> ustr"
type_synonym request_permit = "ustr \<times> ustr"

record asset_state =
  as_global :: nat
  as_users :: "uuid \<rightharpoonup> nat"
  as_hashes :: "ustr \<rightharpoonup> nat"
  as_requests :: nat
  as_sources :: "ustr \<rightharpoonup> nat"
  as_request_hashes :: "ustr \<rightharpoonup> nat"
  as_request_hash_count :: nat
  as_stream_permits :: "stream_permit list"
  as_request_permits :: "request_permit list"

definition asset_new :: asset_state where
  "asset_new = \<lparr> as_global = 0, as_users = Map.empty, as_hashes = Map.empty, as_requests = 0,
     as_sources = Map.empty, as_request_hashes = Map.empty, as_request_hash_count = 0,
     as_stream_permits = [], as_request_permits = [] \<rparr>"

definition increment_distinct_bounded ::
  "nat \<Rightarrow> nat \<Rightarrow> 'k \<Rightarrow> ('k \<rightharpoonup> nat) \<Rightarrow> nat \<Rightarrow> bool \<times> ('k \<rightharpoonup> nat) \<times> nat" where
  "increment_distinct_bounded per_key_limit distinct_limit key m distinct_count =
    (case m key of
       Some n \<Rightarrow>
         if n < per_key_limit then (True, m(key \<mapsto> n + 1), distinct_count)
         else (False, m, distinct_count)
     | None \<Rightarrow>
         if distinct_count < distinct_limit then (True, m(key \<mapsto> 1), distinct_count + 1)
         else (False, m, distinct_count))"

definition release_distinct :: "'k \<Rightarrow> ('k \<rightharpoonup> nat) \<Rightarrow> nat \<Rightarrow> ('k \<rightharpoonup> nat) \<times> nat" where
  "release_distinct key m distinct_count =
    (case m key of
       None \<Rightarrow> (m, distinct_count)
     | Some n \<Rightarrow>
         if n = 1 then (m(key := None), fetch_sub distinct_count 1)
         else (m(key \<mapsto> fetch_sub n 1), distinct_count))"

definition try_acquire_request ::
  "ustr \<Rightarrow> ustr \<Rightarrow> asset_state \<Rightarrow> request_permit option \<times> asset_state" where
  "try_acquire_request source hash st =
    (if \<not> as_requests st < MAX_ACTIVE_REQUESTS then (None, st)
     else let st1 = st \<lparr> as_requests := as_requests st + 1 \<rparr>
     in case arc_increment MAX_PER_SOURCE_REQUESTS source (as_sources st1) of
          (False, sources) \<Rightarrow>
            (None, st1 \<lparr> as_sources := sources, as_requests := fetch_sub (as_requests st1) 1 \<rparr>)
        | (True, sources) \<Rightarrow>
            let st2 = st1 \<lparr> as_sources := sources \<rparr>
            in case increment_distinct_bounded MAX_PER_HASH_REQUESTS MAX_DISTINCT_REQUEST_HASHES hash
                      (as_request_hashes st2) (as_request_hash_count st2) of
                 (False, hashes, distinct_count) \<Rightarrow>
                   (None, st2 \<lparr> as_request_hashes := hashes, as_request_hash_count := distinct_count,
                            as_sources := arc_release source (as_sources st2),
                            as_requests := fetch_sub (as_requests st2) 1 \<rparr>)
               | (True, hashes, distinct_count) \<Rightarrow>
                   (Some (source, hash),
                    st2 \<lparr> as_request_hashes := hashes, as_request_hash_count := distinct_count,
                          as_request_permits := (source, hash) # as_request_permits st2 \<rparr>))"

definition release_user :: "uuid option \<Rightarrow> (uuid \<rightharpoonup> nat) \<Rightarrow> (uuid \<rightharpoonup> nat)" where
  "release_user user users = (case user of None \<Rightarrow> users | Some u \<Rightarrow> arc_release u users)"

definition try_acquire :: "uuid option \<Rightarrow> ustr \<Rightarrow> asset_state \<Rightarrow> stream_permit option \<times> asset_state" where
  "try_acquire user_id hash st =
    (case (case user_id of
             Some u \<Rightarrow> arc_increment MAX_PER_USER_STREAMS u (as_users st)
           | None \<Rightarrow> (True, as_users st)) of
       (False, users) \<Rightarrow> (None, st \<lparr> as_users := users \<rparr>)
     | (True, users) \<Rightarrow>
         let st1 = st \<lparr> as_users := users \<rparr>
         in case arc_increment MAX_PER_HASH_STREAMS hash (as_hashes st1) of
              (False, hashes) \<Rightarrow>
                (None, st1 \<lparr> as_hashes := hashes, as_users := release_user user_id (as_users st1) \<rparr>)
            | (True, hashes) \<Rightarrow>
                let st2 = st1 \<lparr> as_hashes := hashes \<rparr>
                in if \<not> as_global st2 < MAX_GLOBAL_STREAMS
                   then (None, st2 \<lparr> as_hashes := arc_release hash (as_hashes st2),
                                     as_users := release_user user_id (as_users st2) \<rparr>)
                   else (Some (user_id, hash),
                         st2 \<lparr> as_global := as_global st2 + 1,
                               as_stream_permits := (user_id, hash) # as_stream_permits st2 \<rparr>))"

definition drop_stream_permit :: "stream_permit \<Rightarrow> asset_state \<Rightarrow> asset_state" where
  "drop_stream_permit p st =
    st \<lparr> as_global := fetch_sub (as_global st) 1, as_hashes := arc_release (snd p) (as_hashes st),
         as_users := release_user (fst p) (as_users st),
         as_stream_permits := remove1 p (as_stream_permits st) \<rparr>"

definition drop_request_permit :: "request_permit \<Rightarrow> asset_state \<Rightarrow> asset_state" where
  "drop_request_permit p st =
    (let (hashes, distinct_count) = release_distinct (snd p) (as_request_hashes st) (as_request_hash_count st)
     in st \<lparr> as_requests := fetch_sub (as_requests st) 1, as_request_hashes := hashes,
             as_request_hash_count := distinct_count,
             as_sources := arc_release (fst p) (as_sources st),
             as_request_permits := remove1 p (as_request_permits st) \<rparr>)"

inductive asset_step :: "asset_state \<Rightarrow> asset_state \<Rightarrow> bool" where
  acquire: "try_acquire user hash st = (r, st') \<Longrightarrow> asset_step st st'"
| acquire_request: "try_acquire_request source hash st = (q, st') \<Longrightarrow> asset_step st st'"
| drop_stream: "p \<in> set (as_stream_permits st) \<Longrightarrow> asset_step st (drop_stream_permit p st)"
| drop_request: "q \<in> set (as_request_permits st) \<Longrightarrow> asset_step st (drop_request_permit q st)"

section \<open>Invariants\<close>

definition stream_inv :: "asset_state \<Rightarrow> bool" where
  "stream_inv st \<longleftrightarrow> as_global st = length (as_stream_permits st)
     \<and> as_global st \<le> MAX_GLOBAL_STREAMS
     \<and> as_users st = tally (List.map_filter fst (as_stream_permits st))
     \<and> as_hashes st = tally (map snd (as_stream_permits st))
     \<and> within (\<lambda>_. MAX_PER_USER_STREAMS) (List.map_filter fst (as_stream_permits st))
     \<and> within (\<lambda>_. MAX_PER_HASH_STREAMS) (map snd (as_stream_permits st))"

definition request_inv :: "asset_state \<Rightarrow> bool" where
  "request_inv st \<longleftrightarrow> as_requests st = length (as_request_permits st)
     \<and> as_requests st \<le> MAX_ACTIVE_REQUESTS
     \<and> as_sources st = tally (map fst (as_request_permits st))
     \<and> as_request_hashes st = tally (map snd (as_request_permits st))
     \<and> as_request_hash_count st = card (set (map snd (as_request_permits st)))
     \<and> as_request_hash_count st \<le> MAX_DISTINCT_REQUEST_HASHES
     \<and> within (\<lambda>_. MAX_PER_SOURCE_REQUESTS) (map fst (as_request_permits st))
     \<and> within (\<lambda>_. MAX_PER_HASH_REQUESTS) (map snd (as_request_permits st))"

definition asset_inv :: "asset_state \<Rightarrow> bool" where
  "asset_inv st \<longleftrightarrow> stream_inv st \<and> request_inv st"

lemma asset_limits_pos:
  "0 < MAX_PER_USER_STREAMS" "0 < MAX_PER_HASH_STREAMS" "0 < MAX_PER_SOURCE_REQUESTS"
  "0 < MAX_PER_HASH_REQUESTS"
  by (simp_all add: MAX_PER_USER_STREAMS_def MAX_PER_HASH_STREAMS_def MAX_PER_SOURCE_REQUESTS_def
      MAX_PER_HASH_REQUESTS_def)

lemma fetch_sub_exact [simp]: "amount \<le> n \<Longrightarrow> fetch_sub n amount = n - amount"
  by (simp add: fetch_sub_def)

text \<open>The permit keys with one more user, when there is one.\<close>

lemma map_filter_Cons_fst:
  "List.map_filter fst ((user, hash) # ps) =
     (case user of None \<Rightarrow> List.map_filter fst ps | Some u \<Rightarrow> u # List.map_filter fst ps)"
  by (simp add: map_filter_simps split: option.splits)

definition stream_full :: "uuid option \<Rightarrow> ustr \<Rightarrow> asset_state \<Rightarrow> bool" where
  "stream_full user hash st \<longleftrightarrow>
     (\<exists>u. user = Some u \<and> MAX_PER_USER_STREAMS \<le> count_list (List.map_filter fst (as_stream_permits st)) u)
     \<or> MAX_PER_HASH_STREAMS \<le> count_list (map snd (as_stream_permits st)) hash
     \<or> MAX_GLOBAL_STREAMS \<le> length (as_stream_permits st)"

lemma try_acquire_effect:
  assumes "stream_inv st"
  shows "try_acquire user hash st =
    (if stream_full user hash st then (None, st)
     else (Some (user, hash),
       st \<lparr> as_users := tally (List.map_filter fst ((user, hash) # as_stream_permits st)),
            as_hashes := tally (map snd ((user, hash) # as_stream_permits st)),
            as_global := Suc (length (as_stream_permits st)),
            as_stream_permits := (user, hash) # as_stream_permits st \<rparr>))"
proof -
  have inv: "as_global st = length (as_stream_permits st)"
    "as_users st = tally (List.map_filter fst (as_stream_permits st))"
    "as_hashes st = tally (map snd (as_stream_permits st))"
    using assms by (simp_all add: stream_inv_def)
  note u = arc_increment_tally [OF asset_limits_pos(1)] and h = arc_increment_tally [OF asset_limits_pos(2)]
  show ?thesis
    using inv
    by (cases st; cases user)
      (auto simp: try_acquire_def Let_def stream_full_def u h arc.rel_inc release_user_def map_filter_Cons_fst)
qed

lemma stream_inv_acquire:
  assumes "stream_inv st" "try_acquire user hash st = (r, st')"
  shows "stream_inv st'"
proof (cases "stream_full user hash st")
  case True
  with assms show ?thesis by (simp add: try_acquire_effect)
next
  case False
  then have "within (\<lambda>_. MAX_PER_USER_STREAMS) (List.map_filter fst ((user, hash) # as_stream_permits st))"
    "within (\<lambda>_. MAX_PER_HASH_STREAMS) (map snd ((user, hash) # as_stream_permits st))"
    "Suc (length (as_stream_permits st)) \<le> MAX_GLOBAL_STREAMS"
    using assms(1) by (auto simp: stream_inv_def stream_full_def map_filter_Cons_fst intro!: within_Cons split: option.split)
  with False assms show ?thesis by (auto simp: try_acquire_effect stream_inv_def)
qed

lemma release_user_tally:
  assumes "p \<in> set ps"
  shows "release_user (fst p) (tally (List.map_filter fst ps)) = tally (List.map_filter fst (remove1 p ps))"
  using assms
  by (auto simp: release_user_def tally_map_filter_remove1 arc.rel_tally in_map_filter split: option.split)

lemma stream_inv_drop:
  assumes "stream_inv st" "p \<in> set (as_stream_permits st)"
  shows "stream_inv (drop_stream_permit p st)"
proof -
  obtain n where "length (as_stream_permits st) = Suc n" using assms(2) by (cases "as_stream_permits st") auto
  then show ?thesis
    using assms arc.rel_permit [OF assms(2), of snd] release_user_tally [OF assms(2)]
    by (simp add: stream_inv_def drop_stream_permit_def within_map_remove1 within_map_filter_remove1
        length_remove1)
qed

lemma increment_distinct_tally:
  assumes "0 < per_key"
  shows "increment_distinct_bounded per_key distinct_limit k (tally ks) (card (set ks)) =
    (if count_list ks k < per_key \<and> (k \<in> set ks \<or> card (set ks) < distinct_limit)
     then (True, tally (k # ks), card (set (k # ks))) else (False, tally ks, card (set ks)))"
  using assms count_list_0_iff [of ks k]
  by (auto simp: increment_distinct_bounded_def tally_Cons) (auto simp: tally_def insert_absorb)

lemma set_remove1_count: "set (remove1 k ks) = (if count_list ks k \<le> 1 then set ks - {k} else set ks)"
  using count_list_0_iff [of "remove1 k ks"] count_list_0_iff [of ks]
  by (force simp: set_eq_iff count_list_remove1 split: if_splits)

lemma release_distinct_tally:
  assumes "k \<in> set ks"
  shows "release_distinct k (tally ks) (card (set ks)) = (tally (remove1 k ks), card (set (remove1 k ks)))"
proof -
  have pos: "0 < count_list ks k" using assms count_list_0_iff [of ks k] by (cases "count_list ks k") auto
  have "0 < card (set ks)" using assms by (auto simp: card_gt_0_iff)
  then show ?thesis
    using pos assms
    by (auto simp: release_distinct_def tally_def fun_eq_iff count_list_remove1 set_remove1_count)
qed

definition request_full :: "ustr \<Rightarrow> ustr \<Rightarrow> asset_state \<Rightarrow> bool" where
  "request_full source hash st \<longleftrightarrow> MAX_ACTIVE_REQUESTS \<le> length (as_request_permits st)
     \<or> MAX_PER_SOURCE_REQUESTS \<le> count_list (map fst (as_request_permits st)) source
     \<or> MAX_PER_HASH_REQUESTS \<le> count_list (map snd (as_request_permits st)) hash
     \<or> (hash \<notin> set (map snd (as_request_permits st))
        \<and> MAX_DISTINCT_REQUEST_HASHES \<le> card (set (map snd (as_request_permits st))))"

lemma try_acquire_request_effect:
  assumes "request_inv st"
  shows "try_acquire_request source hash st =
    (if request_full source hash st then (None, st)
     else (Some (source, hash),
       st \<lparr> as_requests := Suc (length (as_request_permits st)),
            as_sources := tally (map fst ((source, hash) # as_request_permits st)),
            as_request_hashes := tally (map snd ((source, hash) # as_request_permits st)),
            as_request_hash_count := card (set (map snd ((source, hash) # as_request_permits st))),
            as_request_permits := (source, hash) # as_request_permits st \<rparr>))"
proof -
  have inv: "as_requests st = length (as_request_permits st)"
    "as_sources st = tally (map fst (as_request_permits st))"
    "as_request_hashes st = tally (map snd (as_request_permits st))"
    "as_request_hash_count st = card (set (map snd (as_request_permits st)))"
    using assms by (simp_all add: request_inv_def)
  note s = arc_increment_tally [OF asset_limits_pos(3)]
  note h = increment_distinct_tally [OF asset_limits_pos(4), of MAX_DISTINCT_REQUEST_HASHES hash
      "map snd (as_request_permits st)"]
  show ?thesis
    using inv h
    by (cases st) (auto simp: try_acquire_request_def Let_def request_full_def s arc.rel_inc)
qed

lemma request_inv_acquire:
  assumes "request_inv st" "try_acquire_request source hash st = (r, st')"
  shows "request_inv st'"
proof (cases "request_full source hash st")
  case True
  with assms show ?thesis by (simp add: try_acquire_request_effect)
next
  case False
  then have "within (\<lambda>_. MAX_PER_SOURCE_REQUESTS) (map fst ((source, hash) # as_request_permits st))"
    "within (\<lambda>_. MAX_PER_HASH_REQUESTS) (map snd ((source, hash) # as_request_permits st))"
    "Suc (length (as_request_permits st)) \<le> MAX_ACTIVE_REQUESTS"
    "card (set (map snd ((source, hash) # as_request_permits st))) \<le> MAX_DISTINCT_REQUEST_HASHES"
    using assms(1)
    by (auto simp: request_inv_def request_full_def card_insert_if intro!: within_Cons)
  with False assms show ?thesis by (auto simp: try_acquire_request_effect request_inv_def)
qed

lemma request_inv_drop:
  assumes "request_inv st" "p \<in> set (as_request_permits st)"
  shows "request_inv (drop_request_permit p st)"
proof -
  obtain n where n: "length (as_request_permits st) = Suc n" using assms(2) by (cases "as_request_permits st") auto
  have k: "snd p \<in> set (map snd (as_request_permits st))" using assms(2) by simp
  have keys: "set (map snd (remove1 p (as_request_permits st))) = set (remove1 (snd p) (map snd (as_request_permits st)))"
    using tally_map_remove1 [OF assms(2), of snd] by (metis dom_tally)
  have "card (set (map snd (remove1 p (as_request_permits st)))) \<le> card (set (map snd (as_request_permits st)))"
    by (rule card_mono) (auto dest: set_remove1_subset [THEN subsetD])
  then show ?thesis
    using assms n arc.rel_permit [OF assms(2), of fst] release_distinct_tally [OF k] keys
      tally_map_remove1 [OF assms(2), of snd]
    by (simp add: request_inv_def drop_request_permit_def within_map_remove1 length_remove1)
qed

lemma stream_inv_cong:
  "as_global st' = as_global st \<Longrightarrow> as_users st' = as_users st \<Longrightarrow> as_hashes st' = as_hashes st \<Longrightarrow>
     as_stream_permits st' = as_stream_permits st \<Longrightarrow> stream_inv st' = stream_inv st"
  by (simp add: stream_inv_def)

lemma request_inv_cong:
  "as_requests st' = as_requests st \<Longrightarrow> as_sources st' = as_sources st \<Longrightarrow>
     as_request_hashes st' = as_request_hashes st \<Longrightarrow> as_request_hash_count st' = as_request_hash_count st \<Longrightarrow>
     as_request_permits st' = as_request_permits st \<Longrightarrow> request_inv st' = request_inv st"
  by (simp add: request_inv_def)

lemma asset_inv_step:
  assumes "asset_inv st" "asset_step st st'"
  shows "asset_inv st'"
  using assms(2,1)
proof (cases rule: asset_step.cases)
  case (acquire user hash r)
  then have "stream_inv st'" using assms(1) stream_inv_acquire unfolding asset_inv_def by blast
  moreover have "request_inv st' = request_inv st"
    using acquire assms(1) by (intro request_inv_cong) (auto simp: asset_inv_def try_acquire_effect split: if_splits)
  ultimately show ?thesis using assms(1) by (simp add: asset_inv_def)
next
  case (acquire_request source hash q)
  then have "request_inv st'" using assms(1) request_inv_acquire unfolding asset_inv_def by blast
  moreover have "stream_inv st' = stream_inv st"
    using acquire_request assms(1)
    by (intro stream_inv_cong) (auto simp: asset_inv_def try_acquire_request_effect split: if_splits)
  ultimately show ?thesis using assms(1) by (simp add: asset_inv_def)
next
  case (drop_stream p)
  have "request_inv (drop_stream_permit p st) = request_inv st"
    by (rule request_inv_cong) (simp_all add: drop_stream_permit_def)
  with drop_stream assms(1) show ?thesis by (simp add: asset_inv_def stream_inv_drop)
next
  case (drop_request q)
  have "stream_inv (drop_request_permit q st) = stream_inv st"
    by (rule stream_inv_cong) (simp_all add: drop_request_permit_def case_prod_beta)
  with drop_request assms(1) show ?thesis by (simp add: asset_inv_def request_inv_drop)
qed

interpretation asset: step_system "\<lambda>st. st = asset_new" asset_step asset_inv
proof
  show "st = asset_new \<Longrightarrow> asset_inv st" for st
    by (simp add: asset_inv_def stream_inv_def request_inv_def asset_new_def map_filter_simps)
qed (rule asset_inv_step)

section \<open>Main results\<close>



text \<open>
  A refusal changes nothing and is justified: in every reachable state both calls return a permit
  exactly when none of their limits is reached, and otherwise roll every slot back, so that the
  state after a refused call is the state before it.
\<close>

theorem asset_refusal_rolls_back:
  assumes "asset_step\<^sup>*\<^sup>* asset_new st"
  shows "(case try_acquire user hash st of
            (None, st') \<Rightarrow> stream_full user hash st \<and> st' = st
          | (Some p, st') \<Rightarrow> \<not> stream_full user hash st \<and> p = (user, hash)
              \<and> as_stream_permits st' = p # as_stream_permits st)
    \<and> (case try_acquire_request source hash st of
            (None, st') \<Rightarrow> request_full source hash st \<and> st' = st
          | (Some q, st') \<Rightarrow> \<not> request_full source hash st \<and> q = (source, hash)
              \<and> as_request_permits st' = q # as_request_permits st)"
proof -
  have inv: "stream_inv st" "request_inv st" using asset.reachable_inv assms by (auto simp: asset_inv_def)
  show ?thesis
    unfolding try_acquire_effect [OF inv(1)] try_acquire_request_effect [OF inv(2)] by simp
qed

theorem asset_refusal_rolls_back_witness:
  "case try_acquire None (lit ''h'') asset_new of
     (None, st') \<Rightarrow> False | (Some p, st') \<Rightarrow> p = (None, lit ''h'') \<and> as_stream_permits st' = [p]"
proof -
  have "\<not> stream_full None (lit ''h'') asset_new"
    by (simp add: stream_full_def asset_new_def MAX_PER_HASH_STREAMS_def MAX_GLOBAL_STREAMS_def)
  moreover have "as_stream_permits asset_new = []" by (simp add: asset_new_def)
  ultimately show ?thesis
    using asset_refusal_rolls_back [of asset_new None "lit ''h''" "[]"]
    by (cases "try_acquire None (lit ''h'') asset_new") (auto split: option.splits)
qed

end
