(* ===== verification/Proxy_Admission.thy ===== *)
theory Proxy_Admission
  imports Admission_Core
begin

text \<open>
  Admission of proxied connections to workloads, from \<^verbatim>\<open>src/services/proxy_admission.rs\<close>: a
  process-wide counter and five keyed tables (user, source address, scope, event, workload), taken
  in this order with a rollback on refusal, and the durable leases that the replicas share.
  Calls are modelled one after the other; an address is its canonical text.
\<close>

definition MAX_PER_USER :: nat where "MAX_PER_USER = 4"
definition MAX_PER_PARTICIPATION :: nat where "MAX_PER_PARTICIPATION = 16"
definition MAX_PER_PREVIEW :: nat where "MAX_PER_PREVIEW = 8"
definition MAX_PER_SSH_SCOPE :: nat where "MAX_PER_SSH_SCOPE = 5"
definition MAX_PER_WORKLOAD :: nat where "MAX_PER_WORKLOAD = 64"
definition MAX_PER_SOURCE :: nat where "MAX_PER_SOURCE = 32"
definition MAX_PER_EVENT :: nat where "MAX_PER_EVENT = 128"
definition MAX_GLOBAL :: nat where "MAX_GLOBAL = 256"

lemmas proxy_limits = MAX_PER_USER_def MAX_PER_PARTICIPATION_def MAX_PER_PREVIEW_def
  MAX_PER_SSH_SCOPE_def MAX_PER_WORKLOAD_def MAX_PER_SOURCE_def MAX_PER_EVENT_def MAX_GLOBAL_def

datatype admission_scope = Participation int | Exercise int | Preview uuid | Ssh int

record proxy_permit =
  pp_user :: uuid
  pp_scope :: admission_scope
  pp_source :: ustr
  pp_event :: "int option"
  pp_workload :: uuid

record proxy_state =
  px_global :: nat
  px_users :: "uuid \<rightharpoonup> nat"
  px_scopes :: "admission_scope \<rightharpoonup> nat"
  px_sources :: "ustr \<rightharpoonup> nat"
  px_events :: "int \<rightharpoonup> nat"
  px_workloads :: "uuid \<rightharpoonup> nat"
  px_permits :: "proxy_permit list"

definition proxy_new :: proxy_state where
  "proxy_new = \<lparr> px_global = 0, px_users = Map.empty, px_scopes = Map.empty, px_sources = Map.empty,
     px_events = Map.empty, px_workloads = Map.empty, px_permits = [] \<rparr>"

definition increment_counter :: "nat \<Rightarrow> nat \<Rightarrow> nat option" where
  "increment_counter value limit = (if value < limit then Some (value + 1) else None)"

definition release_event :: "int option \<Rightarrow> (int \<rightharpoonup> nat) \<Rightarrow> (int \<rightharpoonup> nat)" where
  "release_event event events = (case event of None \<Rightarrow> events | Some e \<Rightarrow> arc_release e events)"

text \<open>
  The early return on the user limit leaves the global counter incremented: the model follows
  the source line by line.
\<close>

definition try_acquire_scope ::
  "uuid \<Rightarrow> admission_scope \<Rightarrow> int option \<Rightarrow> uuid \<Rightarrow> ustr \<Rightarrow> nat \<times> nat \<Rightarrow> proxy_state
    \<Rightarrow> proxy_permit option \<times> proxy_state" where
  "try_acquire_scope user_id scope event_id workload_id source_ip limits st =
    (let (scope_limit, user_limit) = limits in
     case increment_counter (px_global st) MAX_GLOBAL of
       None \<Rightarrow> (None, st)
     | Some global \<Rightarrow>
    let st = st \<lparr> px_global := global \<rparr> in
     case arc_increment user_limit user_id (px_users st) of
       (False, users) \<Rightarrow> (None, st \<lparr> px_users := users \<rparr>)
     | (True, users) \<Rightarrow>
    let st = st \<lparr> px_users := users \<rparr> in
     case arc_increment MAX_PER_SOURCE source_ip (px_sources st) of
       (False, sources) \<Rightarrow>
         (None, st \<lparr> px_sources := sources, px_users := arc_release user_id (px_users st),
                     px_global := fetch_sub (px_global st) 1 \<rparr>)
     | (True, sources) \<Rightarrow>
    let st = st \<lparr> px_sources := sources \<rparr> in
     case arc_increment scope_limit scope (px_scopes st) of
       (False, scopes) \<Rightarrow>
         (None, st \<lparr> px_scopes := scopes, px_sources := arc_release source_ip (px_sources st),
                     px_users := arc_release user_id (px_users st),
                     px_global := fetch_sub (px_global st) 1 \<rparr>)
     | (True, scopes) \<Rightarrow>
    let st = st \<lparr> px_scopes := scopes \<rparr> in
     case (case event_id of
             Some e \<Rightarrow> arc_increment MAX_PER_EVENT e (px_events st)
           | None \<Rightarrow> (True, px_events st)) of
       (False, events) \<Rightarrow>
         (None, st \<lparr> px_events := events, px_scopes := arc_release scope (px_scopes st),
                     px_sources := arc_release source_ip (px_sources st),
                     px_users := arc_release user_id (px_users st),
                     px_global := fetch_sub (px_global st) 1 \<rparr>)
     | (True, events) \<Rightarrow>
    let st = st \<lparr> px_events := events \<rparr> in
     case arc_increment MAX_PER_WORKLOAD workload_id (px_workloads st) of
       (False, workloads) \<Rightarrow>
         (None, st \<lparr> px_workloads := workloads, px_events := release_event event_id (px_events st),
                     px_scopes := arc_release scope (px_scopes st),
                     px_sources := arc_release source_ip (px_sources st),
                     px_users := arc_release user_id (px_users st),
                     px_global := fetch_sub (px_global st) 1 \<rparr>)
     | (True, workloads) \<Rightarrow>
         (let permit = \<lparr> pp_user = user_id, pp_scope = scope, pp_source = source_ip,
                         pp_event = event_id, pp_workload = workload_id \<rparr>
          in (Some permit, st \<lparr> px_workloads := workloads, px_permits := permit # px_permits st \<rparr>)))"

definition proxy_try_acquire ::
  "uuid \<Rightarrow> int \<Rightarrow> int \<Rightarrow> uuid \<Rightarrow> ustr \<Rightarrow> proxy_state \<Rightarrow> proxy_permit option \<times> proxy_state" where
  "proxy_try_acquire user_id participation_id game_id workload_id source_ip =
    try_acquire_scope user_id (Participation participation_id) (Some game_id) workload_id source_ip
      (MAX_PER_PARTICIPATION, MAX_PER_USER)"

definition try_acquire_exercise ::
  "uuid \<Rightarrow> int \<Rightarrow> uuid \<Rightarrow> ustr \<Rightarrow> proxy_state \<Rightarrow> proxy_permit option \<times> proxy_state" where
  "try_acquire_exercise user_id exercise_instance_id workload_id source_ip =
    try_acquire_scope user_id (Exercise exercise_instance_id) None workload_id source_ip
      (MAX_PER_PARTICIPATION, MAX_PER_USER)"

definition try_acquire_preview ::
  "uuid \<Rightarrow> uuid \<Rightarrow> ustr \<Rightarrow> proxy_state \<Rightarrow> proxy_permit option \<times> proxy_state" where
  "try_acquire_preview user_id container_id source_ip =
    try_acquire_scope user_id (Preview container_id) None container_id source_ip
      (MAX_PER_PREVIEW, MAX_PER_USER)"

text \<open>The local part of \<open>try_acquire_ssh_distributed\<close>.\<close>

definition try_acquire_ssh ::
  "uuid \<Rightarrow> int \<Rightarrow> int \<Rightarrow> uuid \<Rightarrow> ustr \<Rightarrow> proxy_state \<Rightarrow> proxy_permit option \<times> proxy_state" where
  "try_acquire_ssh subject_id participation_id game_id workload_id source_ip =
    try_acquire_scope subject_id (Ssh participation_id) (Some game_id) workload_id source_ip
      (MAX_PER_SSH_SCOPE, MAX_PER_SSH_SCOPE)"

definition drop_proxy_permit :: "proxy_permit \<Rightarrow> proxy_state \<Rightarrow> proxy_state" where
  "drop_proxy_permit p st =
    st \<lparr> px_workloads := arc_release (pp_workload p) (px_workloads st),
         px_events := release_event (pp_event p) (px_events st),
         px_scopes := arc_release (pp_scope p) (px_scopes st),
         px_sources := arc_release (pp_source p) (px_sources st),
         px_users := arc_release (pp_user p) (px_users st),
         px_global := fetch_sub (px_global st) 1,
         px_permits := remove1 p (px_permits st) \<rparr>"

inductive proxy_step :: "proxy_state \<Rightarrow> proxy_state \<Rightarrow> bool" where
  participation: "proxy_try_acquire u pid g w ip st = (r, st') \<Longrightarrow> proxy_step st st'"
| exercise: "try_acquire_exercise u x w ip st = (r, st') \<Longrightarrow> proxy_step st st'"
| preview: "try_acquire_preview u c ip st = (r, st') \<Longrightarrow> proxy_step st st'"
| ssh: "try_acquire_ssh u pid g w ip st = (r, st') \<Longrightarrow> proxy_step st st'"
| drop: "p \<in> set (px_permits st) \<Longrightarrow> proxy_step st (drop_proxy_permit p st)"

section \<open>Durable leases\<close>

text \<open>
  \<open>attach_distributed\<close> runs in one transaction under an advisory lock, against the lease table and
  the per-second budgets of openings. Times are microseconds, and one reading of the clock serves
  the whole transaction. \<open>None\<close> is every way of not committing: nothing is written then, and the
  local permit is dropped.
\<close>

record lease_row =
  lr_lease_id :: uuid
  lr_user_id :: uuid
  lr_scope_kind :: int
  lr_scope_id :: ustr
  lr_source_ip :: ustr
  lr_event_id :: "int option"
  lr_workload_id :: uuid
  lr_expires_at :: int

record lease_db =
  ld_leases :: "lease_row list"
  ld_budgets :: "int \<times> ustr \<rightharpoonup> nat"

definition open_budget :: "int \<Rightarrow> ustr \<Rightarrow> nat \<Rightarrow> (int \<times> ustr \<rightharpoonup> nat) \<Rightarrow> bool \<times> (int \<times> ustr \<rightharpoonup> nat)" where
  "open_budget second key limit budgets =
    (case budgets (second, key) of
       None \<Rightarrow> (True, budgets((second, key) \<mapsto> 1))
     | Some n \<Rightarrow> if n < limit then (True, budgets((second, key) \<mapsto> n + 1)) else (False, budgets))"

definition attach_distributed ::
  "bool \<Rightarrow> int \<Rightarrow> lease_row \<Rightarrow> nat \<Rightarrow> nat \<Rightarrow> lease_db \<Rightarrow> lease_db option" where
  "attach_distributed locked now row scope_limit user_limit db =
    (if \<not> locked then None
     else let leases = filter (\<lambda>r. \<not> lr_expires_at r \<le> now) (ld_leases db);
              budgets = (\<lambda>(start, key). if start < now - 120000000 then None else ld_budgets db (start, key));
              second = now - now mod 1000000;
              (global_open, budgets1) = open_budget second (lit ''*'') 128 budgets;
              (source_open, budgets2) = open_budget second (lr_source_ip row) 32 budgets1
          in if \<not> (global_open \<and> source_open) then None
             else if MAX_GLOBAL \<le> length leases
               \<or> user_limit \<le> length (filter (\<lambda>r. lr_user_id r = lr_user_id row) leases)
               \<or> scope_limit \<le> length (filter (\<lambda>r. lr_scope_kind r = lr_scope_kind row
                                            \<and> lr_scope_id r = lr_scope_id row) leases)
               \<or> MAX_PER_SOURCE \<le> length (filter (\<lambda>r. lr_source_ip r = lr_source_ip row) leases)
               \<or> (lr_event_id row \<noteq> None
                   \<and> MAX_PER_EVENT \<le> length (filter (\<lambda>r. lr_event_id r = lr_event_id row) leases))
               \<or> MAX_PER_WORKLOAD \<le> length (filter (\<lambda>r. lr_workload_id r = lr_workload_id row) leases)
             then None
             else Some \<lparr> ld_leases = row \<lparr> lr_expires_at := now + 1860000000 \<rparr> # leases,
                         ld_budgets = budgets2 \<rparr>)"

definition delete_lease :: "uuid \<Rightarrow> lease_db \<Rightarrow> lease_db" where
  "delete_lease lease_id db = db \<lparr> ld_leases := filter (\<lambda>r. lr_lease_id r \<noteq> lease_id) (ld_leases db) \<rparr>"

text \<open>The distributed acquisition: the local permit first, then the lease, whose failure drops the permit.\<close>

definition attach_or_drop ::
  "bool \<Rightarrow> int \<Rightarrow> lease_row \<Rightarrow> nat \<Rightarrow> nat \<Rightarrow> proxy_permit option \<times> proxy_state \<Rightarrow> lease_db
    \<Rightarrow> proxy_permit option \<times> proxy_state \<times> lease_db" where
  "attach_or_drop locked now row scope_limit user_limit acquired db =
    (case acquired of
       (None, st) \<Rightarrow> (None, st, db)
     | (Some permit, st) \<Rightarrow>
         (case attach_distributed locked now row scope_limit user_limit db of
            None \<Rightarrow> (None, drop_proxy_permit permit st, db)
          | Some db' \<Rightarrow> (Some permit, st, db')))"

definition try_acquire_distributed ::
  "bool \<Rightarrow> int \<Rightarrow> uuid \<Rightarrow> uuid \<Rightarrow> int \<Rightarrow> int \<Rightarrow> uuid \<Rightarrow> ustr \<Rightarrow> proxy_state \<Rightarrow> lease_db
    \<Rightarrow> proxy_permit option \<times> proxy_state \<times> lease_db" where
  "try_acquire_distributed locked now lease_id user_id participation_id game_id workload_id source_ip st db =
    attach_or_drop locked now
      \<lparr> lr_lease_id = lease_id, lr_user_id = user_id, lr_scope_kind = 0,
        lr_scope_id = int_display participation_id, lr_source_ip = source_ip,
        lr_event_id = Some game_id, lr_workload_id = workload_id, lr_expires_at = 0 \<rparr>
      MAX_PER_PARTICIPATION MAX_PER_USER
      (proxy_try_acquire user_id participation_id game_id workload_id source_ip st) db"

definition try_acquire_exercise_distributed ::
  "bool \<Rightarrow> int \<Rightarrow> uuid \<Rightarrow> uuid \<Rightarrow> int \<Rightarrow> uuid \<Rightarrow> ustr \<Rightarrow> proxy_state \<Rightarrow> lease_db
    \<Rightarrow> proxy_permit option \<times> proxy_state \<times> lease_db" where
  "try_acquire_exercise_distributed locked now lease_id user_id exercise_instance_id workload_id source_ip st db =
    attach_or_drop locked now
      \<lparr> lr_lease_id = lease_id, lr_user_id = user_id, lr_scope_kind = 1,
        lr_scope_id = int_display exercise_instance_id, lr_source_ip = source_ip,
        lr_event_id = None, lr_workload_id = workload_id, lr_expires_at = 0 \<rparr>
      MAX_PER_PARTICIPATION MAX_PER_USER
      (try_acquire_exercise user_id exercise_instance_id workload_id source_ip st) db"

definition try_acquire_preview_distributed ::
  "(uuid \<Rightarrow> ustr) \<Rightarrow> bool \<Rightarrow> int \<Rightarrow> uuid \<Rightarrow> uuid \<Rightarrow> uuid \<Rightarrow> ustr \<Rightarrow> proxy_state \<Rightarrow> lease_db
    \<Rightarrow> proxy_permit option \<times> proxy_state \<times> lease_db" where
  "try_acquire_preview_distributed uuid_to_string locked now lease_id user_id container_id source_ip st db =
    attach_or_drop locked now
      \<lparr> lr_lease_id = lease_id, lr_user_id = user_id, lr_scope_kind = 2,
        lr_scope_id = uuid_to_string container_id, lr_source_ip = source_ip,
        lr_event_id = None, lr_workload_id = container_id, lr_expires_at = 0 \<rparr>
      MAX_PER_PREVIEW MAX_PER_USER
      (try_acquire_preview user_id container_id source_ip st) db"

definition try_acquire_ssh_distributed ::
  "bool \<Rightarrow> int \<Rightarrow> uuid \<Rightarrow> uuid \<Rightarrow> int \<Rightarrow> int \<Rightarrow> uuid \<Rightarrow> ustr \<Rightarrow> proxy_state \<Rightarrow> lease_db
    \<Rightarrow> proxy_permit option \<times> proxy_state \<times> lease_db" where
  "try_acquire_ssh_distributed locked now lease_id subject_id participation_id game_id workload_id source_ip st db =
    attach_or_drop locked now
      \<lparr> lr_lease_id = lease_id, lr_user_id = subject_id, lr_scope_kind = 3,
        lr_scope_id = int_display participation_id, lr_source_ip = source_ip,
        lr_event_id = Some game_id, lr_workload_id = workload_id, lr_expires_at = 0 \<rparr>
      MAX_PER_SSH_SCOPE MAX_PER_SSH_SCOPE
      (try_acquire_ssh subject_id participation_id game_id workload_id source_ip st) db"

section \<open>The tables and the live permits\<close>

text \<open>The state in which the tables count the live permits \<open>ps\<close> and the global counter is \<open>g\<close>.\<close>

definition proxy_canon :: "nat \<Rightarrow> proxy_permit list \<Rightarrow> proxy_state" where
  "proxy_canon g ps =
    \<lparr> px_global = g, px_users = tally (map pp_user ps), px_scopes = tally (map pp_scope ps),
      px_sources = tally (map pp_source ps), px_events = tally (List.map_filter pp_event ps),
      px_workloads = tally (map pp_workload ps), px_permits = ps \<rparr>"

fun scope_cap :: "admission_scope \<Rightarrow> nat" where
  "scope_cap (Participation _) = MAX_PER_PARTICIPATION"
| "scope_cap (Exercise _) = MAX_PER_PARTICIPATION"
| "scope_cap (Preview _) = MAX_PER_PREVIEW"
| "scope_cap (Ssh _) = MAX_PER_SSH_SCOPE"

definition permits_ok :: "proxy_permit list \<Rightarrow> bool" where
  "permits_ok ps \<longleftrightarrow> within (\<lambda>_. MAX_PER_SSH_SCOPE) (map pp_user ps)
     \<and> within scope_cap (map pp_scope ps)
     \<and> within (\<lambda>_. MAX_PER_SOURCE) (map pp_source ps)
     \<and> within (\<lambda>_. MAX_PER_EVENT) (List.map_filter pp_event ps)
     \<and> within (\<lambda>_. MAX_PER_WORKLOAD) (map pp_workload ps)"

definition proxy_inv :: "proxy_state \<Rightarrow> bool" where
  "proxy_inv st \<longleftrightarrow> st = proxy_canon (px_global st) (px_permits st)
     \<and> length (px_permits st) \<le> px_global st \<and> px_global st \<le> MAX_GLOBAL \<and> permits_ok (px_permits st)"

text \<open>A later limit of the acquisition is reached: source, scope, event or workload.\<close>

definition later_full ::
  "admission_scope \<Rightarrow> int option \<Rightarrow> uuid \<Rightarrow> ustr \<Rightarrow> nat \<Rightarrow> proxy_permit list \<Rightarrow> bool" where
  "later_full scope event workload source scope_limit ps \<longleftrightarrow>
     MAX_PER_SOURCE \<le> count_list (map pp_source ps) source
     \<or> scope_limit \<le> count_list (map pp_scope ps) scope
     \<or> (\<exists>e. event = Some e \<and> MAX_PER_EVENT \<le> count_list (List.map_filter pp_event ps) e)
     \<or> MAX_PER_WORKLOAD \<le> count_list (map pp_workload ps) workload"

lemma fetch_sub_Suc [simp]: "fetch_sub (Suc n) (Suc 0) = n"
  by (simp add: fetch_sub_def)

lemma proxy_limits_pos: "0 < MAX_PER_SOURCE" "0 < MAX_PER_EVENT" "0 < MAX_PER_WORKLOAD"
  by (simp_all add: proxy_limits)

lemma map_filter_event:
  "List.map_filter pp_event (p # ps) =
     (case pp_event p of None \<Rightarrow> List.map_filter pp_event ps | Some e \<Rightarrow> e # List.map_filter pp_event ps)"
  by (simp add: map_filter_simps split: option.splits)

lemma try_acquire_scope_effect:
  assumes "0 < scope_limit" "0 < user_limit"
  shows "try_acquire_scope user scope event workload source (scope_limit, user_limit) (proxy_canon g ps) =
    (if MAX_GLOBAL \<le> g then (None, proxy_canon g ps)
     else if user_limit \<le> count_list (map pp_user ps) user then (None, proxy_canon (g + 1) ps)
     else if later_full scope event workload source scope_limit ps then (None, proxy_canon g ps)
     else let p = \<lparr> pp_user = user, pp_scope = scope, pp_source = source, pp_event = event, pp_workload = workload \<rparr>
          in (Some p, proxy_canon (g + 1) (p # ps)))"
proof -
  note inc = arc_increment_tally [OF assms(2)] arc_increment_tally [OF assms(1)]
    arc_increment_tally [OF proxy_limits_pos(1)] arc_increment_tally [OF proxy_limits_pos(2)]
    arc_increment_tally [OF proxy_limits_pos(3)]
  show ?thesis
    by (cases event)
      (auto simp: try_acquire_scope_def increment_counter_def proxy_canon_def later_full_def Let_def inc
        arc.rel_inc release_event_def map_filter_event not_less)
qed

lemma permits_ok_Cons:
  assumes "permits_ok ps" "\<not> user_limit \<le> count_list (map pp_user ps) (pp_user p)"
    "\<not> later_full (pp_scope p) (pp_event p) (pp_workload p) (pp_source p) (scope_cap (pp_scope p)) ps"
    "user_limit \<le> MAX_PER_SSH_SCOPE"
  shows "permits_ok (p # ps)"
  using assms
  by (auto simp: permits_ok_def later_full_def map_filter_event intro!: within_Cons split: option.split)

lemma proxy_inv_acquire:
  assumes inv: "proxy_inv st" and lim: "scope_limit = scope_cap scope" "0 < user_limit" "user_limit \<le> MAX_PER_SSH_SCOPE"
    and call: "try_acquire_scope user scope event workload source (scope_limit, user_limit) st = (r, st')"
  shows "proxy_inv st'"
proof -
  obtain g ps where st: "st = proxy_canon g ps" "length ps \<le> g" "g \<le> MAX_GLOBAL" "permits_ok ps"
    using inv unfolding proxy_inv_def by blast
  have pos: "0 < scope_limit" unfolding lim(1) by (cases scope) (simp_all add: proxy_limits)
  let ?p = "\<lparr> pp_user = user, pp_scope = scope, pp_source = source, pp_event = event, pp_workload = workload \<rparr>"
  have fields: "px_global (proxy_canon g ps) = g" "px_permits (proxy_canon g ps) = ps" for g ps
    by (simp_all add: proxy_canon_def)
  from call [unfolded st(1) try_acquire_scope_effect [OF pos lim(2)]] show ?thesis
    using st(2-4) permits_ok_Cons [OF st(4), of user_limit ?p] lim(3)
    by (auto simp: proxy_inv_def fields Let_def lim(1) split: if_splits)
qed

lemma release_event_tally:
  assumes "p \<in> set ps"
  shows "release_event (pp_event p) (tally (List.map_filter pp_event ps))
    = tally (List.map_filter pp_event (remove1 p ps))"
  using assms
  by (auto simp: release_event_def tally_map_filter_remove1 arc.rel_tally in_map_filter split: option.split)

lemma drop_canon:
  assumes "p \<in> set ps" "0 < g"
  shows "drop_proxy_permit p (proxy_canon g ps) = proxy_canon (g - 1) (remove1 p ps)"
  using assms(2) by (simp add: drop_proxy_permit_def proxy_canon_def arc.rel_permit [OF assms(1)]
      release_event_tally [OF assms(1)] fetch_sub_def)

lemma proxy_inv_drop:
  assumes "proxy_inv st" "p \<in> set (px_permits st)"
  shows "proxy_inv (drop_proxy_permit p st)"
proof -
  obtain g ps where st: "st = proxy_canon g ps" "length ps \<le> g" "g \<le> MAX_GLOBAL" "permits_ok ps"
    using assms(1) unfolding proxy_inv_def by blast
  have p: "p \<in> set ps" using assms(2) st(1) by (simp add: proxy_canon_def)
  then have g: "0 < g" using st(2) by (cases ps) auto
  have ok: "permits_ok (remove1 p ps)"
    using st(4) p by (simp add: permits_ok_def within_map_remove1 within_map_filter_remove1)
  have "length (remove1 p ps) \<le> g - 1" using st(2) p by (simp add: length_remove1)
  then show ?thesis
    using st(3) ok unfolding st(1) drop_canon [OF p g] by (simp add: proxy_inv_def proxy_canon_def)
qed

interpretation proxy: step_system "\<lambda>st. st = proxy_new" proxy_step proxy_inv
proof
  show "st = proxy_new \<Longrightarrow> proxy_inv st" for st
    by (simp add: proxy_inv_def proxy_canon_def proxy_new_def permits_ok_def map_filter_simps)
  fix st st' assume inv: "proxy_inv st" and "proxy_step st st'"
  from this(2) show "proxy_inv st'"
  proof cases
    case (drop p)
    with inv show ?thesis by (simp add: proxy_inv_drop)
  qed (auto simp: proxy_try_acquire_def try_acquire_exercise_def try_acquire_preview_def try_acquire_ssh_def
      intro: proxy_inv_acquire [OF inv, rotated 3] simp: proxy_limits)
qed

section \<open>Leases\<close>

text \<open>What the lease table promises: the number of rows of each kind stays within its limit.\<close>

definition lease_inv :: "lease_db \<Rightarrow> bool" where
  "lease_inv db \<longleftrightarrow> length (ld_leases db) \<le> MAX_GLOBAL
     \<and> (\<forall>u. length (filter (\<lambda>r. lr_user_id r = u) (ld_leases db)) \<le> MAX_PER_SSH_SCOPE)
     \<and> (\<forall>k s. length (filter (\<lambda>r. lr_scope_kind r = k \<and> lr_scope_id r = s) (ld_leases db)) \<le> MAX_PER_PARTICIPATION)
     \<and> (\<forall>ip. length (filter (\<lambda>r. lr_source_ip r = ip) (ld_leases db)) \<le> MAX_PER_SOURCE)
     \<and> (\<forall>e. length (filter (\<lambda>r. lr_event_id r = Some e) (ld_leases db)) \<le> MAX_PER_EVENT)
     \<and> (\<forall>w. length (filter (\<lambda>r. lr_workload_id r = w) (ld_leases db)) \<le> MAX_PER_WORKLOAD)"

lemma length_filter_filter_le: "length (filter P (filter Q xs)) \<le> length (filter P xs)"
  by (induction xs) auto

lemma lease_inv_filter:
  assumes "lease_inv db"
  shows "lease_inv (db \<lparr> ld_leases := filter Q (ld_leases db) \<rparr>)"
  using assms unfolding lease_inv_def
  by (auto intro: order_trans [OF length_filter_filter_le] order_trans [OF length_filter_le]
      simp del: filter_filter)

lemma attach_lease_inv:
  assumes inv: "lease_inv db" and att: "attach_distributed locked now row scope_limit user_limit db = Some db'"
    and lim: "scope_limit \<le> MAX_PER_PARTICIPATION" "user_limit \<le> MAX_PER_SSH_SCOPE"
  shows "lease_inv db'"
proof -
  let ?live = "filter (\<lambda>r. \<not> lr_expires_at r \<le> now) (ld_leases db)"
  have old: "lease_inv (db \<lparr> ld_leases := ?live \<rparr>)" by (rule lease_inv_filter [OF inv])
  have db': "ld_leases db' = row \<lparr> lr_expires_at := now + 1860000000 \<rparr> # ?live"
    and guards: "\<not> MAX_GLOBAL \<le> length ?live"
      "\<not> user_limit \<le> length (filter (\<lambda>r. lr_user_id r = lr_user_id row) ?live)"
      "\<not> scope_limit \<le> length (filter (\<lambda>r. lr_scope_kind r = lr_scope_kind row \<and> lr_scope_id r = lr_scope_id row) ?live)"
      "\<not> MAX_PER_SOURCE \<le> length (filter (\<lambda>r. lr_source_ip r = lr_source_ip row) ?live)"
      "lr_event_id row \<noteq> None \<Longrightarrow>
         \<not> MAX_PER_EVENT \<le> length (filter (\<lambda>r. lr_event_id r = lr_event_id row) ?live)"
      "\<not> MAX_PER_WORKLOAD \<le> length (filter (\<lambda>r. lr_workload_id r = lr_workload_id row) ?live)"
    using att by (auto simp: attach_distributed_def Let_def split: if_splits prod.splits)
  show ?thesis
    using old guards lim unfolding lease_inv_def db' by auto
qed

section \<open>Main results\<close>


definition sample_permit :: proxy_permit where
  "sample_permit = \<lparr> pp_user = 7, pp_scope = Participation 2, pp_source = lit ''10.0.0.1'',
     pp_event = Some 3, pp_workload = 4 \<rparr>"

abbreviation sample_open :: "proxy_state \<Rightarrow> proxy_permit option \<times> proxy_state" where
  "sample_open \<equiv> proxy_try_acquire 7 2 3 4 (lit ''10.0.0.1'')"

lemma proxy_new_canon: "proxy_new = proxy_canon 0 []"
  by (simp add: proxy_new_def proxy_canon_def map_filter_simps)

lemma sample_fields:
  "pp_user sample_permit = 7" "pp_scope sample_permit = Participation 2"
  "pp_source sample_permit = lit ''10.0.0.1''" "pp_event sample_permit = Some 3" "pp_workload sample_permit = 4"
  by (simp_all add: sample_permit_def)

lemma sample_opens: "n \<le> 4 \<Longrightarrow> proxy_step\<^sup>*\<^sup>* proxy_new (proxy_canon n (replicate n sample_permit))"
proof (induction n)
  case (Suc n)
  have le: "count_list (map f (replicate n sample_permit)) x \<le> n" for f :: "proxy_permit \<Rightarrow> 'b" and x
    using count_list_le_length [of "map f (replicate n sample_permit)" x] by simp
  have "\<not> later_full (Participation 2) (Some 3) 4 (lit ''10.0.0.1'') MAX_PER_PARTICIPATION (replicate n sample_permit)"
    using Suc.prems le [of pp_source "lit ''10.0.0.1''"] le [of pp_scope "Participation 2"]
      le [of pp_event "Some 3"] le [of pp_workload 4]
    by (simp add: later_full_def proxy_limits count_list_map_filter)
  moreover have "count_list (map pp_user (replicate n sample_permit)) 7 < MAX_PER_USER"
    using Suc.prems count_list_le_length [of "map pp_user (replicate n sample_permit)" 7]
    by (simp add: proxy_limits)
  ultimately have "sample_open (proxy_canon n (replicate n sample_permit)) =
      (Some sample_permit, proxy_canon (Suc n) (replicate (Suc n) sample_permit))"
    using Suc.prems
    by (simp add: proxy_try_acquire_def try_acquire_scope_effect Let_def sample_permit_def [symmetric] proxy_limits)
  then have "proxy_step (proxy_canon n (replicate n sample_permit)) (proxy_canon (Suc n) (replicate (Suc n) sample_permit))"
    by (rule proxy_step.participation)
  with Suc show ?case by (auto intro: rtranclp.rtrancl_into_rtrancl)
qed (simp add: proxy_new_canon)


text \<open>
  A refusal at the user limit leaks a slot: in a reachable state with a free global slot and a
  user who already holds the permitted number of connections, the refused call leaves the global
  counter one higher, with no permit that would ever release it; a call refused for a later limit
  restores the state exactly.
\<close>

theorem user_limit_refusal_leaks:
  assumes "proxy_step\<^sup>*\<^sup>* proxy_new st" "px_global st < MAX_GLOBAL"
  shows "if MAX_PER_USER \<le> count_list (map pp_user (px_permits st)) user
    then proxy_try_acquire user participation game workload source st
           = (None, st \<lparr> px_global := px_global st + 1 \<rparr>)
    else later_full (Participation participation) (Some game) workload source MAX_PER_PARTICIPATION (px_permits st)
      \<longrightarrow> proxy_try_acquire user participation game workload source st = (None, st)"
proof -
  have "proxy_inv st" using proxy.reachable_inv assms(1) by blast
  then obtain g ps where st: "st = proxy_canon g ps" unfolding proxy_inv_def by blast
  have pos: "0 < MAX_PER_PARTICIPATION" "0 < MAX_PER_USER" by (simp_all add: proxy_limits)
  show ?thesis
    using assms(2) unfolding st proxy_try_acquire_def try_acquire_scope_effect [OF pos]
    by (simp add: proxy_canon_def)
qed

lemma sample_leaks:
  "n \<le> 252 \<Longrightarrow> proxy_step\<^sup>*\<^sup>* proxy_new (proxy_canon (4 + n) (replicate 4 sample_permit))"
proof (induction n)
  case 0
  show ?case using sample_opens [of 4] by simp
next
  case (Suc n)
  have "count_list (map pp_user (replicate 4 sample_permit)) 7 = 4"
    by (simp add: numeral_eq_Suc sample_fields)
  then have "sample_open (proxy_canon (4 + n) (replicate 4 sample_permit)) =
      (None, proxy_canon (4 + Suc n) (replicate 4 sample_permit))"
    using Suc.prems by (simp add: proxy_try_acquire_def try_acquire_scope_effect proxy_limits)
  then have "proxy_step (proxy_canon (4 + n) (replicate 4 sample_permit)) (proxy_canon (4 + Suc n) (replicate 4 sample_permit))"
    by (rule proxy_step.participation)
  with Suc show ?case by (auto intro: rtranclp.rtrancl_into_rtrancl)
qed

theorem user_limit_refusal_leaks_witness:
  "\<exists>st. proxy_step\<^sup>*\<^sup>* proxy_new st \<and> px_global st = 4
     \<and> proxy_try_acquire 7 2 3 4 (lit ''10.0.0.1'') st = (None, st \<lparr> px_global := px_global st + 1 \<rparr>)"
proof -
  let ?st = "proxy_canon 4 (replicate 4 sample_permit)"
  have r: "proxy_step\<^sup>*\<^sup>* proxy_new ?st" using sample_opens by simp
  have "px_global ?st < MAX_GLOBAL" "MAX_PER_USER \<le> count_list (map pp_user (px_permits ?st)) 7"
    by (simp_all add: proxy_canon_def proxy_limits numeral_eq_Suc sample_fields)
  with user_limit_refusal_leaks [OF r, of 7 2 3 4 "lit ''10.0.0.1''"] r show ?thesis
    by (intro exI [of _ ?st]) (simp add: proxy_canon_def)
qed

text \<open>
  C38. One user can shut the proxy: a state is reachable in which only four connections are live, all of
  one user, and yet every opening of every kind, by anyone, is refused; and after these four are
  closed, with no connection live at all, the process-wide counter still stands at 252 of 256.
\<close>

theorem leaked_slots_exhaust_the_proxy:
  "\<exists>st. proxy_step\<^sup>*\<^sup>* proxy_new st \<and> px_permits st = replicate 4 sample_permit
     \<and> (\<forall>u scope event w ip limits. fst (try_acquire_scope u scope event w ip limits st) = None)
     \<and> (\<exists>st'. proxy_step\<^sup>*\<^sup>* st st' \<and> px_permits st' = [] \<and> px_global st' = 252)"
proof -
  let ?st = "proxy_canon 256 (replicate 4 sample_permit)"
  have r: "proxy_step\<^sup>*\<^sup>* proxy_new ?st" using sample_leaks [of 252] by simp
  have canon_fields: "px_permits (proxy_canon g ps) = ps" "px_global (proxy_canon g ps) = g" for g ps
    by (simp_all add: proxy_canon_def)
  have shut: "fst (try_acquire_scope u scope event w ip limits ?st) = None" for u scope event w ip limits
    by (simp add: try_acquire_scope_def increment_counter_def proxy_canon_def proxy_limits split: prod.split)
  have close: "n \<le> 4 \<Longrightarrow> proxy_step\<^sup>*\<^sup>* ?st (proxy_canon (256 - n) (replicate (4 - n) sample_permit))" for n
  proof (induction n)
    case (Suc n)
    then obtain k where k: "4 - n = Suc k" "3 - n = k" by (cases "4 - n") auto
    let ?s = "proxy_canon (256 - n) (replicate (4 - n) sample_permit)"
    have "proxy_step ?s (drop_proxy_permit sample_permit ?s)"
      by (rule proxy_step.drop) (simp add: proxy_canon_def k)
    also have "drop_proxy_permit sample_permit ?s = proxy_canon (256 - Suc n) (replicate (4 - Suc n) sample_permit)"
      using Suc.prems k by (simp add: drop_canon)
    finally show ?case using Suc by (auto intro: rtranclp.rtrancl_into_rtrancl)
  qed simp
  have "proxy_step\<^sup>*\<^sup>* ?st (proxy_canon 252 [])" using close [of 4] by simp
  then show ?thesis
    using r shut canon_fields by (intro exI [of _ ?st] conjI exI [of _ "proxy_canon 252 []"]) auto
qed



end
