(* ===== verification/Proxy_Traffic.thy ===== *)
theory Proxy_Traffic
  imports Proxy_Admission
begin

unbundle bit_operations_syntax

text \<open>
  Traffic budgets of proxied connections, from \<^verbatim>\<open>src/services/proxy_admission.rs\<close>: one-second
  windows that pack a 32-bit second and a 32-bit count into one 64-bit word, the session and
  process budgets of a frame with its rollback, the session's total, and the credit leased from the
  shared store. Each call is one step; the verdict of the shared store is an argument.
\<close>

definition PROCESS_BYTES_PER_SECOND :: nat where "PROCESS_BYTES_PER_SECOND = 64 * 1024 * 1024"
definition PROCESS_FRAMES_PER_SECOND :: nat where "PROCESS_FRAMES_PER_SECOND = 8192"
definition SESSION_BYTES_PER_SECOND :: nat where "SESSION_BYTES_PER_SECOND = 8 * 1024 * 1024"
definition SESSION_FRAMES_PER_SECOND :: nat where "SESSION_FRAMES_PER_SECOND = 1024"
definition SESSION_TOTAL_BYTES :: nat where "SESSION_TOTAL_BYTES = 256 * 1024 * 1024"
definition DISTRIBUTED_TRAFFIC_CREDIT_BYTES :: nat where "DISTRIBUTED_TRAFFIC_CREDIT_BYTES = 16 * 1024 * 1024"

lemmas traffic_limits = PROCESS_BYTES_PER_SECOND_def PROCESS_FRAMES_PER_SECOND_def
  SESSION_BYTES_PER_SECOND_def SESSION_FRAMES_PER_SECOND_def SESSION_TOTAL_BYTES_def

section \<open>Packed windows\<close>

definition pack_window :: "32 word \<Rightarrow> 32 word \<Rightarrow> 64 word" where
  "pack_window epoch value = push_bit 32 (ucast epoch) OR ucast value"

definition window_epoch :: "64 word \<Rightarrow> 32 word" where
  "window_epoch packed = ucast (drop_bit 32 packed)"

definition window_count :: "64 word \<Rightarrow> 32 word" where
  "window_count packed = ucast packed"

definition reserve_window_counter :: "64 word \<Rightarrow> 32 word \<Rightarrow> nat \<Rightarrow> nat \<Rightarrow> bool \<times> 64 word" where
  "reserve_window_counter packed epoch amount limit =
    (if amount > u32_max \<or> limit > u32_max then (False, packed)
     else let current = (if window_epoch packed = epoch then window_count packed else 0);
              next_value = unat current + amount
          in if next_value \<le> u32_max \<and> next_value \<le> limit
             then (True, pack_window epoch (word_of_nat next_value)) else (False, packed))"

definition release_window_counter :: "64 word \<Rightarrow> 32 word \<Rightarrow> nat \<Rightarrow> 64 word" where
  "release_window_counter packed epoch amount =
    (if amount > u32_max then packed
     else if window_epoch packed = epoch
       then pack_window epoch (word_of_nat (unat (window_count packed) - amount))
       else packed)"

record fixed_window =
  fw_bytes :: "64 word"
  fw_frames :: "64 word"

definition fixed_window_default :: fixed_window where
  "fixed_window_default = \<lparr> fw_bytes = 0, fw_frames = 0 \<rparr>"

definition window_try_reserve :: "fixed_window \<Rightarrow> nat \<Rightarrow> nat \<Rightarrow> nat \<Rightarrow> nat \<Rightarrow> bool \<times> fixed_window" where
  "window_try_reserve w now bytes byte_limit frame_limit =
    (let epoch = word_of_nat now
     in case reserve_window_counter (fw_frames w) epoch 1 frame_limit of
          (False, _) \<Rightarrow> (False, w)
        | (True, frames) \<Rightarrow>
            let w1 = w \<lparr> fw_frames := frames \<rparr>
            in case reserve_window_counter (fw_bytes w1) epoch bytes byte_limit of
                 (False, _) \<Rightarrow> (False, w1 \<lparr> fw_frames := release_window_counter (fw_frames w1) epoch 1 \<rparr>)
               | (True, bytes') \<Rightarrow> (True, w1 \<lparr> fw_bytes := bytes' \<rparr>))"

definition window_release :: "fixed_window \<Rightarrow> nat \<Rightarrow> nat \<Rightarrow> fixed_window" where
  "window_release w epoch_second bytes =
    (let epoch = word_of_nat epoch_second
     in w \<lparr> fw_bytes := release_window_counter (fw_bytes w) epoch bytes,
            fw_frames := release_window_counter (fw_frames w) epoch 1 \<rparr>)"

section \<open>Frames\<close>

record traffic_metrics =
  tm_accepted_bytes :: nat
  tm_accepted_frames :: nat
  tm_accepted_control_frames :: nat
  tm_rejected_frames :: nat

text \<open>The process window and the metrics are shared by all sessions of the process.\<close>

record traffic_state =
  ts_process :: fixed_window
  ts_session :: fixed_window
  ts_total_bytes :: nat
  ts_metrics :: traffic_metrics
  ts_remaining :: nat

definition traffic :: "fixed_window \<Rightarrow> traffic_metrics \<Rightarrow> traffic_state" where
  "traffic process metrics =
    \<lparr> ts_process = process, ts_session = fixed_window_default, ts_total_bytes = 0,
      ts_metrics = metrics, ts_remaining = 0 \<rparr>"

definition wrap_u64 :: "nat \<Rightarrow> nat" where
  "wrap_u64 n = n mod (u64_max + 1)"

definition record_rejection :: "traffic_state \<Rightarrow> traffic_state" where
  "record_rejection st =
    st \<lparr> ts_metrics := (ts_metrics st)
          \<lparr> tm_rejected_frames := wrap_u64 (tm_rejected_frames (ts_metrics st) + 1) \<rparr> \<rparr>"

definition take_credit :: "nat \<Rightarrow> nat \<Rightarrow> bool \<times> nat" where
  "take_credit credit bytes =
    (case checked_sub_u64 credit bytes of Some c \<Rightarrow> (True, c) | None \<Rightarrow> (False, credit))"

definition try_reserve_frame :: "nat \<Rightarrow> nat \<Rightarrow> bool \<Rightarrow> traffic_state \<Rightarrow> bool \<times> traffic_state" where
  "try_reserve_frame now bytes control st =
    (case Option.bind (checked_add_u64 (ts_total_bytes st) bytes)
            (\<lambda>n. if n \<le> SESSION_TOTAL_BYTES then Some n else None) of
       None \<Rightarrow> (False, record_rejection st)
     | Some used \<Rightarrow>
    let st = st \<lparr> ts_total_bytes := used \<rparr> in
     case window_try_reserve (ts_session st) now bytes SESSION_BYTES_PER_SECOND SESSION_FRAMES_PER_SECOND of
       (False, session) \<Rightarrow>
         (False, record_rejection (st \<lparr> ts_session := session,
                                        ts_total_bytes := fetch_sub (ts_total_bytes st) bytes \<rparr>))
     | (True, session) \<Rightarrow>
    let st = st \<lparr> ts_session := session \<rparr> in
     case window_try_reserve (ts_process st) now bytes PROCESS_BYTES_PER_SECOND PROCESS_FRAMES_PER_SECOND of
       (False, process) \<Rightarrow>
         (False, record_rejection (st \<lparr> ts_process := process,
                                        ts_session := window_release (ts_session st) now bytes,
                                        ts_total_bytes := fetch_sub (ts_total_bytes st) bytes \<rparr>))
     | (True, process) \<Rightarrow>
         let m = ts_metrics st;
             m = m \<lparr> tm_accepted_bytes := wrap_u64 (tm_accepted_bytes m + bytes),
                     tm_accepted_frames := wrap_u64 (tm_accepted_frames m + 1) \<rparr>;
             m = (if control
                  then m \<lparr> tm_accepted_control_frames := wrap_u64 (tm_accepted_control_frames m + 1) \<rparr>
                  else m)
         in (True, st \<lparr> ts_process := process, ts_metrics := m \<rparr>))"

definition reserve_distributed :: "bool \<Rightarrow> nat \<Rightarrow> traffic_state \<Rightarrow> bool \<times> traffic_state" where
  "reserve_distributed store_admits bytes st =
    (if bytes = 0 then (True, st)
     else case take_credit (ts_remaining st) bytes of
       (True, c) \<Rightarrow> (True, st \<lparr> ts_remaining := c \<rparr>)
     | (False, _) \<Rightarrow>
         if \<not> store_admits then (False, st)
         else let leased = max DISTRIBUTED_TRAFFIC_CREDIT_BYTES bytes;
                  st = st \<lparr> ts_remaining := wrap_u64 (ts_remaining st + leased) \<rparr>
              in case take_credit (ts_remaining st) bytes of
                   (ok, c) \<Rightarrow> (ok, st \<lparr> ts_remaining := c \<rparr>))"

definition reserve_frame :: "bool \<Rightarrow> nat \<Rightarrow> nat \<Rightarrow> bool \<Rightarrow> traffic_state \<Rightarrow> bool \<times> traffic_state" where
  "reserve_frame store_admits now bytes control st =
    (case reserve_distributed store_admits bytes st of
       (False, st) \<Rightarrow> (False, record_rejection st)
     | (True, st) \<Rightarrow> try_reserve_frame now bytes control st)"

section \<open>The packing\<close>

lemma window_epoch_pack [simp]: "window_epoch (pack_window e n) = e"
  by (rule bit_word_eqI)
    (auto simp: window_epoch_def pack_window_def bit_simps dest: bit_imp_le_length)

lemma window_count_pack [simp]: "window_count (pack_window e n) = n"
  by (rule bit_word_eqI) (auto simp: window_count_def pack_window_def bit_simps)

text \<open>What a packed counter holds for a second: its count if it is of that second, nothing otherwise.\<close>

definition window_used :: "64 word \<Rightarrow> 32 word \<Rightarrow> nat" where
  "window_used packed e = (if window_epoch packed = e then unat (window_count packed) else 0)"

lemma window_used_pack: "n \<le> u32_max \<Longrightarrow> window_used (pack_window e (word_of_nat n)) e' = (if e = e' then n else 0)"
  by (simp add: window_used_def unat_of_nat)

lemma window_used_le: "window_used packed e \<le> u32_max"
  using unsigned_less [of "window_count packed", where ?'a = nat] by (simp add: window_used_def)

lemma reserve_window_counter_spec:
  assumes "limit \<le> u32_max"
  shows "reserve_window_counter packed e amount limit =
    (if window_used packed e + amount \<le> limit
     then (True, pack_window e (word_of_nat (window_used packed e + amount))) else (False, packed))"
  using assms by (auto simp: reserve_window_counter_def window_used_def Let_def)

lemma release_after_reserve:
  assumes "window_used packed e + amount \<le> limit" "limit \<le> u32_max"
  shows "release_window_counter (pack_window e (word_of_nat (window_used packed e + amount))) e amount
    = pack_window e (word_of_nat (window_used packed e))"
proof -
  have "unat (word_of_nat (window_used packed e + amount) :: 32 word) = window_used packed e + amount"
    using assms by (simp add: unat_of_nat del: of_nat_add)
  then show ?thesis using assms by (simp add: release_window_counter_def)
qed

section \<open>Windows as plain counters\<close>

definition frames_used :: "fixed_window \<Rightarrow> nat \<Rightarrow> nat" where
  "frames_used w now = window_used (fw_frames w) (word_of_nat now)"

definition bytes_used :: "fixed_window \<Rightarrow> nat \<Rightarrow> nat" where
  "bytes_used w now = window_used (fw_bytes w) (word_of_nat now)"

definition window_fits :: "fixed_window \<Rightarrow> nat \<Rightarrow> nat \<Rightarrow> nat \<Rightarrow> nat \<Rightarrow> bool" where
  "window_fits w now bytes byte_limit frame_limit \<longleftrightarrow>
     frames_used w now + 1 \<le> frame_limit \<and> bytes_used w now + bytes \<le> byte_limit"

lemmas window_counters = frames_used_def bytes_used_def window_fits_def

lemma window_try_reserve_spec:
  assumes "byte_limit \<le> u32_max" "frame_limit \<le> u32_max"
  obtains w' where "window_try_reserve w now bytes byte_limit frame_limit =
      (window_fits w now bytes byte_limit frame_limit, w')"
    "frames_used w' now = frames_used w now + (if window_fits w now bytes byte_limit frame_limit then 1 else 0)"
    "bytes_used w' now = bytes_used w now + (if window_fits w now bytes byte_limit frame_limit then bytes else 0)"
proof -
  let ?e = "word_of_nat now :: 32 word"
  note frames = reserve_window_counter_spec [OF assms(2), of "fw_frames w" ?e 1]
  note bytes = reserve_window_counter_spec [OF assms(1), of "fw_bytes w" ?e bytes]
  show ?thesis
  proof (cases "frames_used w now + 1 \<le> frame_limit")
    case False
    then show ?thesis
      using frames by (intro that [of w]) (auto simp: window_try_reserve_def window_counters Let_def)
  next
    case f: True
    let ?f = "pack_window ?e (word_of_nat (window_used (fw_frames w) ?e + 1))"
    have fu: "window_used ?f ?e = window_used (fw_frames w) ?e + 1"
      using f assms(2) by (simp add: window_used_pack frames_used_def del: of_nat_Suc of_nat_add)
    show ?thesis
    proof (cases "bytes_used w now + bytes \<le> byte_limit")
      case True
      let ?b = "pack_window ?e (word_of_nat (window_used (fw_bytes w) ?e + bytes))"
      have bu: "window_used ?b ?e = window_used (fw_bytes w) ?e + bytes"
        using True assms(1) by (simp add: window_used_pack bytes_used_def del: of_nat_add)
      show ?thesis
        using f True frames bytes fu bu
        by (intro that [of "w \<lparr> fw_frames := ?f, fw_bytes := ?b \<rparr>"])
          (simp_all add: window_try_reserve_def window_counters Let_def)
    next
      case False
      have rel: "release_window_counter ?f ?e 1 = pack_window ?e (word_of_nat (window_used (fw_frames w) ?e))"
        using release_after_reserve [OF _ assms(2), of "fw_frames w" ?e 1] f by (simp add: frames_used_def)
      have ru: "window_used (pack_window ?e (word_of_nat (window_used (fw_frames w) ?e))) ?e
          = window_used (fw_frames w) ?e"
        by (simp add: window_used_pack window_used_le)
      show ?thesis
        using f False frames bytes rel ru
        by (intro that [of "w \<lparr> fw_frames := pack_window ?e (word_of_nat (window_used (fw_frames w) ?e)) \<rparr>"])
          (simp_all add: window_try_reserve_def window_counters Let_def)
    qed
  qed
qed

lemma release_used:
  assumes "amount \<le> window_used packed e"
  shows "window_used (release_window_counter packed e amount) e = window_used packed e - amount"
proof -
  have small: "amount \<le> u32_max" using assms window_used_le [of packed e] by simp
  show ?thesis
  proof (cases "window_epoch packed = e")
    case True
    let ?n = "unat (window_count packed) - amount"
    have "?n \<le> u32_max" using window_used_le [of packed e] True by (simp add: window_used_def)
    from window_used_pack [OF this, of e e] show ?thesis
      unfolding release_window_counter_def using small True by (simp only: if_True if_False not_less) (simp add: window_used_def)
  next
    case False
    with assms show ?thesis by (simp add: release_window_counter_def window_used_def)
  qed
qed

lemma window_release_spec:
  assumes "0 < frames_used w now" "bytes \<le> bytes_used w now"
  shows "frames_used (window_release w now bytes) now = frames_used w now - 1"
    "bytes_used (window_release w now bytes) now = bytes_used w now - bytes"
  using assms release_used [of 1 "fw_frames w" "word_of_nat now"] release_used [of bytes "fw_bytes w" "word_of_nat now"]
  by (simp_all add: window_counters window_release_def Let_def)

definition frame_fits :: "traffic_state \<Rightarrow> nat \<Rightarrow> nat \<Rightarrow> bool" where
  "frame_fits st now bytes \<longleftrightarrow> ts_total_bytes st + bytes \<le> SESSION_TOTAL_BYTES
     \<and> window_fits (ts_session st) now bytes SESSION_BYTES_PER_SECOND SESSION_FRAMES_PER_SECOND
     \<and> window_fits (ts_process st) now bytes PROCESS_BYTES_PER_SECOND PROCESS_FRAMES_PER_SECOND"

section \<open>Main results\<close>

text \<open>
  C40. A frame is charged everywhere or nowhere: it is accepted exactly when it fits the session's
  total and, in the current second, the byte and frame budgets of both the session and the process;
  then all five are charged by exactly the frame, and otherwise each of them is left with the same
  charge as before, whatever budget refused it and however the counters were packed.
\<close>

theorem frame_charged_everywhere_or_nowhere:
  assumes "ts_total_bytes st \<le> SESSION_TOTAL_BYTES"
  shows "\<exists>st'. try_reserve_frame now bytes control st = (frame_fits st now bytes, st')
    \<and> ts_total_bytes st' = ts_total_bytes st + (if frame_fits st now bytes then bytes else 0)
    \<and> frames_used (ts_session st') now = frames_used (ts_session st) now + (if frame_fits st now bytes then 1 else 0)
    \<and> bytes_used (ts_session st') now = bytes_used (ts_session st) now + (if frame_fits st now bytes then bytes else 0)
    \<and> frames_used (ts_process st') now = frames_used (ts_process st) now + (if frame_fits st now bytes then 1 else 0)
    \<and> bytes_used (ts_process st') now = bytes_used (ts_process st) now + (if frame_fits st now bytes then bytes else 0)
    \<and> tm_rejected_frames (ts_metrics st') =
        (if frame_fits st now bytes then tm_rejected_frames (ts_metrics st)
         else wrap_u64 (tm_rejected_frames (ts_metrics st) + 1))"
proof (cases "ts_total_bytes st + bytes \<le> SESSION_TOTAL_BYTES")
  case False
  then show ?thesis
    by (simp add: try_reserve_frame_def frame_fits_def checked_add_u64_def record_rejection_def)
next
  case True
  have total: "checked_add_u64 (ts_total_bytes st) bytes = Some (ts_total_bytes st + bytes)"
    using True by (simp add: checked_add_u64_def traffic_limits)
  have u32: "SESSION_BYTES_PER_SECOND \<le> u32_max" "SESSION_FRAMES_PER_SECOND \<le> u32_max"
    "PROCESS_BYTES_PER_SECOND \<le> u32_max" "PROCESS_FRAMES_PER_SECOND \<le> u32_max"
    by (simp_all add: traffic_limits)
  let ?sf = "window_fits (ts_session st) now bytes SESSION_BYTES_PER_SECOND SESSION_FRAMES_PER_SECOND"
  let ?pf = "window_fits (ts_process st) now bytes PROCESS_BYTES_PER_SECOND PROCESS_FRAMES_PER_SECOND"
  obtain s where s: "window_try_reserve (ts_session st) now bytes SESSION_BYTES_PER_SECOND SESSION_FRAMES_PER_SECOND = (?sf, s)"
    "frames_used s now = frames_used (ts_session st) now + (if ?sf then 1 else 0)"
    "bytes_used s now = bytes_used (ts_session st) now + (if ?sf then bytes else 0)"
    using window_try_reserve_spec [OF u32(1,2)] by blast
  obtain p where p: "window_try_reserve (ts_process st) now bytes PROCESS_BYTES_PER_SECOND PROCESS_FRAMES_PER_SECOND = (?pf, p)"
    "frames_used p now = frames_used (ts_process st) now + (if ?pf then 1 else 0)"
    "bytes_used p now = bytes_used (ts_process st) now + (if ?pf then bytes else 0)"
    using window_try_reserve_spec [OF u32(3,4)] by blast
  show ?thesis
  proof (cases ?sf)
    case sf: False
    then show ?thesis
      using True total s
      by (simp add: try_reserve_frame_def frame_fits_def record_rejection_def Let_def fetch_sub_def)
  next
    case sf: True
    have rel: "frames_used (window_release s now bytes) now = frames_used (ts_session st) now"
      "bytes_used (window_release s now bytes) now = bytes_used (ts_session st) now"
      using window_release_spec [of s now bytes] s sf by simp_all
    show ?thesis
      using True total s p sf rel
      by (cases ?pf) (simp_all add: try_reserve_frame_def frame_fits_def record_rejection_def Let_def fetch_sub_def)
  qed
qed

definition sample_traffic :: traffic_state where
  "sample_traffic = traffic fixed_window_default
     \<lparr> tm_accepted_bytes = 0, tm_accepted_frames = 0, tm_accepted_control_frames = 0, tm_rejected_frames = 0 \<rparr>"

theorem frame_charged_everywhere_or_nowhere_witness:
  "ts_total_bytes sample_traffic \<le> SESSION_TOTAL_BYTES
   \<and> (\<exists>st'. try_reserve_frame 7 1500 False sample_traffic = (True, st') \<and> ts_total_bytes st' = 1500)"
proof -
  have total: "ts_total_bytes sample_traffic \<le> SESSION_TOTAL_BYTES" "ts_total_bytes sample_traffic = 0"
    by (simp_all add: sample_traffic_def traffic_def)
  have "window_fits (ts_session sample_traffic) 7 1500 SESSION_BYTES_PER_SECOND SESSION_FRAMES_PER_SECOND"
    "window_fits (ts_process sample_traffic) 7 1500 PROCESS_BYTES_PER_SECOND PROCESS_FRAMES_PER_SECOND"
    "0 + 1500 \<le> SESSION_TOTAL_BYTES"
    by (simp_all add: window_counters window_used_def sample_traffic_def traffic_def
        fixed_window_default_def window_count_def traffic_limits)
  then have "frame_fits sample_traffic 7 1500" using total(2) by (simp add: frame_fits_def)
  with frame_charged_everywhere_or_nowhere [OF total(1), of 7 1500 False] total show ?thesis by auto
qed

text \<open>
  A frame that sampled an earlier second erases the later second's charges: one window accepts a
  full second's bytes for second 6, then a single byte for second 5, and then the full budget of
  second 6 again. Packing second and count into one word makes each update atomic, but it does not
  keep the window from moving back.
\<close>

theorem earlier_second_erases_charges:
  "\<exists>w1 w2 w3. window_try_reserve fixed_window_default 6 SESSION_BYTES_PER_SECOND
        SESSION_BYTES_PER_SECOND SESSION_FRAMES_PER_SECOND = (True, w1)
    \<and> bytes_used w1 6 = SESSION_BYTES_PER_SECOND
    \<and> window_try_reserve w1 5 1 SESSION_BYTES_PER_SECOND SESSION_FRAMES_PER_SECOND = (True, w2)
    \<and> bytes_used w2 6 = 0
    \<and> window_try_reserve w2 6 SESSION_BYTES_PER_SECOND
        SESSION_BYTES_PER_SECOND SESSION_FRAMES_PER_SECOND = (True, w3)"
proof -
  define w1 where "w1 = \<lparr> fw_bytes = pack_window 6 (word_of_nat SESSION_BYTES_PER_SECOND), fw_frames = pack_window 6 1 \<rparr>"
  define w2 where "w2 = \<lparr> fw_bytes = pack_window 5 1, fw_frames = pack_window 5 1 \<rparr>"
  have [simp]: "window_epoch 0 = 0" "window_count 0 = 0"
    by (simp_all add: window_epoch_def window_count_def)
  have "window_try_reserve fixed_window_default 6 SESSION_BYTES_PER_SECOND
        SESSION_BYTES_PER_SECOND SESSION_FRAMES_PER_SECOND = (True, w1)"
    by (simp add: window_try_reserve_def reserve_window_counter_def fixed_window_default_def w1_def traffic_limits Let_def)
  moreover have "bytes_used w1 6 = SESSION_BYTES_PER_SECOND"
    by (simp add: bytes_used_def w1_def window_used_def traffic_limits)
  moreover have "window_try_reserve w1 5 1 SESSION_BYTES_PER_SECOND SESSION_FRAMES_PER_SECOND = (True, w2)"
    by (simp add: window_try_reserve_def reserve_window_counter_def w1_def w2_def traffic_limits Let_def)
  moreover have "bytes_used w2 6 = 0"
    by (simp add: bytes_used_def w2_def window_used_def)
  moreover have "window_try_reserve w2 6 SESSION_BYTES_PER_SECOND
        SESSION_BYTES_PER_SECOND SESSION_FRAMES_PER_SECOND = (True, w1)"
    by (simp add: window_try_reserve_def reserve_window_counter_def w1_def w2_def traffic_limits Let_def)
  ultimately show ?thesis by blast
qed

end
