(* ===== verification/Workload_Spec.thy ===== *)
theory Workload_Spec
  imports Rsctf_Prelude
begin

text \<open>
  Workload specifications sent to worker agents, from \<^verbatim>\<open>lib/worker-protocol/src/workload.rs\<close>: their
  data, the validation that every specification passes before it is used, and its stable hash. The
  length of the JSON encoding, the IPv6 parser and the SHA-256 digest are arguments.
\<close>

section \<open>Data\<close>

definition MAX_SERVICES :: nat where "MAX_SERVICES = 32"
definition MAX_PORTS_PER_SERVICE :: nat where "MAX_PORTS_PER_SERVICE = 32"
definition MAX_REPLICAS_PER_SERVICE :: nat where "MAX_REPLICAS_PER_SERVICE = 64"
definition MAX_ENVIRONMENT_ENTRIES :: nat where "MAX_ENVIRONMENT_ENTRIES = 128"
definition MAX_ENVIRONMENT_KEY_BYTES :: nat where "MAX_ENVIRONMENT_KEY_BYTES = 128"
definition MAX_ENVIRONMENT_VALUE_BYTES :: nat where "MAX_ENVIRONMENT_VALUE_BYTES = 16 * 1024"
definition MAX_ARCHITECTURE_BYTES :: nat where "MAX_ARCHITECTURE_BYTES = 64"
definition MAX_WINDOWS_BUILD_BYTES :: nat where "MAX_WINDOWS_BUILD_BYTES = 128"
definition MAX_REGISTRY_REPOSITORY_BYTES :: nat where "MAX_REGISTRY_REPOSITORY_BYTES = 255"
definition MAX_FLAG_PATH_BYTES :: nat where "MAX_FLAG_PATH_BYTES = 1024"
definition MAX_WORKLOAD_REPLICAS :: nat where "MAX_WORKLOAD_REPLICAS = 512"
definition MAX_WORKLOAD_SPEC_BYTES :: nat where "MAX_WORKLOAD_SPEC_BYTES = 192 * 1024"
definition DEFAULT_STORAGE_BYTES :: nat where "DEFAULT_STORAGE_BYTES = 512 * 1024 * 1024"

datatype game_kind = Jeopardy | AttackDefense | KingOfTheHill

datatype operating_system = Linux | Windows

record platform =
  pl_operating_system :: operating_system
  pl_architecture :: ustr
  pl_windows_build :: "ustr option"

datatype image_identity = RegistryDigest ustr ustr | WorkerLocal uuid ustr

record resource_limits =
  rl_cpu_millis :: nat
  rl_memory_bytes :: nat
  rl_storage_bytes :: nat

datatype port_protocol = Tcp

record service_port =
  sp_name :: ustr
  sp_container_port :: nat
  sp_protocol :: port_protocol

record service_spec =
  sv_name :: ustr
  sv_image :: image_identity
  sv_resources :: resource_limits
  sv_replicas :: nat
  sv_stateless :: bool
  sv_environment :: "(ustr \<times> ustr) list"
  sv_ports :: "service_port list"

record endpoint_ref =
  ep_service :: ustr
  ep_port :: ustr

record flag_target =
  ft_service :: ustr
  ft_path :: ustr

record workload_spec =
  ws_game_kind :: game_kind
  ws_platform :: platform
  ws_services :: "service_spec list"
  ws_primary_endpoint :: endpoint_ref
  ws_flag_target :: "flag_target option"

datatype workload_validation_error =
    InvalidServiceCount
  | InvalidServiceName ustr
  | InvalidReplicaCount ustr
  | ReplicasNotAllowed
  | TooManyReplicas
  | CompetitiveModeShape
  | InvalidResources ustr
  | TooManyEnvironmentEntries ustr
  | InvalidEnvironment ustr ustr
  | InvalidPortCount ustr
  | InvalidPort ustr ustr
  | InvalidPrimaryEndpoint
  | InvalidFlagTarget
  | InvalidPlatform ustr
  | InvalidImage ustr
  | SpecTooLarge

section \<open>Tokens and names\<close>

definition is_valid_architecture :: "ustr \<Rightarrow> bool" where
  "is_valid_architecture v \<longleftrightarrow> v \<noteq> [] \<and> str_len v \<le> MAX_ARCHITECTURE_BYTES
     \<and> list_all (\<lambda>b. ascii_alnum b \<or> b = 46 \<or> b = 95 \<or> b = 45) (str_bytes v)"

definition valid_dns_label :: "ustr \<Rightarrow> bool" where
  "valid_dns_label v \<longleftrightarrow> v \<noteq> [] \<and> str_len v \<le> 63
     \<and> list_all (\<lambda>b. ascii_lower b \<or> ascii_digit b \<or> b = 45) (str_bytes v)
     \<and> hd (str_bytes v) \<noteq> 45 \<and> last (str_bytes v) \<noteq> 45"

definition valid_environment_key :: "ustr \<Rightarrow> bool" where
  "valid_environment_key v \<longleftrightarrow> v \<noteq> [] \<and> str_len v \<le> MAX_ENVIRONMENT_KEY_BYTES
     \<and> (ascii_alpha (hd (str_bytes v)) \<or> hd (str_bytes v) = 95)
     \<and> list_all (\<lambda>b. ascii_alnum b \<or> b = 95) (str_bytes v)"

definition lower_or_digit :: "nat \<Rightarrow> bool" where
  "lower_or_digit b \<longleftrightarrow> ascii_lower b \<or> ascii_digit b"

text \<open>
  The scan of \<open>valid_repository_component\<close>, on the bytes from the current index on: a run of
  lowercase letters and digits, a separator, and again.
\<close>

definition skip_separator :: "bytes \<Rightarrow> bytes option" where
  "skip_separator bs =
    (case bs of
       [] \<Rightarrow> None
     | b # r \<Rightarrow>
         if b = 46 then Some r
         else if b = 95 then Some (case r of c # r' \<Rightarrow> if c = 95 then r' else r | [] \<Rightarrow> r)
         else if b = 45 then Some (dropWhile (\<lambda>c. c = 45) bs)
         else None)"

lemma skip_separator_shorter: "skip_separator bs = Some r \<Longrightarrow> length r < length bs"
  using length_dropWhile_le [of "\<lambda>c. c = 45" "tl (tl bs)"]
  by (auto simp: skip_separator_def split: list.splits if_splits)

function repository_scan :: "bytes \<Rightarrow> bool" where
  "repository_scan bs =
    (if bs = [] then True
     else let rest = dropWhile lower_or_digit bs
          in if rest = [] then True
             else case skip_separator rest of
                    None \<Rightarrow> False
                  | Some after \<Rightarrow>
                      (case after of [] \<Rightarrow> False | b # _ \<Rightarrow> lower_or_digit b) \<and> repository_scan after)"
  by pat_completeness auto

termination
proof (relation "measure length")
  fix bs rest after :: bytes
  assume "rest = dropWhile lower_or_digit bs" "skip_separator rest = Some after"
  then have "length after < length rest" "length rest \<le> length bs"
    by (simp_all add: skip_separator_shorter length_dropWhile_le)
  then show "(after, bs) \<in> measure length" by simp
qed simp

declare repository_scan.simps [simp del]

definition valid_repository_component :: "ustr \<Rightarrow> bool" where
  "valid_repository_component v =
    (case str_bytes v of [] \<Rightarrow> False | b # _ \<Rightarrow> lower_or_digit b \<and> repository_scan (str_bytes v))"

section \<open>Registry references\<close>

definition valid_registry_port :: "ustr option \<Rightarrow> bool" where
  "valid_registry_port port =
    (case port of
       None \<Rightarrow> False
     | Some p \<Rightarrow> p \<noteq> [] \<and> list_all ascii_digit (str_bytes p)
                 \<and> decimal_value p \<le> 65535 \<and> decimal_value p \<noteq> 0)"

definition strip_prefix_char :: "nat \<Rightarrow> ustr \<Rightarrow> ustr option" where
  "strip_prefix_char c s = (case s of [] \<Rightarrow> None | x # r \<Rightarrow> if x = c then Some r else None)"

definition valid_host_label :: "ustr \<Rightarrow> bool" where
  "valid_host_label l \<longleftrightarrow> l \<noteq> [] \<and> str_len l \<le> 63
     \<and> list_all (\<lambda>b. ascii_alnum b \<or> b = 45) (str_bytes l)
     \<and> ascii_alnum (hd (str_bytes l)) \<and> ascii_alnum (last (str_bytes l))"

definition valid_registry_domain :: "(ustr \<Rightarrow> bool) \<Rightarrow> ustr \<Rightarrow> bool" where
  "valid_registry_domain parse_ipv6 v =
    (case strip_prefix_char 91 v of
       Some address \<Rightarrow>
         (case str_split_once 93 address of
            None \<Rightarrow> False
          | Some (address, rest) \<Rightarrow>
              parse_ipv6 address \<and> (rest = [] \<or> valid_registry_port (strip_prefix_char 58 rest)))
     | None \<Rightarrow>
         let (host, port) = (case str_rsplit_once 58 v of
                               None \<Rightarrow> (v, None) | Some (host, port) \<Rightarrow> (host, Some port))
         in if 58 \<in> set host \<or> (port \<noteq> None \<and> \<not> valid_registry_port port) then False
            else host \<noteq> [] \<and> list_all valid_host_label (str_split 46 host))"

definition is_valid_registry_repository :: "(ustr \<Rightarrow> bool) \<Rightarrow> ustr \<Rightarrow> bool" where
  "is_valid_registry_repository parse_ipv6 v =
    (if v = [] \<or> str_len v > MAX_REGISTRY_REPOSITORY_BYTES \<or> \<not> list_all (\<lambda>c. c < 128) v \<or> 64 \<in> set v
     then False
     else let components = str_split 47 v
     in if list_ex (\<lambda>c. c = []) components then False
        else let path_start =
               (if length components > 1
                   \<and> (hd components = lit ''localhost'' \<or> 46 \<in> set (hd components)
                      \<or> 58 \<in> set (hd components) \<or> strip_prefix_char 91 (hd components) \<noteq> None)
                then 1 else 0)
        in if path_start = 1 \<and> \<not> valid_registry_domain parse_ipv6 (hd components) then False
           else list_all valid_repository_component (drop path_start components))"

definition validate_image :: "(ustr \<Rightarrow> bool) \<Rightarrow> image_identity \<Rightarrow> (unit, unit) result" where
  "validate_image parse_ipv6 img =
    (let checked = (case img of
           RegistryDigest repository digest \<Rightarrow>
             if \<not> is_valid_registry_repository parse_ipv6 repository then Inl ()
             else Inr (lit ''sha256:'', digest)
         | WorkerLocal _ image_id \<Rightarrow> Inr (lit ''sha256:'', image_id))
     in rbind checked (\<lambda>(pre, digest).
          if \<not> prefix pre digest then Inl ()
          else let value = drop (length pre) digest
               in if str_len value \<noteq> 64 \<or> \<not> list_all ascii_hexdigit (str_bytes value)
                  then Inl () else Inr ()))"

section \<open>Validation\<close>

definition validate_platform :: "platform \<Rightarrow> (workload_validation_error, unit) result" where
  "validate_platform p =
    (if \<not> is_valid_architecture (pl_architecture p)
     then Inl (InvalidPlatform (lit ''architecture must be a bounded ASCII token''))
     else if (case pl_windows_build p of None \<Rightarrow> False
              | Some build \<Rightarrow> str_trim build = [] \<or> str_len build > MAX_WINDOWS_BUILD_BYTES)
     then Inl (InvalidPlatform (lit ''Windows build is empty or too long''))
     else case pl_operating_system p of
       Linux \<Rightarrow>
         if pl_windows_build p \<noteq> None
         then Inl (InvalidPlatform (lit ''a Linux platform cannot declare a Windows build''))
         else Inr ()
     | Windows \<Rightarrow> Inr ())"

definition validate_port ::
  "ustr \<Rightarrow> ustr list \<times> (nat \<times> port_protocol) list \<Rightarrow> service_port
    \<Rightarrow> (workload_validation_error, ustr list \<times> (nat \<times> port_protocol) list) result" where
  "validate_port service_name seen port =
    (case seen of (names, numbers) \<Rightarrow>
       if \<not> valid_dns_label (sp_name port) \<or> sp_container_port port = 0
          \<or> sp_name port \<in> set names \<or> (sp_container_port port, sp_protocol port) \<in> set numbers
       then Inl (InvalidPort service_name (sp_name port))
       else Inr (sp_name port # names, (sp_container_port port, sp_protocol port) # numbers))"

definition validate_ports :: "service_spec \<Rightarrow> (workload_validation_error, unit) result" where
  "validate_ports service =
    (if sv_ports service = [] \<or> length (sv_ports service) > MAX_PORTS_PER_SERVICE
     then Inl (InvalidPortCount (sv_name service))
     else rbind (try_fold (validate_port (sv_name service)) ([], []) (sv_ports service)) (\<lambda>_. Inr ()))"

definition validate_env_entry ::
  "ustr \<Rightarrow> unit \<Rightarrow> ustr \<times> ustr \<Rightarrow> (workload_validation_error, unit) result" where
  "validate_env_entry service_name _ entry =
    (case entry of (key, v) \<Rightarrow>
       if \<not> valid_environment_key key \<or> str_len v > MAX_ENVIRONMENT_VALUE_BYTES \<or> 0 \<in> set (str_bytes v)
       then Inl (InvalidEnvironment service_name key) else Inr ())"

definition validate_service ::
  "(ustr \<Rightarrow> bool) \<Rightarrow> game_kind \<Rightarrow> ustr list \<times> nat \<Rightarrow> service_spec
    \<Rightarrow> (workload_validation_error, ustr list \<times> nat) result" where
  "validate_service parse_ipv6 kind seen service =
    (case seen of (service_names, total_replicas) \<Rightarrow>
     if \<not> valid_dns_label (sv_name service) \<or> sv_name service \<in> set service_names
     then Inl (InvalidServiceName (sv_name service))
     else rbind (map_err (\<lambda>_. InvalidImage (sv_name service)) (validate_image parse_ipv6 (sv_image service))) (\<lambda>_.
     if rl_cpu_millis (sv_resources service) = 0 \<or> rl_memory_bytes (sv_resources service) = 0
        \<or> rl_storage_bytes (sv_resources service) = 0
     then Inl (InvalidResources (sv_name service))
     else if sv_replicas service = 0 \<or> sv_replicas service > MAX_REPLICAS_PER_SERVICE
     then Inl (InvalidReplicaCount (sv_name service))
     else let total_replicas = sat_add_u64 total_replicas (sv_replicas service) in
     if total_replicas > MAX_WORKLOAD_REPLICAS then Inl TooManyReplicas
     else if sv_replicas service > 1 \<and> (kind \<noteq> Jeopardy \<or> \<not> sv_stateless service)
     then Inl ReplicasNotAllowed
     else if kind \<noteq> Jeopardy \<and> sv_replicas service \<noteq> 1 then Inl CompetitiveModeShape
     else if length (sv_environment service) > MAX_ENVIRONMENT_ENTRIES
     then Inl (TooManyEnvironmentEntries (sv_name service))
     else rbind (try_fold (validate_env_entry (sv_name service)) () (sv_environment service)) (\<lambda>_.
     rbind (validate_ports service) (\<lambda>_.
     Inr (sv_name service # service_names, total_replicas)))))"

definition endpoint_valid :: "workload_spec \<Rightarrow> bool" where
  "endpoint_valid spec \<longleftrightarrow> list_ex (\<lambda>service. sv_name service = ep_service (ws_primary_endpoint spec)
     \<and> list_ex (\<lambda>port. sp_name port = ep_port (ws_primary_endpoint spec)) (sv_ports service)) (ws_services spec)"

definition flag_target_invalid :: "workload_spec \<Rightarrow> bool" where
  "flag_target_invalid spec =
    (case ws_flag_target spec of
       None \<Rightarrow> False
     | Some target \<Rightarrow>
         \<not> list_ex (\<lambda>service. sv_name service = ft_service target) (ws_services spec)
         \<or> str_trim (ft_path target) = [] \<or> str_len (ft_path target) > MAX_FLAG_PATH_BYTES
         \<or> 0 \<in> set (str_bytes (ft_path target)))"

text \<open>\<open>json_len\<close> is the length of the specification's JSON encoding, or \<open>None\<close> if encoding fails.\<close>

definition validate_workload ::
  "(ustr \<Rightarrow> bool) \<Rightarrow> (workload_spec \<Rightarrow> nat option) \<Rightarrow> workload_spec
    \<Rightarrow> (workload_validation_error, unit) result" where
  "validate_workload parse_ipv6 json_len spec =
    rbind (validate_platform (ws_platform spec)) (\<lambda>_.
    if ws_services spec = [] \<or> length (ws_services spec) > MAX_SERVICES then Inl InvalidServiceCount
    else if ws_game_kind spec \<noteq> Jeopardy \<and> length (ws_services spec) \<noteq> 1 then Inl CompetitiveModeShape
    else rbind (try_fold (validate_service parse_ipv6 (ws_game_kind spec)) ([], 0) (ws_services spec)) (\<lambda>_.
    if \<not> endpoint_valid spec then Inl InvalidPrimaryEndpoint
    else if flag_target_invalid spec then Inl InvalidFlagTarget
    else if (case json_len spec of Some n \<Rightarrow> n > MAX_WORKLOAD_SPEC_BYTES | None \<Rightarrow> True) then Inl SpecTooLarge
    else Inr ()))"

text \<open>\<open>spec_hash\<close>: every digest byte as two lowercase hexadecimal digits.\<close>

definition hex_digit :: "nat \<Rightarrow> nat" where
  "hex_digit n = (if n < 10 then 48 + n else 87 + n)"

definition spec_hash :: "(workload_spec \<Rightarrow> bytes option) \<Rightarrow> (bytes \<Rightarrow> bytes) \<Rightarrow> workload_spec \<Rightarrow> ustr option" where
  "spec_hash to_json sha256 spec =
    map_option (\<lambda>encoded. concat (map (\<lambda>b. [hex_digit (b div 16), hex_digit (b mod 16)]) (sha256 encoded)))
      (to_json spec)"

section \<open>The component grammar\<close>

text \<open>
  The reference grammar of a path component: runs of lowercase letters and digits joined by a
  period, one or two underscores, or any number of hyphens.
\<close>

definition component_separator :: "bytes \<Rightarrow> bool" where
  "component_separator s \<longleftrightarrow> s = [46] \<or> s = [95] \<or> s = [95, 95] \<or> (s \<noteq> [] \<and> set s \<subseteq> {45})"

inductive repository_component :: "bytes \<Rightarrow> bool" where
  word: "w \<noteq> [] \<Longrightarrow> list_all lower_or_digit w \<Longrightarrow> repository_component w"
| joined: "w \<noteq> [] \<Longrightarrow> list_all lower_or_digit w \<Longrightarrow> component_separator s \<Longrightarrow>
    repository_component r \<Longrightarrow> repository_component (w @ s @ r)"

lemma separator_not_word: "component_separator s \<Longrightarrow> b \<in> set s \<Longrightarrow> \<not> lower_or_digit b"
  by (auto simp: component_separator_def lower_or_digit_def ascii_lower_def ascii_digit_def)

lemma component_head: "repository_component bs \<Longrightarrow> \<exists>b r. bs = b # r \<and> lower_or_digit b"
  by (induction rule: repository_component.induct) (auto simp: neq_Nil_conv)

lemma skip_separator_component:
  assumes "component_separator s" "lower_or_digit b"
  shows "skip_separator (s @ b # r) = Some (b # r)"
proof -
  have b: "b \<noteq> 45" "b \<noteq> 95" using assms(2) by (auto simp: lower_or_digit_def ascii_lower_def ascii_digit_def)
  consider "s = [46]" | "s = [95]" | "s = [95, 95]" | "s \<noteq> []" "set s \<subseteq> {45}"
    using assms(1) by (auto simp: component_separator_def)
  then show ?thesis
  proof cases
    case 4
    then have "dropWhile (\<lambda>c. c = 45) (s @ b # r) = b # r" using b by (subst dropWhile_append2) auto
    with 4 show ?thesis by (cases s) (auto simp: skip_separator_def)
  qed (use b in \<open>auto simp: skip_separator_def\<close>)
qed

lemma skip_separator_inverse:
  assumes "skip_separator bs = Some after" "after \<noteq> []" "lower_or_digit (hd after)"
  shows "\<exists>s. component_separator s \<and> bs = s @ after"
proof -
  obtain b r where bs: "bs = b # r" using assms(1) by (auto simp: skip_separator_def split: list.splits)
  consider "b = 46" "after = r" | "b = 95" "after = r" | c r' where "b = 95" "r = 95 # r'" "after = r'"
    | "b = 45" "after = dropWhile (\<lambda>c. c = 45) bs"
    using assms(1) bs by (auto simp: skip_separator_def split: if_splits list.splits)
  then show ?thesis
  proof cases
    case 4
    have "bs = takeWhile (\<lambda>c. c = 45) bs @ after" using 4 by simp
    moreover have "component_separator (takeWhile (\<lambda>c. c = 45) bs)"
      using 4 bs by (auto simp: component_separator_def dest: set_takeWhileD)
    ultimately show ?thesis by blast
  qed (use bs in \<open>auto simp: component_separator_def intro: exI [of _ "[46]"] exI [of _ "[95]"] exI [of _ "[95, 95]"]\<close>)
qed

lemma repository_scan_complete: "repository_component bs \<Longrightarrow> repository_scan bs"
proof (induction rule: repository_component.induct)
  case (word w)
  then have "dropWhile lower_or_digit w = []" by (simp add: dropWhile_eq_Nil_conv list_all_iff)
  then show ?case by (simp add: repository_scan.simps [of w])
next
  case (joined w s r)
  obtain b r' where r: "r = b # r'" "lower_or_digit b" using component_head [OF joined.hyps(4)] by blast
  obtain c s' where s: "s = c # s'" using joined.hyps(3) by (cases s) (auto simp: component_separator_def)
  have "\<not> lower_or_digit c" using separator_not_word [OF joined.hyps(3)] s by simp
  then have "dropWhile lower_or_digit (w @ s @ r) = s @ r"
    using joined.hyps(2) s by (subst dropWhile_append2) (auto simp: list_all_iff)
  then show ?case
    using joined.hyps(1) joined.IH r skip_separator_component [OF joined.hyps(3) r(2), of r'] s
    by (subst repository_scan.simps) (simp add: Let_def)
qed

lemma repository_scan_sound:
  "repository_scan bs \<Longrightarrow> bs \<noteq> [] \<Longrightarrow> lower_or_digit (hd bs) \<Longrightarrow> repository_component bs"
proof (induction bs rule: repository_scan.induct)
  case (1 bs)
  let ?w = "takeWhile lower_or_digit bs" and ?rest = "dropWhile lower_or_digit bs"
  have w: "?w \<noteq> []" "list_all lower_or_digit ?w" and split: "bs = ?w @ ?rest"
    using "1.prems"(2,3) by (cases bs; auto simp: list_all_iff dest: set_takeWhileD)+
  show ?case
  proof (cases "?rest = []")
    case True
    with w split show ?thesis by (metis append_Nil2 repository_component.word)
  next
    case False
    then obtain after where after: "skip_separator ?rest = Some after"
      "after \<noteq> []" "lower_or_digit (hd after)" "repository_scan after"
      using "1.prems"(1) [unfolded repository_scan.simps [of bs]] "1.prems"(2)
      by (auto simp: Let_def simp del: dropWhile_eq_Nil_conv split: option.splits list.splits)
    then obtain s where s: "component_separator s" "?rest = s @ after"
      using skip_separator_inverse by blast
    have "repository_component after"
      using "1.IH" [OF "1.prems"(2) refl False after(1) after(4,2,3)] by blast
    with w s(1) have "repository_component (?w @ s @ after)" by (intro repository_component.joined)
    with split s(2) show ?thesis by simp
  qed
qed

section \<open>Declarative validity\<close>

definition ports_ok :: "service_port list \<Rightarrow> bool" where
  "ports_ok ports \<longleftrightarrow> ports \<noteq> [] \<and> length ports \<le> MAX_PORTS_PER_SERVICE
     \<and> (\<forall>p \<in> set ports. valid_dns_label (sp_name p) \<and> sp_container_port p \<noteq> 0)
     \<and> distinct (map sp_name ports) \<and> distinct (map (\<lambda>p. (sp_container_port p, sp_protocol p)) ports)"

definition env_ok :: "(ustr \<times> ustr) list \<Rightarrow> bool" where
  "env_ok env \<longleftrightarrow> length env \<le> MAX_ENVIRONMENT_ENTRIES
     \<and> (\<forall>(k, v) \<in> set env. valid_environment_key k \<and> str_len v \<le> MAX_ENVIRONMENT_VALUE_BYTES
          \<and> 0 \<notin> set (str_bytes v))"

definition service_ok :: "(ustr \<Rightarrow> bool) \<Rightarrow> game_kind \<Rightarrow> service_spec \<Rightarrow> bool" where
  "service_ok parse_ipv6 kind s \<longleftrightarrow> valid_dns_label (sv_name s) \<and> validate_image parse_ipv6 (sv_image s) = Inr ()
     \<and> rl_cpu_millis (sv_resources s) \<noteq> 0 \<and> rl_memory_bytes (sv_resources s) \<noteq> 0
     \<and> rl_storage_bytes (sv_resources s) \<noteq> 0
     \<and> 1 \<le> sv_replicas s \<and> sv_replicas s \<le> MAX_REPLICAS_PER_SERVICE
     \<and> (sv_replicas s = 1 \<or> kind = Jeopardy \<and> sv_stateless s)
     \<and> env_ok (sv_environment s) \<and> ports_ok (sv_ports s)"

definition platform_ok :: "platform \<Rightarrow> bool" where
  "platform_ok p \<longleftrightarrow> is_valid_architecture (pl_architecture p)
     \<and> (case pl_windows_build p of None \<Rightarrow> True
        | Some build \<Rightarrow> pl_operating_system p = Windows \<and> str_trim build \<noteq> []
            \<and> str_len build \<le> MAX_WINDOWS_BUILD_BYTES)"

definition workload_ok :: "(ustr \<Rightarrow> bool) \<Rightarrow> (workload_spec \<Rightarrow> nat option) \<Rightarrow> workload_spec \<Rightarrow> bool" where
  "workload_ok parse_ipv6 json_len spec \<longleftrightarrow> platform_ok (ws_platform spec)
     \<and> 1 \<le> length (ws_services spec) \<and> length (ws_services spec) \<le> MAX_SERVICES
     \<and> (ws_game_kind spec = Jeopardy \<or> length (ws_services spec) = 1)
     \<and> (\<forall>s \<in> set (ws_services spec). service_ok parse_ipv6 (ws_game_kind spec) s)
     \<and> distinct (map sv_name (ws_services spec))
     \<and> (\<Sum>s\<leftarrow>ws_services spec. sv_replicas s) \<le> MAX_WORKLOAD_REPLICAS
     \<and> endpoint_valid spec \<and> \<not> flag_target_invalid spec
     \<and> (\<exists>n. json_len spec = Some n \<and> n \<le> MAX_WORKLOAD_SPEC_BYTES)"

lemma validate_platform_ok: "validate_platform p = Inr () \<longleftrightarrow> platform_ok p"
  by (cases "pl_operating_system p")
    (auto simp: validate_platform_def platform_ok_def not_le split: option.splits)

lemma validate_port_ok:
  "validate_port name (names, numbers) p = Inr r \<longleftrightarrow>
     valid_dns_label (sp_name p) \<and> sp_container_port p \<noteq> 0 \<and> sp_name p \<notin> set names
     \<and> (sp_container_port p, sp_protocol p) \<notin> set numbers
     \<and> r = (sp_name p # names, (sp_container_port p, sp_protocol p) # numbers)"
  by (auto simp: validate_port_def)

lemma port_loop_ok:
  "is_ok (try_fold (validate_port name) (names, numbers) ports) \<longleftrightarrow>
     (\<forall>p \<in> set ports. valid_dns_label (sp_name p) \<and> sp_container_port p \<noteq> 0
        \<and> sp_name p \<notin> set names \<and> (sp_container_port p, sp_protocol p) \<notin> set numbers)
     \<and> distinct (map sp_name ports) \<and> distinct (map (\<lambda>p. (sp_container_port p, sp_protocol p)) ports)"
proof (induction ports arbitrary: names numbers)
  case (Cons p ports)
  show ?case
  proof (cases "validate_port name (names, numbers) p")
    case (Inl e)
    then show ?thesis using validate_port_ok [of name names numbers p] by fastforce
  next
    case (Inr r)
    with validate_port_ok [of name names numbers p r] show ?thesis by (auto simp: Cons.IH image_iff)
  qed
qed simp

lemma is_ok_rbind_unit: "rbind m (\<lambda>_. Inr ()) = Inr () \<longleftrightarrow> is_ok m"
  by (cases m) auto

lemma validate_ports_ok: "validate_ports s = Inr () \<longleftrightarrow> ports_ok (sv_ports s)"
  using port_loop_ok [of "sv_name s" "[]" "[]" "sv_ports s"]
  by (auto simp: validate_ports_def ports_ok_def is_ok_rbind_unit not_less)

lemma env_loop_ok:
  "try_fold (validate_env_entry name) () env = Inr u \<longleftrightarrow>
     (\<forall>(k, v) \<in> set env. valid_environment_key k \<and> str_len v \<le> MAX_ENVIRONMENT_VALUE_BYTES
        \<and> 0 \<notin> set (str_bytes v))"
  by (induction env) (auto simp: validate_env_entry_def not_le split: sum.splits prod.splits)

lemma validate_service_ok:
  assumes "total_replicas \<le> MAX_WORKLOAD_REPLICAS"
  shows "validate_service parse_ipv6 kind (names, total_replicas) s = Inr r \<longleftrightarrow>
     service_ok parse_ipv6 kind s \<and> sv_name s \<notin> set names
     \<and> total_replicas + sv_replicas s \<le> MAX_WORKLOAD_REPLICAS
     \<and> r = (sv_name s # names, total_replicas + sv_replicas s)"
proof -
  have "sat_add_u64 total_replicas (sv_replicas s) = total_replicas + sv_replicas s" if "sv_replicas s \<le> 64"
    using assms that by (simp add: sat_add_u64_def MAX_WORKLOAD_REPLICAS_def)
  then show ?thesis
    by (auto simp: validate_service_def service_ok_def env_ok_def rbind_eq_Inr env_loop_ok Let_def
        MAX_REPLICAS_PER_SERVICE_def not_less validate_ports_ok split: if_splits)
qed

lemma service_loop_ok:
  "total_replicas \<le> MAX_WORKLOAD_REPLICAS \<Longrightarrow>
   is_ok (try_fold (validate_service parse_ipv6 kind) (names, total_replicas) ss) \<longleftrightarrow>
     (\<forall>s \<in> set ss. service_ok parse_ipv6 kind s \<and> sv_name s \<notin> set names)
     \<and> distinct (map sv_name ss) \<and> total_replicas + (\<Sum>s\<leftarrow>ss. sv_replicas s) \<le> MAX_WORKLOAD_REPLICAS"
proof (induction ss arbitrary: names total_replicas)
  case (Cons s ss)
  note step = validate_service_ok [OF Cons.prems, of parse_ipv6 kind names s]
  show ?case
  proof (cases "validate_service parse_ipv6 kind (names, total_replicas) s")
    case (Inl e)
    with step show ?thesis by fastforce
  next
    case (Inr r)
    with validate_service_ok [OF Cons.prems, of parse_ipv6 kind names s r] have r: "r = (sv_name s # names, total_replicas + sv_replicas s)"
      "total_replicas + sv_replicas s \<le> MAX_WORKLOAD_REPLICAS"
      "service_ok parse_ipv6 kind s" "sv_name s \<notin> set names" by auto
    show ?thesis using Inr r Cons.IH [OF r(2), of "sv_name s # names"] by (auto simp: image_iff)
  qed
qed simp

lemma validate_workload_iff:
  "validate_workload parse_ipv6 json_len spec = Inr () \<longleftrightarrow> workload_ok parse_ipv6 json_len spec"
proof -
  have loop: "is_ok (try_fold (validate_service parse_ipv6 (ws_game_kind spec)) ([], 0) (ws_services spec)) \<longleftrightarrow>
     (\<forall>s \<in> set (ws_services spec). service_ok parse_ipv6 (ws_game_kind spec) s)
     \<and> distinct (map sv_name (ws_services spec))
     \<and> (\<Sum>s\<leftarrow>ws_services spec. sv_replicas s) \<le> MAX_WORKLOAD_REPLICAS"
    using service_loop_ok [of 0 parse_ipv6 "ws_game_kind spec" "[]" "ws_services spec"] by simp
  have len: "1 \<le> length (ws_services spec) \<longleftrightarrow> ws_services spec \<noteq> []" by (cases "ws_services spec") auto
  show ?thesis
    unfolding workload_ok_def validate_workload_def rbind_eq_Inr validate_platform_ok [symmetric]
    using loop len
    by (auto simp: is_ok_iff rbind_eq_Inr not_less split: if_splits option.splits)
qed

section \<open>Main results\<close>

text \<open>
  C30. Validation is exact: a workload passes precisely when it satisfies the declarative conditions:
  a platform a worker can report, one to 32 services with distinct DNS names (exactly one, with
  one replica, outside Jeopardy), valid images, resources, environments and ports in each, replicas
  only for stateless Jeopardy services and at most 512 in all, a primary endpoint that exists, a
  flag target that exists if there is one, and an encoding within the frame budget.
\<close>

theorem validate_workload_exact:
  "validate_workload parse_ipv6 json_len spec = Inr () \<longleftrightarrow> workload_ok parse_ipv6 json_len spec"
  by (rule validate_workload_iff)

text \<open>
  The scanner of repository components accepts exactly the reference grammar: runs of lowercase
  letters and digits joined by a period, one or two underscores or any number of hyphens, with no
  separator at either end and no other byte anywhere. In particular it always terminates.
\<close>

theorem repository_component_grammar:
  "valid_repository_component v \<longleftrightarrow> repository_component (str_bytes v)"
  using repository_scan_complete [of "str_bytes v"] repository_scan_sound [of "str_bytes v"]
    component_head [of "str_bytes v"]
  by (auto simp: valid_repository_component_def split: list.splits)

text \<open>
  An accepted workload can be placed unambiguously: its primary endpoint selects exactly one
  service and exactly one port of it, and the port's number is not used twice in that service.
\<close>

theorem primary_endpoint_unique:
  assumes "validate_workload parse_ipv6 json_len spec = Inr ()"
  shows "\<exists>!s. s \<in> set (ws_services spec) \<and> sv_name s = ep_service (ws_primary_endpoint spec)
    \<and> (\<exists>!p. p \<in> set (sv_ports s) \<and> sp_name p = ep_port (ws_primary_endpoint spec))
    \<and> distinct (map (\<lambda>p. (sp_container_port p, sp_protocol p)) (sv_ports s))"
proof -
  have ok: "workload_ok parse_ipv6 json_len spec"
    using assms by (simp add: validate_workload_iff)
  then have names: "distinct (map sv_name (ws_services spec))" and "endpoint_valid spec"
    by (simp_all add: workload_ok_def)
  then obtain s p where s: "s \<in> set (ws_services spec)" "sv_name s = ep_service (ws_primary_endpoint spec)"
    and p: "p \<in> set (sv_ports s)" "sp_name p = ep_port (ws_primary_endpoint spec)"
    by (auto simp: endpoint_valid_def list_ex_iff)
  have "ports_ok (sv_ports s)" using ok s(1) by (auto simp: workload_ok_def service_ok_def)
  then have "distinct (map sp_name (sv_ports s))"
    and numbers: "distinct (map (\<lambda>p. (sp_container_port p, sp_protocol p)) (sv_ports s))"
    by (simp_all add: ports_ok_def)
  from this(1) have "\<exists>!p. p \<in> set (sv_ports s) \<and> sp_name p = ep_port (ws_primary_endpoint spec)"
    using p by (metis (mono_tags, lifting) distinct_map inj_onD)
  note port_unique = this
  have unique: "s' = s" if "s' \<in> set (ws_services spec)" "sv_name s' = ep_service (ws_primary_endpoint spec)" for s'
    using names that s inj_onD [of sv_name "set (ws_services spec)" s' s] by (simp add: distinct_map)
  show ?thesis
    by (rule ex1I [of _ s], intro conjI) (fact s port_unique numbers | (elim conjE, rule unique, assumption+))+
qed

definition sample_image :: image_identity where
  "sample_image = WorkerLocal 9 (lit ''sha256:'' @ replicate 64 97)"

definition sample_service :: service_spec where
  "sample_service =
    \<lparr> sv_name = lit ''web'', sv_image = sample_image,
      sv_resources = \<lparr> rl_cpu_millis = 100, rl_memory_bytes = 1024, rl_storage_bytes = 1024 \<rparr>,
      sv_replicas = 1, sv_stateless = False, sv_environment = [],
      sv_ports = [\<lparr> sp_name = lit ''http'', sp_container_port = 80, sp_protocol = Tcp \<rparr>] \<rparr>"

definition sample_workload :: workload_spec where
  "sample_workload =
    \<lparr> ws_game_kind = AttackDefense,
      ws_platform = \<lparr> pl_operating_system = Linux, pl_architecture = lit ''amd64'', pl_windows_build = None \<rparr>,
      ws_services = [sample_service],
      ws_primary_endpoint = \<lparr> ep_service = lit ''web'', ep_port = lit ''http'' \<rparr>,
      ws_flag_target = None \<rparr>"

lemma sample_workload_accepted: "validate_workload (\<lambda>_. False) (\<lambda>_. Some 500) sample_workload = Inr ()"
proof -
  have "str_bytes (replicate 64 97) = replicate 64 97" by (rule str_bytes_ascii) simp
  then have img: "validate_image (\<lambda>_. False) sample_image = Inr ()"
    by (simp add: sample_image_def validate_image_def lit_def str_len_def ascii_hexdigit_def list_all_iff)
  show ?thesis
    by (simp add: validate_workload_def sample_workload_def sample_service_def validate_platform_def
        is_valid_architecture_def validate_service_def valid_dns_label_def img validate_ports_def
        validate_port_def endpoint_valid_def flag_target_invalid_def lit_def ascii_alnum_def
        ascii_alpha_def ascii_lower_def ascii_upper_def ascii_digit_def MAX_ARCHITECTURE_BYTES_def
        MAX_SERVICES_def MAX_REPLICAS_PER_SERVICE_def MAX_WORKLOAD_REPLICAS_def sat_add_u64_def
        MAX_ENVIRONMENT_ENTRIES_def MAX_PORTS_PER_SERVICE_def MAX_WORKLOAD_SPEC_BYTES_def Let_def)
qed

theorem primary_endpoint_unique_witness:
  "validate_workload (\<lambda>_. False) (\<lambda>_. Some 500) sample_workload = Inr ()
   \<and> (\<exists>!s. s \<in> set (ws_services sample_workload) \<and> sv_name s = ep_service (ws_primary_endpoint sample_workload)
        \<and> (\<exists>!p. p \<in> set (sv_ports s) \<and> sp_name p = ep_port (ws_primary_endpoint sample_workload))
        \<and> distinct (map (\<lambda>p. (sp_container_port p, sp_protocol p)) (sv_ports s)))"
  using primary_endpoint_unique [OF sample_workload_accepted] sample_workload_accepted by blast

end
