(* ===== verification/Worker_Wire.thy ===== *)
theory Worker_Wire
  imports Workload_Spec
begin

text \<open>
  The wire contract between the control plane and its worker agents, from
  \<^verbatim>\<open>lib/worker-protocol/src/{lib,control,data,framing}.rs\<close>: the control messages, the
  length-prefixed JSON frames, and the binary header that opens a data stream. The JSON encoder
  and decoder are arguments. A reader consumes a byte list, the bytes its peer sends before it
  closes the connection, so a short read is an I/O error.
\<close>

section \<open>Control messages\<close>

definition PROTOCOL_REVISION :: nat where "PROTOCOL_REVISION = 2"
definition CONTROL_ALPN :: bytes where "CONTROL_ALPN = lit ''rsctf-worker-control/1''"
definition DATA_ALPN :: bytes where "DATA_ALPN = lit ''rsctf-worker-data/1''"
definition MAX_WORKER_SLOTS :: nat where "MAX_WORKER_SLOTS = 4096"

datatype runtime_kind = Docker | Kubernetes | RuntimeKindUnavailable

datatype runtime_endpoint_kind = UnixSocket | WindowsNamedPipe | KubernetesConfig

record runtime_descriptor =
  rd_kind :: runtime_kind
  rd_version :: "ustr option"
  rd_endpoint_kind :: "runtime_endpoint_kind option"

record worker_capabilities =
  wc_storage_quota_enforced :: "bool option"
  wc_ensure_workload :: bool
  wc_write_flag :: bool
  wc_tcp_proxy :: bool
  wc_interactive_exec :: bool
  wc_inventory :: bool
  wc_local_image_build :: bool
  wc_max_data_lanes :: nat
  wc_max_workload_replicas :: nat

record worker_capacity =
  wc_cpu_millis :: nat
  wc_memory_bytes :: nat
  wc_slots :: nat

record worker_hello =
  wh_protocol_revision :: nat
  wh_worker_id :: uuid
  wh_boot_id :: uuid
  wh_agent_version :: ustr
  wh_platform :: platform
  wh_runtime :: runtime_descriptor
  wh_capabilities :: worker_capabilities
  wh_capacity :: worker_capacity
  wh_labels :: "(ustr \<times> ustr) list"

record session_fence =
  sf_session_id :: uuid
  sf_session_epoch :: nat

record workload_fence =
  wf_workload_id :: uuid
  wf_assignment_id :: uuid
  wf_generation :: nat

record session_limits =
  sl_max_control_frame_bytes :: nat
  sl_max_in_flight_commands :: nat
  sl_max_data_lanes :: nat
  sl_max_streams_per_lane :: nat

record server_welcome =
  sw_protocol_revision :: nat
  sw_session :: session_fence
  sw_heartbeat_interval_ms :: nat
  sw_lease_timeout_ms :: nat
  sw_limits :: session_limits
  sw_certificate_renewal :: bool

record renew_certificate =
  rc_operation_id :: uuid
  rc_csr_pem :: ustr

record certificate_renewed =
  cr_operation_id :: uuid
  cr_certificate_pem :: ustr

record resource_usage =
  ru_reserved_cpu_millis :: nat
  ru_reserved_memory_bytes :: nat
  ru_running_workloads :: nat

record heartbeat =
  hb_sent_at_unix_ms :: int
  hb_usage :: resource_usage
  hb_runtime_healthy :: bool
  hb_runtime_error :: "ustr option"

record inventory_request =
  ir_command_id :: uuid
  ir_snapshot_id :: uuid

record ensure_workload =
  ew_command_id :: uuid
  ew_fence :: workload_fence
  ew_spec_hash :: ustr
  ew_timeout_ms :: nat
  ew_spec :: workload_spec

record ensure_absent =
  ea_command_id :: uuid
  ea_fence :: workload_fence
  ea_spec_hash :: ustr
  ea_timeout_ms :: nat

record write_flag =
  wr_command_id :: uuid
  wr_fence :: workload_fence
  wr_flag_sequence :: nat
  wr_target :: flag_target
  wr_value :: ustr
  wr_timeout_ms :: nat

datatype ack_disposition = AckAccepted | AckBusy | AckStale | AckRejected

record command_ack =
  ca_command_id :: uuid
  ca_disposition :: ack_disposition
  ca_detail :: "ustr option"

datatype command_error_code =
    CodeUnsupported | CodeInvalidSpec | CodeStaleSession | CodeStaleAssignment | CodeStaleGeneration
  | CodeStaleFlagSequence | CodeSpecConflict | CodeRuntimeUnavailable | CodeTimeout | CodeNotFound
  | CodePartialFailure | CodeInternal

record command_error =
  ce_code :: command_error_code
  ce_message :: ustr
  ce_failed_replicas :: "ustr list"

record command_result =
  cr_command_id :: uuid
  cr_success :: bool
  cr_error :: "command_error option"

datatype observed_workload_state =
  ObservedUnknown | ObservedReconciling | ObservedReady | ObservedDegraded | ObservedFailed | ObservedAbsent

record replica_status =
  rs_service :: ustr
  rs_replica :: nat
  rs_ready :: bool
  rs_runtime_id :: "ustr option"
  rs_detail :: "ustr option"

record workload_status =
  wo_fence :: workload_fence
  wo_spec_hash :: ustr
  wo_state :: observed_workload_state
  wo_replicas :: "replica_status list"
  wo_detail :: "ustr option"

record inventory_item =
  ii_fence :: workload_fence
  ii_spec_hash :: ustr
  ii_state :: observed_workload_state
  ii_replicas :: "replica_status list"

record inventory_page =
  ip_snapshot_id :: uuid
  ip_page :: nat
  ip_final_page :: bool
  ip_items :: "inventory_item list"

datatype control_message =
    RenewCertificate renew_certificate
  | CertificateRenewed certificate_renewed
  | Heartbeat heartbeat
  | InventoryRequest inventory_request
  | EnsureWorkload ensure_workload
  | EnsureAbsent ensure_absent
  | WriteFlag write_flag
  | CommandAck command_ack
  | CommandResult command_result
  | InventoryPage inventory_page
  | WorkloadStatus workload_status

record control_envelope =
  env_protocol_revision :: nat
  env_message_id :: uuid
  env_reply_to :: "uuid option"
  env_session_epoch :: nat
  env_body :: control_message

text \<open>The fresh random identifier of a message is an argument.\<close>

definition envelope_new :: "uuid \<Rightarrow> nat \<Rightarrow> control_message \<Rightarrow> control_envelope" where
  "envelope_new new_id session_epoch body =
    \<lparr> env_protocol_revision = PROTOCOL_REVISION, env_message_id = new_id, env_reply_to = None,
      env_session_epoch = session_epoch, env_body = body \<rparr>"

definition envelope_reply :: "uuid \<Rightarrow> control_envelope \<Rightarrow> control_message \<Rightarrow> control_envelope" where
  "envelope_reply new_id message body =
    \<lparr> env_protocol_revision = PROTOCOL_REVISION, env_message_id = new_id,
      env_reply_to = Some (env_message_id message), env_session_epoch = env_session_epoch message,
      env_body = body \<rparr>"

fun message_workload_fence :: "control_message \<Rightarrow> workload_fence option" where
  "message_workload_fence (EnsureWorkload m) = Some (ew_fence m)"
| "message_workload_fence (EnsureAbsent m) = Some (ea_fence m)"
| "message_workload_fence (WriteFlag m) = Some (wr_fence m)"
| "message_workload_fence (WorkloadStatus m) = Some (wo_fence m)"
| "message_workload_fence _ = None"

definition envelope_workload_fence :: "control_envelope \<Rightarrow> workload_fence option" where
  "envelope_workload_fence e = message_workload_fence (env_body e)"

fun message_command_id :: "control_message \<Rightarrow> uuid option" where
  "message_command_id (InventoryRequest m) = Some (ir_command_id m)"
| "message_command_id (EnsureWorkload m) = Some (ew_command_id m)"
| "message_command_id (EnsureAbsent m) = Some (ea_command_id m)"
| "message_command_id (WriteFlag m) = Some (wr_command_id m)"
| "message_command_id (CommandAck m) = Some (ca_command_id m)"
| "message_command_id (CommandResult m) = Some (cr_command_id m)"
| "message_command_id _ = None"

section \<open>Reading and writing bytes\<close>

text \<open>
  \<open>write_u16\<close> and \<open>write_u32\<close> send the low two or four bytes of a value, most significant first;
  \<open>read_exact\<close> takes a fixed number of bytes or fails.
\<close>

primrec to_be :: "nat \<Rightarrow> nat \<Rightarrow> bytes" where
  "to_be 0 n = []"
| "to_be (Suc k) n = to_be k (n div 256) @ [n mod 256]"

definition from_be :: "bytes \<Rightarrow> nat" where
  "from_be bs = foldl (\<lambda>acc b. 256 * acc + b) 0 bs"

definition read_exact :: "nat \<Rightarrow> bytes \<Rightarrow> (bytes \<times> bytes) option" where
  "read_exact n bs = (if n \<le> length bs then Some (take n bs, drop n bs) else None)"

text \<open>\<open>serde_json::to_vec\<close> and \<open>serde_json::from_slice\<close> at one type.\<close>

record 'a json_codec =
  to_vec :: "'a \<Rightarrow> bytes option"
  from_slice :: "bytes \<Rightarrow> 'a option"

definition json_faithful :: "'a json_codec \<Rightarrow> 'a \<Rightarrow> bool" where
  "json_faithful c v \<longleftrightarrow> (\<forall>p. to_vec c v = Some p \<longrightarrow> from_slice c p = Some v)"

section \<open>Control frames\<close>

definition MAX_CONTROL_FRAME :: nat where "MAX_CONTROL_FRAME = 256 * 1024"

datatype frame_error = FrameEmpty | FrameTooLarge nat nat | FrameIo | FrameJson

definition write_json_frame :: "'a json_codec \<Rightarrow> 'a \<Rightarrow> (frame_error, bytes) result" where
  "write_json_frame c v =
    (case to_vec c v of
       None \<Rightarrow> Inl FrameJson
     | Some payload \<Rightarrow>
         if payload = [] then Inl FrameEmpty
         else if length payload > MAX_CONTROL_FRAME
         then Inl (FrameTooLarge (length payload) MAX_CONTROL_FRAME)
         else Inr (to_be 4 (length payload) @ payload))"

definition read_json_frame_counted ::
  "'a json_codec \<Rightarrow> bytes \<Rightarrow> (frame_error, ('a \<times> nat) \<times> bytes) result" where
  "read_json_frame_counted c bs =
    (case read_exact 4 bs of
       None \<Rightarrow> Inl FrameIo
     | Some (prefix_bytes, bs1) \<Rightarrow>
         let len = from_be prefix_bytes
         in if len = 0 then Inl FrameEmpty
            else if len > MAX_CONTROL_FRAME then Inl (FrameTooLarge len MAX_CONTROL_FRAME)
            else case read_exact len bs1 of
                   None \<Rightarrow> Inl FrameIo
                 | Some (payload, rest) \<Rightarrow>
                     (case from_slice c payload of
                        None \<Rightarrow> Inl FrameJson
                      | Some v \<Rightarrow> Inr ((v, len), rest)))"

definition read_json_frame :: "'a json_codec \<Rightarrow> bytes \<Rightarrow> (frame_error, 'a \<times> bytes) result" where
  "read_json_frame c bs = rbind (read_json_frame_counted c bs) (\<lambda>((v, _), rest). Inr (v, rest))"

section \<open>Data streams\<close>

definition DATA_MAGIC :: bytes where "DATA_MAGIC = lit ''RSD1''"
definition MAX_DATA_HEADER :: nat where "MAX_DATA_HEADER = 8 * 1024"

record data_hello =
  dh_protocol_revision :: nat
  dh_worker_id :: uuid
  dh_session :: session_fence
  dh_lane :: nat

definition data_hello_new :: "uuid \<Rightarrow> session_fence \<Rightarrow> nat \<Rightarrow> data_hello" where
  "data_hello_new worker_id session lane =
    \<lparr> dh_protocol_revision = PROTOCOL_REVISION, dh_worker_id = worker_id, dh_session = session,
      dh_lane = lane \<rparr>"

record data_welcome =
  dw_protocol_revision :: nat
  dw_session :: session_fence
  dw_lane :: nat

datatype data_status =
    StatusReady | StatusNotFound | StatusStale | StatusBusy | StatusForbidden
  | StatusRuntimeUnavailable | StatusDialFailed | StatusUnsupported | StatusInternal

datatype data_stream_error =
    DataIo | InvalidMagic | UnknownKind nat | UnknownStatus nat | EmptyHeader
  | HeaderTooLarge nat nat | DataJson

datatype data_stream_kind = KindTcpProxy | KindInteractiveExec

definition kind_as_u8 :: "data_stream_kind \<Rightarrow> nat" where
  "kind_as_u8 k = (case k of KindTcpProxy \<Rightarrow> 1 | KindInteractiveExec \<Rightarrow> 2)"

definition kind_try_from :: "nat \<Rightarrow> (data_stream_error, data_stream_kind) result" where
  "kind_try_from v =
    (if v = 1 then Inr KindTcpProxy else if v = 2 then Inr KindInteractiveExec else Inl (UnknownKind v))"

record tcp_proxy_request =
  tp_fence :: workload_fence
  tp_service :: ustr
  tp_port :: ustr
  tp_replica :: "nat option"

record interactive_exec_request =
  ie_fence :: workload_fence
  ie_service :: ustr
  ie_replica :: nat
  ie_columns :: nat
  ie_rows :: nat

datatype data_stream_request = TcpProxy tcp_proxy_request | InteractiveExec interactive_exec_request

definition request_kind :: "data_stream_request \<Rightarrow> data_stream_kind" where
  "request_kind r = (case r of TcpProxy _ \<Rightarrow> KindTcpProxy | InteractiveExec _ \<Rightarrow> KindInteractiveExec)"

definition request_workload_fence :: "data_stream_request \<Rightarrow> workload_fence" where
  "request_workload_fence r = (case r of TcpProxy q \<Rightarrow> tp_fence q | InteractiveExec q \<Rightarrow> ie_fence q)"

definition status_as_u8 :: "data_status \<Rightarrow> nat" where
  "status_as_u8 s = (case s of StatusReady \<Rightarrow> 0 | StatusNotFound \<Rightarrow> 1 | StatusStale \<Rightarrow> 2 | StatusBusy \<Rightarrow> 3
     | StatusForbidden \<Rightarrow> 4 | StatusRuntimeUnavailable \<Rightarrow> 5 | StatusDialFailed \<Rightarrow> 6
     | StatusUnsupported \<Rightarrow> 7 | StatusInternal \<Rightarrow> 8)"

definition status_try_from :: "nat \<Rightarrow> (data_stream_error, data_status) result" where
  "status_try_from v =
    (if v = 0 then Inr StatusReady else if v = 1 then Inr StatusNotFound else if v = 2 then Inr StatusStale
     else if v = 3 then Inr StatusBusy else if v = 4 then Inr StatusForbidden
     else if v = 5 then Inr StatusRuntimeUnavailable else if v = 6 then Inr StatusDialFailed
     else if v = 7 then Inr StatusUnsupported else if v = 8 then Inr StatusInternal
     else Inl (UnknownStatus v))"

definition write_data_status :: "data_status \<Rightarrow> bytes" where
  "write_data_status s = [status_as_u8 s]"

definition read_data_status :: "bytes \<Rightarrow> (data_stream_error, data_status \<times> bytes) result" where
  "read_data_status bs =
    (case bs of [] \<Rightarrow> Inl DataIo | b # rest \<Rightarrow> rbind (status_try_from b) (\<lambda>s. Inr (s, rest)))"

type_synonym request_codec = "tcp_proxy_request json_codec \<times> interactive_exec_request json_codec"

definition write_data_request ::
  "request_codec \<Rightarrow> data_stream_request \<Rightarrow> (data_stream_error, bytes) result" where
  "write_data_request c request =
    (case (case request of TcpProxy q \<Rightarrow> to_vec (fst c) q | InteractiveExec q \<Rightarrow> to_vec (snd c) q) of
       None \<Rightarrow> Inl DataJson
     | Some header \<Rightarrow>
         if header = [] then Inl EmptyHeader
         else if length header > MAX_DATA_HEADER
         then Inl (HeaderTooLarge (length header) MAX_DATA_HEADER)
         else Inr (DATA_MAGIC @ [kind_as_u8 (request_kind request)] @ [0] @ to_be 2 (length header) @ header))"

definition parse_header ::
  "request_codec \<Rightarrow> data_stream_kind \<Rightarrow> bytes \<Rightarrow> data_stream_request option" where
  "parse_header c kind header =
    (case kind of
       KindTcpProxy \<Rightarrow> map_option TcpProxy (from_slice (fst c) header)
     | KindInteractiveExec \<Rightarrow> map_option InteractiveExec (from_slice (snd c) header))"

definition read_data_request ::
  "request_codec \<Rightarrow> bytes \<Rightarrow> (data_stream_error, data_stream_request \<times> bytes) result" where
  "read_data_request c bs =
    (case read_exact 4 bs of
       None \<Rightarrow> Inl DataIo
     | Some (magic, bs1) \<Rightarrow>
         if magic \<noteq> DATA_MAGIC then Inl InvalidMagic
         else case read_exact 1 bs1 of
           None \<Rightarrow> Inl DataIo
         | Some (kind_byte, bs2) \<Rightarrow>
             rbind (kind_try_from (from_be kind_byte)) (\<lambda>kind.
             case read_exact 1 bs2 of
               None \<Rightarrow> Inl DataIo
             | Some (_, bs3) \<Rightarrow>
                 (case read_exact 2 bs3 of
                    None \<Rightarrow> Inl DataIo
                  | Some (len_bytes, bs4) \<Rightarrow>
                      let len = from_be len_bytes
                      in if len = 0 then Inl EmptyHeader
                         else if len > MAX_DATA_HEADER then Inl (HeaderTooLarge len MAX_DATA_HEADER)
                         else case read_exact len bs4 of
                                None \<Rightarrow> Inl DataIo
                              | Some (header, rest) \<Rightarrow>
                                  (case parse_header c kind header of
                                     None \<Rightarrow> Inl DataJson
                                   | Some request \<Rightarrow> Inr (request, rest)))))"

section \<open>Transports\<close>

text \<open>The write loop of a connection sends queued messages until one fails; the reader takes them one by one.\<close>

fun write_seq :: "('a \<Rightarrow> ('e, bytes) result) \<Rightarrow> 'a list \<Rightarrow> ('e, bytes) result" where
  "write_seq send [] = Inr []"
| "write_seq send (v # vs) = rbind (send v) (\<lambda>w. rbind (write_seq send vs) (\<lambda>ws. Inr (w @ ws)))"

fun read_seq :: "(bytes \<Rightarrow> ('e, 'a \<times> bytes) result) \<Rightarrow> nat \<Rightarrow> bytes \<Rightarrow> ('e, 'a list \<times> bytes) result" where
  "read_seq recv 0 bs = Inr ([], bs)"
| "read_seq recv (Suc n) bs =
    rbind (recv bs) (\<lambda>(v, bs'). rbind (read_seq recv n bs') (\<lambda>(vs, rest). Inr (v # vs, rest)))"

text \<open>
  What each of the three encodings promises its users: a reader gets back what was written and
  leaves the bytes after it, and no proper part of an encoded value is read as a value.
  \<open>faithful\<close> says that JSON decoding inverts encoding on the value; \<open>closed\<close> is the error
  of a connection that ended.
\<close>

locale framed_transport =
  fixes send :: "'c \<Rightarrow> 'a \<Rightarrow> ('e, bytes) result"
    and recv :: "'c \<Rightarrow> bytes \<Rightarrow> ('e, 'a \<times> bytes) result"
    and faithful :: "'c \<Rightarrow> 'a \<Rightarrow> bool"
    and closed :: 'e
  assumes read_write: "faithful c v \<Longrightarrow> send c v = Inr w \<Longrightarrow> recv c (w @ rest) = Inr (v, rest)"
    and read_short: "send c v = Inr w \<Longrightarrow> n < length w \<Longrightarrow> recv c (take n w) = Inl closed"
begin

lemma seq_roundtrip:
  "\<forall>v \<in> set vs. faithful c v \<Longrightarrow> write_seq (send c) vs = Inr w \<Longrightarrow>
   read_seq (recv c) (length vs) (w @ rest) = Inr (vs, rest)"
  by (induction vs arbitrary: w) (auto simp: rbind_eq_Inr read_write)

lemma seq_truncated:
  "\<forall>v \<in> set vs. faithful c v \<Longrightarrow> write_seq (send c) vs = Inr w \<Longrightarrow> n < length w \<Longrightarrow>
   \<exists>k < length vs. (\<exists>r. read_seq (recv c) k (take n w) = Inr (take k vs, r))
     \<and> read_seq (recv c) (Suc k) (take n w) = Inl closed"
proof (induction vs arbitrary: w n)
  case (Cons v vs)
  then obtain w1 ws where w: "send c v = Inr w1" "write_seq (send c) vs = Inr ws" "w = w1 @ ws"
    by (auto simp: rbind_eq_Inr)
  show ?case
  proof (cases "n < length w1")
    case True
    then have "recv c (take n w) = Inl closed" using w read_short by simp
    then show ?thesis by (intro exI [of _ 0]) simp
  next
    case False
    then have cut: "take n w = w1 @ take (n - length w1) ws" using w(3) by simp
    have shorter: "n - length w1 < length ws" using False Cons.prems(3) w(3) by simp
    have "\<forall>v \<in> set vs. faithful c v" using Cons.prems(1) by simp
    from Cons.IH [OF this w(2) shorter] obtain k r where k: "k < length vs" "read_seq (recv c) k (take (n - length w1) ws) = Inr (take k vs, r)"
      "read_seq (recv c) (Suc k) (take (n - length w1) ws) = Inl closed"
      by blast
    have first: "recv c (take n w) = Inr (v, take (n - length w1) ws)"
      using cut read_write [OF _ w(1)] Cons.prems(1) by simp
    show ?thesis
    proof (intro exI [of _ "Suc k"] conjI)
      show "\<exists>r. read_seq (recv c) (Suc k) (take n w) = Inr (take (Suc k) (v # vs), r)"
        using first k(2) by simp
      show "read_seq (recv c) (Suc (Suc k)) (take n w) = Inl closed"
        unfolding read_seq.simps(2) [of _ "Suc k"] first using k(3) by simp
    qed (use k(1) in simp)
  qed
qed simp

end

lemma to_be_length [simp]: "length (to_be k n) = k"
  by (induction k arbitrary: n) auto

lemma to_be_2: "to_be 2 n = [n div 256 mod 256, n mod 256]"
proof -
  have "(2::nat) = Suc (Suc 0)" by simp
  then show ?thesis by (simp only: to_be.simps append.simps)
qed

lemma to_be_4:
  "to_be 4 n = [n div 256 div 256 div 256 mod 256, n div 256 div 256 mod 256, n div 256 mod 256, n mod 256]"
proof -
  have "(4::nat) = Suc (Suc (Suc (Suc 0)))" by simp
  then show ?thesis by (simp only: to_be.simps append.simps)
qed

lemma from_be_append_byte: "from_be (bs @ [b]) = 256 * from_be bs + b"
  by (simp add: from_be_def)

lemma from_to_be: "n < 256 ^ k \<Longrightarrow> from_be (to_be k n) = n"
proof (induction k arbitrary: n)
  case 0
  then show ?case by (simp add: from_be_def)
next
  case (Suc k)
  then have "n div 256 < 256 ^ k" by (simp add: less_mult_imp_div_less mult.commute)
  with Suc.IH show ?case by (simp add: from_be_append_byte)
qed

lemma read_exact_append: "length w = n \<Longrightarrow> read_exact n (w @ rest) = Some (w, rest)"
  by (simp add: read_exact_def)

lemma read_exact_short: "length bs < n \<Longrightarrow> read_exact n bs = None"
  by (simp add: read_exact_def)

lemma read_exact_Some: "read_exact n bs = Some (a, b) \<longleftrightarrow> bs = a @ b \<and> length a = n"
  by (auto simp: read_exact_def)

lemma read_exact_take:
  "length a = k \<Longrightarrow> read_exact k (take n (a @ b)) = (if k \<le> n then Some (a, take (n - k) b) else None)"
  by (auto simp: read_exact_def)

lemma write_json_frame_Inr:
  "write_json_frame c v = Inr w \<longleftrightarrow>
     (\<exists>p. to_vec c v = Some p \<and> p \<noteq> [] \<and> length p \<le> MAX_CONTROL_FRAME \<and> w = to_be 4 (length p) @ p)"
  by (auto simp: write_json_frame_def not_less split: option.splits if_splits)

lemma frame_length_prefix: "length p \<le> MAX_CONTROL_FRAME \<Longrightarrow> from_be (to_be 4 (length p)) = length p"
  by (rule from_to_be) (simp add: MAX_CONTROL_FRAME_def)

interpretation frame: framed_transport write_json_frame read_json_frame json_faithful FrameIo
proof
  fix c :: "'a json_codec" and v w rest n
  assume w: "write_json_frame c v = Inr w"
  then obtain p where p: "to_vec c v = Some p" "p \<noteq> []" "length p \<le> MAX_CONTROL_FRAME" "w = to_be 4 (length p) @ p"
    by (auto simp: write_json_frame_Inr)
  show "read_json_frame c (w @ rest) = Inr (v, rest)" if "json_faithful c v"
    using p that
    by (simp add: read_json_frame_def read_json_frame_counted_def read_exact_append frame_length_prefix json_faithful_def)
  show "read_json_frame c (take n w) = Inl FrameIo" if "n < length w"
    unfolding p(4) read_json_frame_def read_json_frame_counted_def
    using p(2,3) that [unfolded p(4)]
    by (simp add: read_exact_take frame_length_prefix read_exact_short del: take_append)
qed

lemma kind_roundtrip [simp]: "kind_try_from (kind_as_u8 k) = Inr k"
  by (cases k) (simp_all add: kind_try_from_def kind_as_u8_def)

lemma status_roundtrip [simp]: "status_try_from (status_as_u8 s) = Inr s"
  by (cases s) (simp_all add: status_try_from_def status_as_u8_def)

definition request_faithful :: "request_codec \<Rightarrow> data_stream_request \<Rightarrow> bool" where
  "request_faithful c r =
    (case r of TcpProxy q \<Rightarrow> json_faithful (fst c) q | InteractiveExec q \<Rightarrow> json_faithful (snd c) q)"

definition encode_header :: "request_codec \<Rightarrow> data_stream_request \<Rightarrow> bytes option" where
  "encode_header c r = (case r of TcpProxy q \<Rightarrow> to_vec (fst c) q | InteractiveExec q \<Rightarrow> to_vec (snd c) q)"

lemma parse_encode_header:
  "request_faithful c r \<Longrightarrow> encode_header c r = Some h \<Longrightarrow> parse_header c (request_kind r) h = Some r"
  by (cases r) (auto simp: request_faithful_def encode_header_def parse_header_def request_kind_def json_faithful_def)

lemma write_data_request_Inr:
  "write_data_request c r = Inr w \<longleftrightarrow>
     (\<exists>h. encode_header c r = Some h \<and> h \<noteq> [] \<and> length h \<le> MAX_DATA_HEADER
        \<and> w = DATA_MAGIC @ [kind_as_u8 (request_kind r)] @ [0] @ to_be 2 (length h) @ h)"
  by (auto simp: write_data_request_def encode_header_def not_less split: option.splits if_splits)

lemma header_length_prefix: "length h \<le> MAX_DATA_HEADER \<Longrightarrow> from_be (to_be 2 (length h)) = length h"
  by (rule from_to_be) (simp add: MAX_DATA_HEADER_def)

lemma magic_length [simp]: "length DATA_MAGIC = 4"
  by (simp add: DATA_MAGIC_def lit_def)

lemma from_be_byte [simp]: "from_be [b] = b"
  by (simp add: from_be_def)

interpretation request: framed_transport write_data_request read_data_request request_faithful DataIo
proof
  fix c r w rest n
  assume w: "write_data_request c r = Inr w"
  then obtain h where h: "encode_header c r = Some h" "h \<noteq> []" "length h \<le> MAX_DATA_HEADER"
    "w = DATA_MAGIC @ [kind_as_u8 (request_kind r)] @ [0] @ to_be 2 (length h) @ h"
    by (auto simp: write_data_request_Inr)
  note recv = read_data_request_def read_exact_append header_length_prefix [OF h(3)]
  show "read_data_request c (w @ rest) = Inr (r, rest)" if "request_faithful c r"
    unfolding h(4) append_assoc using h(2,3) parse_encode_header [OF that h(1)]
    by (simp add: recv read_exact_append [of "[x]" 1 for x, simplified] del: append_Cons)
  show "read_data_request c (take n w) = Inl DataIo" if "n < length w"
    unfolding h(4) using h(2,3) that [unfolded h(4)]
    by (simp add: recv read_exact_take [of _ 1, simplified] read_exact_take read_exact_short
        del: take_append append_Cons)
qed

interpretation status: framed_transport "\<lambda>_ s. Inr (write_data_status s)" "\<lambda>_. read_data_status" "\<lambda>_ _. True" DataIo
  by unfold_locales (auto simp: write_data_status_def read_data_status_def)

section \<open>Main results\<close>

text \<open>
  C32. What the peer of a control connection reads: if the write loop sends a sequence of messages
  on which JSON decoding inverts encoding, the reader gets exactly these messages in order and
  stops before the bytes that follow; and if the connection ends anywhere inside that output, the
  reader gets some of the messages, from the first on, and then an I/O error, never a message that
  was not sent.
\<close>

theorem control_stream_delivery:
  assumes "\<forall>v \<in> set vs. json_faithful c v" and "write_seq (write_json_frame c) vs = Inr w"
  shows "read_seq (read_json_frame c) (length vs) (w @ rest) = Inr (vs, rest)
    \<and> (\<forall>n < length w. \<exists>k < length vs.
         (\<exists>r. read_seq (read_json_frame c) k (take n w) = Inr (take k vs, r))
         \<and> read_seq (read_json_frame c) (Suc k) (take n w) = Inl FrameIo)"
  using frame.seq_roundtrip [OF assms] frame.seq_truncated [OF assms] by blast

definition sample_codec :: "nat json_codec" where
  "sample_codec = \<lparr> to_vec = (\<lambda>n. Some [48 + n]), from_slice = (\<lambda>p. Some (hd p - 48)) \<rparr>"

lemma sample_codec_faithful: "json_faithful sample_codec n"
  by (simp add: json_faithful_def sample_codec_def)

lemma length_two: "length [a, b] = 2"
  by simp

theorem control_stream_delivery_witness:
  "\<exists>w. write_seq (write_json_frame sample_codec) [2, 0] = Inr w
    \<and> read_seq (read_json_frame sample_codec) 2 (w @ [7]) = Inr ([2, 0], [7])
    \<and> (\<forall>n < length w. \<exists>k < 2.
         (\<exists>r. read_seq (read_json_frame sample_codec) k (take n w) = Inr (take k [2, 0], r))
         \<and> read_seq (read_json_frame sample_codec) (Suc k) (take n w) = Inl FrameIo)"
proof -
  have "write_seq (write_json_frame sample_codec) [2, 0] = Inr ([0, 0, 0, 1, 50] @ [0, 0, 0, 1, 48])"
    by (simp add: write_json_frame_def sample_codec_def MAX_CONTROL_FRAME_def to_be_4)
  then have w: "write_seq (write_json_frame sample_codec) [2, 0] = Inr [0, 0, 0, 1, 50, 0, 0, 0, 1, 48]"
    by simp
  have "\<forall>v \<in> set [2, 0]. json_faithful sample_codec v" using sample_codec_faithful by blast
  note d = control_stream_delivery [OF this w, of "[7]", unfolded length_two]
  show ?thesis
    using w conjunct1 [OF d] conjunct2 [OF d]
    by (intro exI [of _ "[0, 0, 0, 1, 50, 0, 0, 0, 1, 48]"] conjI)
qed

text \<open>
  Opening a data stream: a request whose header JSON can be decoded is read back with its kind,
  after at most 8 + 8192 bytes, leaving the tunnelled bytes that follow; a header cut short is an
  I/O error; and every status byte is read back as the status that was sent.
\<close>

theorem data_stream_open_roundtrip:
  assumes "request_faithful c r" and "write_data_request c r = Inr w"
  shows "read_data_request c (w @ rest) = Inr (r, rest)
    \<and> length w \<le> 8 + MAX_DATA_HEADER
    \<and> (\<forall>n < length w. read_data_request c (take n w) = Inl DataIo)
    \<and> (\<forall>s. read_data_status (write_data_status s @ rest) = Inr (s, rest))"
  using request.read_write [OF assms] request.read_short [OF assms(2)] assms(2)
  by (auto simp: write_data_request_Inr status.read_write)

definition sample_fence :: workload_fence where
  "sample_fence = \<lparr> wf_workload_id = 5, wf_assignment_id = 6, wf_generation = 3 \<rparr>"

definition sample_request :: tcp_proxy_request where
  "sample_request =
    \<lparr> tp_fence = sample_fence, tp_service = lit ''web'', tp_port = lit ''http'', tp_replica = None \<rparr>"

definition sample_request_codec :: request_codec where
  "sample_request_codec =
    (\<lparr> to_vec = (\<lambda>q. Some [123]), from_slice = (\<lambda>p. Some sample_request) \<rparr>,
     \<lparr> to_vec = (\<lambda>q. None), from_slice = (\<lambda>p. None) \<rparr>)"

theorem data_stream_open_roundtrip_witness:
  "request_faithful sample_request_codec (TcpProxy sample_request)
   \<and> write_data_request sample_request_codec (TcpProxy sample_request) = Inr [82, 83, 68, 49, 1, 0, 0, 1, 123]
   \<and> read_data_request sample_request_codec ([82, 83, 68, 49, 1, 0, 0, 1, 123] @ [7]) = Inr (TcpProxy sample_request, [7])"
proof -
  have ok: "request_faithful sample_request_codec (TcpProxy sample_request)"
    by (simp add: request_faithful_def json_faithful_def sample_request_codec_def)
  have w: "write_data_request sample_request_codec (TcpProxy sample_request) = Inr [82, 83, 68, 49, 1, 0, 0, 1, 123]"
    by (simp add: write_data_request_def sample_request_codec_def DATA_MAGIC_def lit_def kind_as_u8_def
        request_kind_def MAX_DATA_HEADER_def to_be_2)
  from data_stream_open_roundtrip [OF ok w, of "[7]"] ok w show ?thesis by blast
qed

text \<open>
  C33. The readers accept exactly the documented layout, for any bytes a peer may send: a frame is a
  four-byte big-endian length between 1 and 256 KiB and that many bytes of valid JSON; a data header
  is the magic, a known kind, a flags byte that is ignored, a two-byte length between 1 and 8 KiB and
  a header that parses at the type of its kind. The bytes after it are left untouched.
\<close>

theorem wire_readers_exact:
  "(read_json_frame_counted jc bs = Inr ((v, n), rest) \<longleftrightarrow>
      (\<exists>l p. bs = l @ p @ rest \<and> length l = 4 \<and> from_be l = length p \<and> n = length p
         \<and> 0 < n \<and> n \<le> MAX_CONTROL_FRAME \<and> from_slice jc p = Some v))
   \<and> (read_data_request rc bs = Inr (r, rest) \<longleftrightarrow>
      (\<exists>flags l h. bs = DATA_MAGIC @ [kind_as_u8 (request_kind r), flags] @ l @ h @ rest
         \<and> length l = 2 \<and> from_be l = length h \<and> 0 < length h \<and> length h \<le> MAX_DATA_HEADER
         \<and> parse_header rc (request_kind r) h = Some r))"
proof (rule conjI)
  show "read_json_frame_counted jc bs = Inr ((v, n), rest) \<longleftrightarrow>
      (\<exists>l p. bs = l @ p @ rest \<and> length l = 4 \<and> from_be l = length p \<and> n = length p
         \<and> 0 < n \<and> n \<le> MAX_CONTROL_FRAME \<and> from_slice jc p = Some v)" (is "?L \<longleftrightarrow> ?R")
  proof
    show "?L \<Longrightarrow> ?R"
      by (auto simp: read_json_frame_counted_def Let_def case_option_eq_Inr if_error_eq_Inr read_exact_Some not_less) metis
    show "?R \<Longrightarrow> ?L"
      by (auto simp: read_json_frame_counted_def read_exact_append)
  qed
next
  show "read_data_request rc bs = Inr (r, rest) \<longleftrightarrow>
      (\<exists>flags l h. bs = DATA_MAGIC @ [kind_as_u8 (request_kind r), flags] @ l @ h @ rest
         \<and> length l = 2 \<and> from_be l = length h \<and> 0 < length h \<and> length h \<le> MAX_DATA_HEADER
         \<and> parse_header rc (request_kind r) h = Some r)" (is "?L \<longleftrightarrow> ?R")
  proof
    assume ?L
    then obtain kb kind flags l h where bs: "bs = DATA_MAGIC @ kb @ flags @ l @ h @ rest"
      and len: "length kb = 1" "length flags = 1" "length l = 2" "length h = from_be l" "0 < from_be l"
        "from_be l \<le> MAX_DATA_HEADER"
      and kind: "kind_try_from (from_be kb) = Inr kind" "parse_header rc kind h = Some r"
      by (auto simp: read_data_request_def Let_def case_option_eq_Inr if_error_eq_Inr read_exact_Some
          rbind_eq_Inr not_less)
    obtain k f where "kb = [k]" "flags = [f]" using len(1,2) by (auto simp: length_Suc_conv)
    moreover have "kind = request_kind r"
      using kind(2) by (auto simp: parse_header_def request_kind_def split: data_stream_kind.splits)
    moreover have "kind_as_u8 kind = k"
      using kind(1) \<open>kb = [k]\<close> by (auto simp: kind_try_from_def kind_as_u8_def split: if_splits)
    ultimately show ?R
      using bs len(3-6) kind(2) by (intro exI [of _ f] exI [of _ l] exI [of _ h]) simp
  next
    assume ?R
    then show ?L
      by (auto simp: read_data_request_def read_exact_def)
  qed
qed

end
