(* ===== verification/Control_Admission.thy ===== *)
theory Control_Admission
  imports Rsctf_Prelude
begin

text \<open>
  The token buckets that meter the control traffic of one worker session, from
  \<^verbatim>\<open>src/services/worker/control_admission.rs\<close>. Instants are nanoseconds of the monotonic clock;
  the sampled instant of a call is an argument.
\<close>

section \<open>Token buckets\<close>

definition NANOS_PER_SECOND :: nat where "NANOS_PER_SECOND = 1000000000"

abbreviation u128_max :: nat where "u128_max \<equiv> 340282366920938463463374607431768211455"

definition sat_add_u128 :: "nat \<Rightarrow> nat \<Rightarrow> nat" where
  [rust_int]: "sat_add_u128 a b = min u128_max (a + b)"

definition sat_mul_u128 :: "nat \<Rightarrow> nat \<Rightarrow> nat" where
  [rust_int]: "sat_mul_u128 a b = min u128_max (a * b)"

record token_bucket =
  tb_refill_per_second :: nat
  tb_capacity :: nat
  tb_available :: nat
  tb_fractional_nanos :: nat
  tb_last_refill :: nat

definition bucket_new :: "nat \<Rightarrow> nat \<Rightarrow> nat \<Rightarrow> token_bucket" where
  "bucket_new refill_per_second capacity now =
    \<lparr> tb_refill_per_second = refill_per_second, tb_capacity = capacity, tb_available = capacity,
      tb_fractional_nanos = 0, tb_last_refill = now \<rparr>"

definition refill :: "nat \<Rightarrow> token_bucket \<Rightarrow> token_bucket" where
  "refill now b =
    (let elapsed = now - tb_last_refill b;
         b = b \<lparr> tb_last_refill := now \<rparr>
     in if tb_available b = tb_capacity b then b \<lparr> tb_fractional_nanos := 0 \<rparr>
        else let numerator = sat_add_u128 (sat_mul_u128 elapsed (tb_refill_per_second b)) (tb_fractional_nanos b);
                 generated = min (numerator div NANOS_PER_SECOND) usize_max;
                 missing = tb_capacity b - tb_available b
             in if generated \<ge> missing
                then b \<lparr> tb_available := tb_capacity b, tb_fractional_nanos := 0 \<rparr>
                else b \<lparr> tb_available := tb_available b + generated,
                         tb_fractional_nanos := numerator mod NANOS_PER_SECOND \<rparr>)"

definition can_take :: "nat \<Rightarrow> token_bucket \<Rightarrow> bool" where
  "can_take amount b \<longleftrightarrow> tb_available b \<ge> amount"

definition take_tokens :: "nat \<Rightarrow> token_bucket \<Rightarrow> token_bucket" where
  "take_tokens amount b = b \<lparr> tb_available := tb_available b - amount \<rparr>"

section \<open>Control admission\<close>

record control_admission =
  adm_messages :: token_bucket
  adm_bytes :: token_bucket

definition control_admission_new_at :: "nat \<Rightarrow> nat \<Rightarrow> nat \<Rightarrow> nat \<Rightarrow> nat \<Rightarrow> control_admission" where
  "control_admission_new_at messages_per_second message_burst bytes_per_second byte_burst now =
    \<lparr> adm_messages = bucket_new messages_per_second message_burst now,
      adm_bytes = bucket_new bytes_per_second byte_burst now \<rparr>"

definition try_admit_at :: "nat \<Rightarrow> nat \<Rightarrow> control_admission \<Rightarrow> bool \<times> control_admission" where
  "try_admit_at payload_bytes now a =
    (let a = a \<lparr> adm_messages := refill now (adm_messages a) \<rparr>;
         a = a \<lparr> adm_bytes := refill now (adm_bytes a) \<rparr>
     in if \<not> can_take 1 (adm_messages a) \<or> \<not> can_take payload_bytes (adm_bytes a) then (False, a)
        else let a = a \<lparr> adm_messages := take_tokens 1 (adm_messages a) \<rparr>;
                 a = a \<lparr> adm_bytes := take_tokens payload_bytes (adm_bytes a) \<rparr>
             in (True, a))"

text \<open>A sequence of calls, each with its payload length and instant, and their verdicts.\<close>

fun admit_all :: "(nat \<times> nat) list \<Rightarrow> control_admission \<Rightarrow> bool list \<times> control_admission" where
  "admit_all [] a = ([], a)"
| "admit_all ((payload, now) # calls) a =
    (let (ok, a1) = try_admit_at payload now a;
         (oks, a2) = admit_all calls a1
     in (ok # oks, a2))"

text \<open>The lengths of the admitted payloads.\<close>

definition admitted :: "(nat \<times> nat) list \<Rightarrow> bool list \<Rightarrow> nat list" where
  "admitted calls oks = map (fst \<circ> fst) (filter snd (zip calls oks))"

section \<open>Tokens as a potential\<close>

definition bucket_wf :: "nat \<Rightarrow> nat \<Rightarrow> token_bucket \<Rightarrow> bool" where
  "bucket_wf rate cap b \<longleftrightarrow> tb_refill_per_second b = rate \<and> tb_capacity b = cap
     \<and> tb_available b \<le> cap \<and> tb_fractional_nanos b < NANOS_PER_SECOND
     \<and> (tb_available b = cap \<longrightarrow> tb_fractional_nanos b = 0)"

text \<open>The tokens of a bucket in billionths, with the fraction carried to the next refill.\<close>

definition potential :: "token_bucket \<Rightarrow> nat" where
  "potential b = tb_available b * NANOS_PER_SECOND + tb_fractional_nanos b"

lemma nanos_positive [simp]: "0 < NANOS_PER_SECOND"
  by (simp add: NANOS_PER_SECOND_def)

lemma bucket_new_wf [simp]: "bucket_wf rate cap (bucket_new rate cap now)"
  by (simp add: bucket_wf_def bucket_new_def)

lemma potential_bounded: "bucket_wf rate cap b \<Longrightarrow> potential b \<le> cap * NANOS_PER_SECOND"
proof -
  assume wf: "bucket_wf rate cap b"
  show ?thesis
  proof (cases "tb_available b = cap")
    case True
    then show ?thesis using wf by (simp add: bucket_wf_def potential_def)
  next
    case False
    then have "Suc (tb_available b) \<le> cap" using wf by (simp add: bucket_wf_def)
    then have "Suc (tb_available b) * NANOS_PER_SECOND \<le> cap * NANOS_PER_SECOND" by (rule mult_right_mono) simp
    then show ?thesis using wf by (simp add: bucket_wf_def potential_def)
  qed
qed

lemma refill_wf: "bucket_wf rate cap b \<Longrightarrow> bucket_wf rate cap (refill now b)"
  by (auto simp: bucket_wf_def refill_def Let_def not_le)

lemma refill_last [simp]: "tb_last_refill (refill now b) = now"
  by (simp add: refill_def Let_def)

text \<open>A refill adds at most the time passed at the bucket's rate.\<close>

lemma refill_potential:
  assumes "bucket_wf rate cap b"
  shows "potential (refill now b) \<le> potential b + rate * (now - tb_last_refill b)"
proof (cases "tb_available b = tb_capacity b")
  case True
  then show ?thesis using assms by (simp add: refill_def potential_def bucket_wf_def)
next
  case False
  define numerator where "numerator = sat_add_u128 (sat_mul_u128 (now - tb_last_refill b) rate) (tb_fractional_nanos b)"
  define generated where "generated = min (numerator div NANOS_PER_SECOND) usize_max"
  have num: "numerator \<le> rate * (now - tb_last_refill b) + tb_fractional_nanos b"
    by (simp add: numerator_def sat_add_u128_def sat_mul_u128_def mult.commute min_le_iff_disj)
  have gen: "generated * NANOS_PER_SECOND + numerator mod NANOS_PER_SECOND \<le> numerator"
  proof -
    have "generated * NANOS_PER_SECOND \<le> (numerator div NANOS_PER_SECOND) * NANOS_PER_SECOND"
      by (intro mult_right_mono) (simp_all add: generated_def)
    with div_mult_mod_eq [of numerator NANOS_PER_SECOND] show ?thesis by linarith
  qed
  have step: "refill now b =
      (if cap - tb_available b \<le> generated
       then b \<lparr> tb_last_refill := now, tb_available := cap, tb_fractional_nanos := 0 \<rparr>
       else b \<lparr> tb_last_refill := now, tb_available := tb_available b + generated,
                tb_fractional_nanos := numerator mod NANOS_PER_SECOND \<rparr>)"
    using False assms by (simp add: refill_def bucket_wf_def Let_def numerator_def generated_def)
  show ?thesis
  proof (cases "cap - tb_available b \<le> generated")
    case True
    then have "cap * NANOS_PER_SECOND \<le> (tb_available b + generated) * NANOS_PER_SECOND"
      by (intro mult_right_mono) simp_all
    moreover have "potential (refill now b) = cap * NANOS_PER_SECOND" using True by (simp add: step potential_def)
    ultimately show ?thesis using num gen by (simp add: potential_def add_mult_distrib)
  next
    case less: False
    then have "potential (refill now b)
        = (tb_available b + generated) * NANOS_PER_SECOND + numerator mod NANOS_PER_SECOND"
      by (simp add: step potential_def)
    then show ?thesis using num gen by (simp add: potential_def add_mult_distrib)
  qed
qed

lemma take_wf: "bucket_wf rate cap b \<Longrightarrow> can_take amount b \<Longrightarrow> bucket_wf rate cap (take_tokens amount b)"
  by (cases amount) (auto simp: bucket_wf_def take_tokens_def can_take_def)

lemma take_potential:
  "can_take amount b \<Longrightarrow> potential (take_tokens amount b) + amount * NANOS_PER_SECOND = potential b"
  by (simp add: potential_def take_tokens_def can_take_def flip: add_mult_distrib)

lemma take_last [simp]: "tb_last_refill (take_tokens amount b) = tb_last_refill b"
  by (simp add: take_tokens_def)

section \<open>Metering as an interface\<close>

text \<open>
  A meter is refilled with the passing of time and spent from; whatever its representation, these
  laws bound what can be spent in any stretch of time. A call either spends an amount the refilled
  meter can give or spends nothing.
\<close>

type_synonym spending = "(nat \<times> nat option) list"

fun spend_all :: "(nat \<Rightarrow> 'b \<Rightarrow> 'b) \<Rightarrow> (nat \<Rightarrow> 'b \<Rightarrow> 'b) \<Rightarrow> spending \<Rightarrow> 'b \<Rightarrow> 'b" where
  "spend_all fill tak [] b = b"
| "spend_all fill tak ((now, a) # cs) b =
    spend_all fill tak cs (case a of None \<Rightarrow> fill now b | Some n \<Rightarrow> tak n (fill now b))"

fun affordable :: "(nat \<Rightarrow> 'b \<Rightarrow> 'b) \<Rightarrow> (nat \<Rightarrow> 'b \<Rightarrow> bool) \<Rightarrow> (nat \<Rightarrow> 'b \<Rightarrow> 'b) \<Rightarrow> spending \<Rightarrow> 'b \<Rightarrow> bool" where
  "affordable fill can tak [] b = True"
| "affordable fill can tak ((now, a) # cs) b =
    ((case a of None \<Rightarrow> True | Some n \<Rightarrow> can n (fill now b))
     \<and> affordable fill can tak cs (case a of None \<Rightarrow> fill now b | Some n \<Rightarrow> tak n (fill now b)))"

definition spent :: "spending \<Rightarrow> nat" where
  "spent cs = (\<Sum>(now, a)\<leftarrow>cs. case a of None \<Rightarrow> 0 | Some n \<Rightarrow> n)"

locale token_meter =
  fixes wf :: "'b \<Rightarrow> bool" and tokens :: "'b \<Rightarrow> nat" and filled_at :: "'b \<Rightarrow> nat"
    and fill :: "nat \<Rightarrow> 'b \<Rightarrow> 'b" and can :: "nat \<Rightarrow> 'b \<Rightarrow> bool" and tak :: "nat \<Rightarrow> 'b \<Rightarrow> 'b"
    and rate :: nat and cap :: nat and unit :: nat
  assumes fill_wf: "wf b \<Longrightarrow> wf (fill now b)"
    and fill_tokens: "wf b \<Longrightarrow> tokens (fill now b) \<le> tokens b + rate * (now - filled_at b)"
    and fill_at: "filled_at (fill now b) = now"
    and tak_wf: "wf b \<Longrightarrow> can n b \<Longrightarrow> wf (tak n b)"
    and tak_tokens: "can n b \<Longrightarrow> tokens (tak n b) + n * unit = tokens b"
    and tak_at: "filled_at (tak n b) = filled_at b"
    and tokens_bounded: "wf b \<Longrightarrow> tokens b \<le> cap * unit"
begin

lemma spend_wf: "wf b \<Longrightarrow> affordable fill can tak cs b \<Longrightarrow> wf (spend_all fill tak cs b)"
  by (induction cs arbitrary: b) (auto simp: fill_wf tak_wf split: option.splits)

lemma spend_tokens:
  "wf b \<Longrightarrow> affordable fill can tak cs b \<Longrightarrow> sorted (filled_at b # map fst cs) \<Longrightarrow>
   tokens (spend_all fill tak cs b) + spent cs * unit
     \<le> tokens b + rate * (last (filled_at b # map fst cs) - filled_at b)"
proof (induction cs arbitrary: b)
  case (Cons c cs)
  obtain now a where c: "c = (now, a)" by fastforce
  define b' where "b' = (case a of None \<Rightarrow> fill now b | Some n \<Rightarrow> tak n (fill now b))"
  have b': "wf b'" "affordable fill can tak cs b'" "filled_at b' = now"
    using Cons.prems(1,2) by (auto simp: b'_def c fill_wf tak_wf fill_at tak_at split: option.splits)
  have step: "tokens b' + (case a of None \<Rightarrow> 0 | Some n \<Rightarrow> n) * unit \<le> tokens b + rate * (now - filled_at b)"
    using Cons.prems(1,2) fill_tokens [OF Cons.prems(1), of now] tak_tokens [of _ "fill now b"]
    by (auto simp: b'_def c split: option.splits)
  have rest: "tokens (spend_all fill tak cs b') + spent cs * unit
      \<le> tokens b' + rate * (last (now # map fst cs) - now)"
    using Cons.IH [OF b'(1,2)] Cons.prems(3) by (simp add: b'(3) c)
  have "now \<le> last (now # map fst cs)" "filled_at b \<le> now"
    using Cons.prems(3) last_in_set [of cs] by (auto simp: c last_map)
  then have "rate * (now - filled_at b) + rate * (last (now # map fst cs) - now)
      = rate * (last (now # map fst cs) - filled_at b)"
    by (simp flip: add_mult_distrib2)
  then show ?case
    using step rest by (simp add: c b'_def spent_def add_mult_distrib)
qed (simp add: spent_def)

lemma spend_bounded:
  assumes "wf b" "affordable fill can tak cs b" "sorted (filled_at b # map fst cs)"
  shows "spent cs * unit \<le> cap * unit + rate * (last (filled_at b # map fst cs) - filled_at b)"
  using spend_tokens [OF assms] tokens_bounded [OF assms(1)] by linarith

end

interpretation bucket: token_meter "bucket_wf rate cap" potential tb_last_refill refill can_take take_tokens
    rate cap NANOS_PER_SECOND for rate cap
  by unfold_locales
    (auto simp: refill_wf refill_potential take_wf take_potential potential_bounded)

text \<open>Each bucket of a session sees the calls as a spending of its own.\<close>

definition message_spending :: "(nat \<times> nat) list \<Rightarrow> bool list \<Rightarrow> spending" where
  "message_spending calls oks = map (\<lambda>((_, now), ok). (now, if ok then Some 1 else None)) (zip calls oks)"

definition byte_spending :: "(nat \<times> nat) list \<Rightarrow> bool list \<Rightarrow> spending" where
  "byte_spending calls oks = map (\<lambda>((payload, now), ok). (now, if ok then Some payload else None)) (zip calls oks)"

lemma admit_all_length: "admit_all calls a = (oks, a') \<Longrightarrow> length oks = length calls"
  by (induction calls a arbitrary: oks a' rule: admit_all.induct) (auto simp: Let_def split: prod.splits)

lemma admit_all_spending:
  "admit_all calls a = (oks, a') \<Longrightarrow>
   adm_messages a' = spend_all refill take_tokens (message_spending calls oks) (adm_messages a)
   \<and> affordable refill can_take take_tokens (message_spending calls oks) (adm_messages a)
   \<and> adm_bytes a' = spend_all refill take_tokens (byte_spending calls oks) (adm_bytes a)
   \<and> affordable refill can_take take_tokens (byte_spending calls oks) (adm_bytes a)"
proof (induction calls a arbitrary: oks a' rule: admit_all.induct)
  case (2 payload now calls a)
  obtain ok a1 where step: "try_admit_at payload now a = (ok, a1)" by fastforce
  obtain oks1 where rest: "admit_all calls a1 = (oks1, a')" "oks = ok # oks1"
    using "2.prems" step by (auto simp: Let_def split: prod.splits)
  have "adm_messages a1 = (if ok then take_tokens 1 (refill now (adm_messages a)) else refill now (adm_messages a))"
    "adm_bytes a1 = (if ok then take_tokens payload (refill now (adm_bytes a)) else refill now (adm_bytes a))"
    "ok \<Longrightarrow> can_take 1 (refill now (adm_messages a)) \<and> can_take payload (refill now (adm_bytes a))"
    using step by (auto simp: try_admit_at_def Let_def split: if_splits)
  with "2.IH" [OF step [symmetric] refl rest(1)] show ?case
    by (cases ok) (simp_all add: rest(2) message_spending_def byte_spending_def)
qed (simp add: message_spending_def byte_spending_def)

lemma spending_times:
  "length oks = length calls \<Longrightarrow> map fst (message_spending calls oks) = map snd calls"
  "length oks = length calls \<Longrightarrow> map fst (byte_spending calls oks) = map snd calls"
  by (induction oks calls rule: list_induct2) (auto simp: message_spending_def byte_spending_def)

lemma spending_totals:
  "length oks = length calls \<Longrightarrow> spent (message_spending calls oks) = length (admitted calls oks)"
  "length oks = length calls \<Longrightarrow> spent (byte_spending calls oks) = sum_list (admitted calls oks)"
  by (induction oks calls rule: list_induct2)
    (auto simp: message_spending_def byte_spending_def spent_def admitted_def)

text \<open>A bucket left alone long enough is full again.\<close>

lemma refill_full:
  assumes "bucket_wf rate cap b" "cap \<le> usize_max" "cap * NANOS_PER_SECOND \<le> rate * (now - tb_last_refill b)"
  shows "tb_available (refill now b) = cap"
proof (cases "tb_available b = cap")
  case False
  define numerator where "numerator = sat_add_u128 (sat_mul_u128 (now - tb_last_refill b) rate) (tb_fractional_nanos b)"
  have "cap * NANOS_PER_SECOND \<le> u128_max"
    using assms(2) mult_right_mono [of cap usize_max NANOS_PER_SECOND] by (simp add: NANOS_PER_SECOND_def)
  with assms(3) have "cap * NANOS_PER_SECOND \<le> numerator"
    by (auto simp: numerator_def sat_add_u128_def sat_mul_u128_def mult.commute)
  then have "cap \<le> numerator div NANOS_PER_SECOND" by (simp add: less_eq_div_iff_mult_less_eq)
  then have "cap - tb_available b \<le> min (numerator div NANOS_PER_SECOND) usize_max"
    using assms(2) by (auto intro: le_trans [OF diff_le_self])
  with False assms(1) show ?thesis by (simp add: refill_def bucket_wf_def Let_def numerator_def)
qed (use assms(1) in \<open>simp add: refill_def bucket_wf_def\<close>)

definition admission_wf :: "nat \<Rightarrow> nat \<Rightarrow> nat \<Rightarrow> nat \<Rightarrow> control_admission \<Rightarrow> bool" where
  "admission_wf messages_per_second message_burst bytes_per_second byte_burst a \<longleftrightarrow>
     bucket_wf messages_per_second message_burst (adm_messages a)
     \<and> bucket_wf bytes_per_second byte_burst (adm_bytes a)"

lemma admit_all_wf:
  assumes "admission_wf mr mb br bb a" "admit_all calls a = (oks, a')"
  shows "admission_wf mr mb br bb a'"
  using assms(1) admit_all_spending [OF assms(2)] bucket.spend_wf by (auto simp: admission_wf_def)

lemma try_admit_last:
  "try_admit_at payload now a = (ok, a') \<Longrightarrow>
   tb_last_refill (adm_messages a') = now \<and> tb_last_refill (adm_bytes a') = now"
  by (auto simp: try_admit_at_def Let_def split: if_splits)

lemma admit_all_last:
  "admit_all calls a = (oks, a') \<Longrightarrow> tb_last_refill (adm_messages a) = t \<Longrightarrow> tb_last_refill (adm_bytes a) = t \<Longrightarrow>
   tb_last_refill (adm_messages a') = last (t # map snd calls) \<and> tb_last_refill (adm_bytes a') = last (t # map snd calls)"
proof (induction calls a arbitrary: oks a' t rule: admit_all.induct)
  case (2 payload now calls a)
  obtain ok a1 where step: "try_admit_at payload now a = (ok, a1)" by fastforce
  then obtain oks1 where "admit_all calls a1 = (oks1, a')"
    using "2.prems" by (auto simp: Let_def split: prod.splits)
  with "2.IH" [OF step [symmetric] refl this] try_admit_last [OF step] show ?case by simp
qed simp

lemma admit_all_bounded:
  assumes "admission_wf mr mb br bb a" "admit_all calls a = (oks, a')"
    and "tb_last_refill (adm_messages a) = t" "tb_last_refill (adm_bytes a) = t" "sorted (t # map snd calls)"
  shows "length (admitted calls oks) * NANOS_PER_SECOND
      \<le> mb * NANOS_PER_SECOND + mr * (last (t # map snd calls) - t)
    \<and> sum_list (admitted calls oks) * NANOS_PER_SECOND
      \<le> bb * NANOS_PER_SECOND + br * (last (t # map snd calls) - t)"
proof -
  note len = admit_all_length [OF assms(2)] and s = admit_all_spending [OF assms(2)]
  have "spent (message_spending calls oks) * NANOS_PER_SECOND
      \<le> mb * NANOS_PER_SECOND + mr * (last (t # map snd calls) - t)"
    using bucket.spend_bounded [of mr mb "adm_messages a" "message_spending calls oks"] assms s
    by (simp add: admission_wf_def spending_times [OF len])
  moreover have "spent (byte_spending calls oks) * NANOS_PER_SECOND
      \<le> bb * NANOS_PER_SECOND + br * (last (t # map snd calls) - t)"
    using bucket.spend_bounded [of br bb "adm_bytes a" "byte_spending calls oks"] assms s
    by (simp add: admission_wf_def spending_times [OF len])
  ultimately show ?thesis by (simp add: spending_totals [OF len])
qed

lemma admission_new_wf [simp]:
  "admission_wf mr mb br bb (control_admission_new_at mr mb br bb now)"
  by (simp add: admission_wf_def control_admission_new_at_def)

lemma admission_new_last [simp]:
  "tb_last_refill (adm_messages (control_admission_new_at mr mb br bb now)) = now"
  "tb_last_refill (adm_bytes (control_admission_new_at mr mb br bb now)) = now"
  by (simp_all add: control_admission_new_at_def bucket_new_def)

lemma sorted_from_last: "sorted (xs @ ys) \<Longrightarrow> xs \<noteq> [] \<Longrightarrow> sorted (last xs # ys)"
  by (simp add: sorted_append)

section \<open>Main results\<close>

text \<open>
  C31. The control quota holds in every stretch of a session: after any earlier calls, the messages
  and the bytes admitted in the following calls never exceed the burst plus the rate times the time
  from the last earlier call to the last following one, exactly and with no rounding in the worker's
  favour, for every sequence of payloads and every non-decreasing sequence of instants.
\<close>

theorem control_quota_bounds_every_interval:
  assumes "admit_all earlier (control_admission_new_at mr mb br bb start) = (oks, a)"
    and "admit_all calls a = (oks', a')"
    and "sorted (start # map snd earlier @ map snd calls)"
  shows "length (admitted calls oks') * NANOS_PER_SECOND
      \<le> mb * NANOS_PER_SECOND + mr * (last (start # map snd (earlier @ calls)) - last (start # map snd earlier))
    \<and> sum_list (admitted calls oks') * NANOS_PER_SECOND
      \<le> bb * NANOS_PER_SECOND + br * (last (start # map snd (earlier @ calls)) - last (start # map snd earlier))"
proof -
  let ?t = "last (start # map snd earlier)"
  have at: "tb_last_refill (adm_messages a) = ?t" "tb_last_refill (adm_bytes a) = ?t"
    using admit_all_last [OF assms(1), of start] by simp_all
  have "last (start # map snd (earlier @ calls)) = last (?t # map snd calls)" by (cases calls) auto
  moreover have "sorted (?t # map snd calls)"
    using assms(3) sorted_from_last [of "start # map snd earlier" "map snd calls"] by simp
  ultimately show ?thesis
    using admit_all_bounded [OF admit_all_wf [OF admission_new_wf assms(1)] assms(2) at] by metis
qed

definition sample_admission :: control_admission where
  "sample_admission =
    \<lparr> adm_messages = \<lparr> tb_refill_per_second = 2, tb_capacity = 2, tb_available = 1, tb_fractional_nanos = 0,
                      tb_last_refill = 0 \<rparr>,
      adm_bytes = \<lparr> tb_refill_per_second = 10, tb_capacity = 10, tb_available = 5, tb_fractional_nanos = 0,
                   tb_last_refill = 0 \<rparr> \<rparr>"

lemma sample_admission_calls:
  "admit_all [(5, 0)] (control_admission_new_at 2 2 10 10 0) = ([True], sample_admission)"
  "fst (admit_all [(5, 0), (9, 500000000)] sample_admission) = [True, False]"
  by (simp_all add: sample_admission_def control_admission_new_at_def bucket_new_def try_admit_at_def refill_def
      can_take_def take_tokens_def NANOS_PER_SECOND_def sat_add_u128_def sat_mul_u128_def)

theorem control_quota_bounds_every_interval_witness:
  "admit_all [(5, 0)] (control_admission_new_at 2 2 10 10 0) = ([True], sample_admission)
   \<and> fst (admit_all [(5, 0), (9, 500000000)] sample_admission) = [True, False]
   \<and> length (admitted [(5, 0), (9, 500000000)] [True, False]) * NANOS_PER_SECOND
      \<le> 2 * NANOS_PER_SECOND + 2 * 500000000"
proof -
  have second: "admit_all [(5, 0), (9, 500000000)] sample_admission
      = ([True, False], snd (admit_all [(5, 0), (9, 500000000)] sample_admission))"
    using sample_admission_calls(2) by (metis prod.collapse)
  show ?thesis
    using control_quota_bounds_every_interval [OF sample_admission_calls(1) second] sample_admission_calls
    by simp
qed

text \<open>
  A call is refused only if a message token or the payload's byte tokens are missing after the
  refill, a refusal spends nothing, and no payload within the burst is refused for ever: once both
  buckets have had the time to fill, it is admitted.
\<close>

theorem control_refusal_is_recoverable:
  assumes "admit_all earlier (control_admission_new_at mr mb br bb start) = (oks, a)"
    and "try_admit_at payload now a = (ok, a')"
  shows "(\<not> ok \<longleftrightarrow> tb_available (refill now (adm_messages a)) < 1
             \<or> tb_available (refill now (adm_bytes a)) < payload)
    \<and> (\<not> ok \<longrightarrow> adm_messages a' = refill now (adm_messages a) \<and> adm_bytes a' = refill now (adm_bytes a))
    \<and> (1 \<le> mb \<and> payload \<le> bb \<and> mb \<le> usize_max \<and> bb \<le> usize_max
        \<and> mb * NANOS_PER_SECOND \<le> mr * (now - last (start # map snd earlier))
        \<and> bb * NANOS_PER_SECOND \<le> br * (now - last (start # map snd earlier)) \<longrightarrow> ok)"
proof (intro conjI)
  show refused: "\<not> ok \<longleftrightarrow> tb_available (refill now (adm_messages a)) < 1
      \<or> tb_available (refill now (adm_bytes a)) < payload"
    using assms(2) by (auto simp: try_admit_at_def can_take_def Let_def split: if_splits)
  show "\<not> ok \<longrightarrow> adm_messages a' = refill now (adm_messages a) \<and> adm_bytes a' = refill now (adm_bytes a)"
    using assms(2) by (auto simp: try_admit_at_def Let_def split: if_splits)
  have wf: "admission_wf mr mb br bb a" by (rule admit_all_wf [OF admission_new_wf assms(1)])
  have at: "tb_last_refill (adm_messages a) = last (start # map snd earlier)"
    "tb_last_refill (adm_bytes a) = last (start # map snd earlier)"
    using admit_all_last [OF assms(1), of start] by simp_all
  show "1 \<le> mb \<and> payload \<le> bb \<and> mb \<le> usize_max \<and> bb \<le> usize_max
        \<and> mb * NANOS_PER_SECOND \<le> mr * (now - last (start # map snd earlier))
        \<and> bb * NANOS_PER_SECOND \<le> br * (now - last (start # map snd earlier)) \<longrightarrow> ok"
    using wf refused refill_full [of mr mb "adm_messages a" now] refill_full [of br bb "adm_bytes a" now]
    unfolding admission_wf_def at by fastforce
qed

theorem control_refusal_is_recoverable_witness:
  "admit_all [] (control_admission_new_at 1 1 10 10 0) = ([], control_admission_new_at 1 1 10 10 0)
   \<and> try_admit_at 11 0 (control_admission_new_at 1 1 10 10 0) = (False, control_admission_new_at 1 1 10 10 0)
   \<and> adm_messages (control_admission_new_at 1 1 10 10 0) = refill 0 (adm_messages (control_admission_new_at 1 1 10 10 0))"
proof -
  let ?a = "control_admission_new_at 1 1 10 10 0"
  have first: "admit_all [] ?a = ([], ?a)" by simp
  have call: "try_admit_at 11 0 ?a = (False, ?a)"
    by (simp add: control_admission_new_at_def bucket_new_def try_admit_at_def refill_def can_take_def)
  from control_refusal_is_recoverable [OF first call] call show ?thesis by simp
qed

end
