(* ===== verification/Worker_Commands.thy ===== *)
theory Worker_Commands
  imports Worker_Wire "HOL-Library.AList"
begin

text \<open>
  Errors of the worker plane (\<^verbatim>\<open>src/services/worker/error.rs\<close>) and the table of lifecycle commands
  that a session waits for (\<^verbatim>\<open>src/services/worker/registry/commands.rs\<close>). A \<open>HashMap\<close> is an
  association list with distinct keys, in its iteration order, so that its length is the number of
  entries. Instants are nanoseconds since the process started.
\<close>

section \<open>Errors\<close>

datatype worker_error =
    Authentication
  | Authorization
  | Protocol string
  | ProtocolOwned ustr
  | RegistryFull
  | Offline
  | StaleSession
  | Busy
  | Authority ustr
  | DataStatusError data_status
  | FrameError frame_error
  | DataStreamError data_stream_error
  | TlsError
  | IoError

section \<open>Hash maps\<close>

text \<open>\<open>insert\<close>, \<open>remove\<close>, \<open>get\<close> and \<open>retain\<close> are \<open>AList.update\<close>, \<open>AList.delete\<close>, \<open>map_of\<close> and \<open>filter\<close>.\<close>

definition keys_distinct :: "('k \<times> 'v) list \<Rightarrow> bool" where
  "keys_distinct m \<longleftrightarrow> distinct (map fst m)"

lemma keys_distinct_Nil [simp]: "keys_distinct []"
  by (simp add: keys_distinct_def)

lemma keys_distinct_update [simp]: "keys_distinct m \<Longrightarrow> keys_distinct (AList.update k v m)"
  by (simp add: keys_distinct_def distinct_update)

lemma keys_distinct_delete [simp]: "keys_distinct m \<Longrightarrow> keys_distinct (AList.delete k m)"
  by (simp add: keys_distinct_def distinct_delete)

lemma keys_distinct_filter [simp]: "keys_distinct m \<Longrightarrow> keys_distinct (filter P m)"
  by (simp add: keys_distinct_def distinct_map_filter)

lemma map_of_update [simp]: "map_of (AList.update k v m) = (map_of m)(k \<mapsto> v)"
  by (simp add: update_conv')

lemma map_of_delete [simp]: "map_of (AList.delete k m) = (map_of m)(k := None)"
  by (simp add: delete_conv')

lemma map_of_filter_keys:
  "keys_distinct m \<Longrightarrow> map_of (filter (\<lambda>(k, v). P k v) m) k =
     (case map_of m k of None \<Rightarrow> None | Some v \<Rightarrow> if P k v then Some v else None)"
  by (induction m) (auto simp: keys_distinct_def map_of_eq_None_iff dest: weak_map_of_SomeI split: option.splits)

lemma length_update: "length (AList.update k v m) = (if k \<in> fst ` set m then length m else Suc (length m))"
  by (induction m) auto

lemma length_delete_le: "length (AList.delete k m) \<le> length m"
  by (simp add: AList.delete_eq)

lemma length_filter_keys_le: "length (filter P m) \<le> length m"
  by simp

section \<open>The command table\<close>

record in_flight_command =
  ic_command_id :: uuid
  ic_message_id :: uuid
  ic_fence :: workload_fence
  ic_spec_hash :: ustr
  ic_deadline :: nat

record command_tracker =
  ct_by_id :: "(uuid \<times> in_flight_command) list"
  ct_by_workload :: "(uuid \<times> uuid) list"

definition tracker_default :: command_tracker where
  "tracker_default = \<lparr> ct_by_id = [], ct_by_workload = [] \<rparr>"

text \<open>The deadline allows the operation between one millisecond and five minutes, and ten seconds more.\<close>

definition lifecycle_command :: "nat \<Rightarrow> control_message \<Rightarrow> uuid \<Rightarrow> in_flight_command option" where
  "lifecycle_command now body message_id =
    (let build = (\<lambda>command_id fence spec_hash timeout_ms.
           let operation_timeout = min (max timeout_ms 1) 300000 * 1000000
           in Some \<lparr> ic_command_id = command_id, ic_message_id = message_id, ic_fence = fence,
                     ic_spec_hash = spec_hash,
                     ic_deadline = now + operation_timeout + 10 * 1000000000 \<rparr>)
     in case body of
          EnsureWorkload c \<Rightarrow> build (ew_command_id c) (ew_fence c) (ew_spec_hash c) (ew_timeout_ms c)
        | EnsureAbsent c \<Rightarrow> build (ea_command_id c) (ea_fence c) (ea_spec_hash c) (ea_timeout_ms c)
        | _ \<Rightarrow> None)"

definition remove_tracked_command :: "in_flight_command \<Rightarrow> command_tracker \<Rightarrow> command_tracker" where
  "remove_tracked_command command t =
    (let present = map_of (ct_by_id t) (ic_command_id command) \<noteq> None;
         t = t \<lparr> ct_by_id := AList.delete (ic_command_id command) (ct_by_id t) \<rparr>
     in if present
           \<and> map_of (ct_by_workload t) (wf_workload_id (ic_fence command)) = Some (ic_command_id command)
        then t \<lparr> ct_by_workload := AList.delete (wf_workload_id (ic_fence command)) (ct_by_workload t) \<rparr>
        else t)"

definition prune_expired_commands :: "nat \<Rightarrow> command_tracker \<Rightarrow> command_tracker" where
  "prune_expired_commands now t =
    (let t = t \<lparr> ct_by_id := filter (\<lambda>(_, command). ic_deadline command > now) (ct_by_id t) \<rparr>
     in t \<lparr> ct_by_workload := filter (\<lambda>(_, command_id). map_of (ct_by_id t) command_id \<noteq> None)
              (ct_by_workload t) \<rparr>)"

text \<open>
  The part of \<open>WorkerRegistry::send\<close> that admits a lifecycle command to the table, at most
  \<open>limit\<close> of them and one for a workload.
\<close>

definition track_command ::
  "nat \<Rightarrow> nat \<Rightarrow> in_flight_command \<Rightarrow> command_tracker \<Rightarrow> (worker_error, unit) result \<times> command_tracker" where
  "track_command limit now command t =
    (let t = prune_expired_commands now t;
         workload_id = wf_workload_id (ic_fence command);
         admit = (\<lambda>t. if length (ct_by_id t) \<ge> limit then (Inl Busy, t)
             else (Inr (), t \<lparr> ct_by_workload := AList.update workload_id (ic_command_id command) (ct_by_workload t),
                              ct_by_id := AList.update (ic_command_id command) command (ct_by_id t) \<rparr>))
     in case map_of (ct_by_workload t) workload_id of
          Some existing_id \<Rightarrow>
            if map_of (ct_by_id t) existing_id \<noteq> None then (Inl Busy, t)
            else admit (t \<lparr> ct_by_id := AList.delete existing_id (ct_by_id t),
                           ct_by_workload := AList.delete workload_id (ct_by_workload t) \<rparr>)
        | None \<Rightarrow> admit t)"

section \<open>What the table keeps\<close>

text \<open>
  Both indexes have distinct keys, the table is within its limit, and every command is the one its
  workload's entry names: so no workload has two commands in flight.
\<close>

definition tracker_ok :: "nat \<Rightarrow> command_tracker \<Rightarrow> bool" where
  "tracker_ok limit t \<longleftrightarrow> keys_distinct (ct_by_id t) \<and> keys_distinct (ct_by_workload t)
     \<and> length (ct_by_id t) \<le> limit
     \<and> (\<forall>c cmd. map_of (ct_by_id t) c = Some cmd \<longrightarrow>
          ic_command_id cmd = c \<and> map_of (ct_by_workload t) (wf_workload_id (ic_fence cmd)) = Some c)"

lemma tracker_default_ok [simp]: "tracker_ok limit tracker_default"
  by (simp add: tracker_ok_def tracker_default_def)

lemma tracker_okD:
  "tracker_ok limit t \<Longrightarrow> map_of (ct_by_id t) c = Some cmd \<Longrightarrow>
   ic_command_id cmd = c \<and> map_of (ct_by_workload t) (wf_workload_id (ic_fence cmd)) = Some c"
  by (simp add: tracker_ok_def)

lemma tracker_ok_unique:
  "tracker_ok limit t \<Longrightarrow> map_of (ct_by_id t) c = Some cmd \<Longrightarrow> map_of (ct_by_id t) c' = Some cmd' \<Longrightarrow>
   wf_workload_id (ic_fence cmd) = wf_workload_id (ic_fence cmd') \<Longrightarrow> c = c'"
  unfolding tracker_ok_def by (metis option.inject)

lemma remove_tracked_ok:
  assumes "tracker_ok limit t"
  shows "tracker_ok limit (remove_tracked_command command t)"
proof -
  let ?t = "remove_tracked_command command t" and ?id = "ic_command_id command"
  have by_id: "ct_by_id ?t = AList.delete ?id (ct_by_id t)"
    and by_workload: "ct_by_workload ?t = ct_by_workload t
      \<or> ct_by_workload ?t = AList.delete (wf_workload_id (ic_fence command)) (ct_by_workload t)
        \<and> map_of (ct_by_workload t) (wf_workload_id (ic_fence command)) = Some ?id"
    by (auto simp: remove_tracked_command_def Let_def)
  have keys: "keys_distinct (ct_by_id ?t)" "keys_distinct (ct_by_workload ?t)"
    "length (ct_by_id ?t) \<le> limit"
    using assms by_id by_workload length_delete_le [of ?id "ct_by_id t"] by (auto simp: tracker_ok_def)
  moreover have "ic_command_id cmd = c \<and> map_of (ct_by_workload ?t) (wf_workload_id (ic_fence cmd)) = Some c"
    if "map_of (ct_by_id ?t) c = Some cmd" for c cmd
  proof -
    have c: "c \<noteq> ?id" "map_of (ct_by_id t) c = Some cmd" using that by (auto simp: by_id split: if_splits)
    with tracker_okD [OF assms c(2)] by_workload show ?thesis by auto
  qed
  ultimately show ?thesis unfolding tracker_ok_def by blast
qed

lemma prune_by_id:
  "keys_distinct (ct_by_id t) \<Longrightarrow> map_of (ct_by_id (prune_expired_commands now t)) c =
     (case map_of (ct_by_id t) c of None \<Rightarrow> None | Some cmd \<Rightarrow> if ic_deadline cmd > now then Some cmd else None)"
  by (simp add: prune_expired_commands_def Let_def map_of_filter_keys [of _ "\<lambda>_ cmd. ic_deadline cmd > now"])

lemma prune_by_workload:
  "keys_distinct (ct_by_workload t) \<Longrightarrow> map_of (ct_by_workload (prune_expired_commands now t)) w =
     (case map_of (ct_by_workload t) w of None \<Rightarrow> None
      | Some c \<Rightarrow> if map_of (ct_by_id (prune_expired_commands now t)) c \<noteq> None then Some c else None)"
  by (simp add: prune_expired_commands_def Let_def
      map_of_filter_keys [of "ct_by_workload t"
        "\<lambda>_ c. \<exists>y. map_of (filter (\<lambda>(_, command). now < ic_deadline command) (ct_by_id t)) c = Some y"]
      split: option.splits)

lemma prune_ok: "tracker_ok limit t \<Longrightarrow> tracker_ok limit (prune_expired_commands now t)"
proof -
  assume ok: "tracker_ok limit t"
  then have keys: "keys_distinct (ct_by_id t)" "keys_distinct (ct_by_workload t)" by (simp_all add: tracker_ok_def)
  have "keys_distinct (ct_by_id (prune_expired_commands now t))"
    "keys_distinct (ct_by_workload (prune_expired_commands now t))"
    "length (ct_by_id (prune_expired_commands now t)) \<le> length (ct_by_id t)"
    using keys by (simp_all add: prune_expired_commands_def Let_def)
  with ok show ?thesis
    unfolding tracker_ok_def
    by (auto simp: prune_by_workload [OF keys(2)] prune_by_id [OF keys(1)] split: option.splits if_splits)
qed

text \<open>After pruning every workload entry names a live command, so a refusal for a workload is justified.\<close>

lemma track_command_cases:
  assumes "tracker_ok limit t"
  shows "track_command limit now command t =
    (let t = prune_expired_commands now t; w = wf_workload_id (ic_fence command)
     in if map_of (ct_by_workload t) w \<noteq> None \<or> length (ct_by_id t) \<ge> limit then (Inl Busy, t)
        else (Inr (), t \<lparr> ct_by_workload := AList.update w (ic_command_id command) (ct_by_workload t),
                         ct_by_id := AList.update (ic_command_id command) command (ct_by_id t) \<rparr>))"
proof -
  have "keys_distinct (ct_by_workload t)" using assms by (simp add: tracker_ok_def)
  then show ?thesis
    by (auto simp: track_command_def Let_def prune_by_workload split: option.splits if_splits)
qed

lemma track_command_ok:
  assumes "tracker_ok limit t"
  shows "tracker_ok limit (snd (track_command limit now command t))"
proof -
  define p where "p = prune_expired_commands now t"
  let ?w = "wf_workload_id (ic_fence command)"
  have p: "tracker_ok limit p" using prune_ok [OF assms] by (simp add: p_def)
  show ?thesis
  proof (cases "map_of (ct_by_workload p) ?w \<noteq> None \<or> length (ct_by_id p) \<ge> limit")
    case True
    with p show ?thesis by (auto simp: track_command_cases [OF assms] Let_def simp flip: p_def)
  next
    case False
    have "wf_workload_id (ic_fence cmd) \<noteq> ?w" if "map_of (ct_by_id p) c = Some cmd" for c cmd
      using tracker_okD [OF p that] False by auto
    with p False show ?thesis
      by (auto simp: track_command_cases [OF assms] Let_def tracker_ok_def length_update simp flip: p_def)
  qed
qed

end
