(* ===== verification/Worker_Lane.thy ===== *)
theory Worker_Lane
  imports Worker_Commands
begin

text \<open>
  One data lane of a worker session, from \<^verbatim>\<open>src/services/worker/data.rs\<close>: the callers that open
  streams and the driver task that owns the multiplexed connection run concurrently and meet in a
  bounded queue and a semaphore. Each step below is what one of them does between two awaits;
  what the connection answers is an argument. Open requests are named by numbers.
\<close>

section \<open>State\<close>

definition DEFAULT_MAX_STREAMS :: nat where "DEFAULT_MAX_STREAMS = 64"
definition DEFAULT_RECEIVE_WINDOW :: nat where "DEFAULT_RECEIVE_WINDOW = 16 * 1024 * 1024"

record data_config =
  dc_max_streams_per_lane :: nat
  dc_max_connection_receive_window :: nat
  dc_pending_open_capacity :: nat
  dc_open_timeout :: nat
  dc_status_timeout :: nat

definition data_config_default :: data_config where
  "data_config_default =
    \<lparr> dc_max_streams_per_lane = DEFAULT_MAX_STREAMS,
      dc_max_connection_receive_window = DEFAULT_RECEIVE_WINDOW,
      dc_pending_open_capacity = DEFAULT_MAX_STREAMS,
      dc_open_timeout = 5 * 1000000000, dc_status_timeout = 5 * 1000000000 \<rparr>"

text \<open>
  A request owns its permit while it is in the channel or in the driver's queue. \<open>dl_callers\<close> are
  the requests whose caller still awaits the answer and \<open>dl_held\<close> those whose caller, or the
  stream it returned, owns the permit.
\<close>

record data_lane =
  dl_id :: uuid
  dl_config :: data_config
  dl_available :: nat
  dl_channel :: "nat list"
  dl_waiting :: "nat list"
  dl_callers :: "nat list"
  dl_held :: "nat list"
  dl_receiver_alive :: bool
  dl_shutdown :: bool

definition lane_new :: "uuid \<Rightarrow> data_config \<Rightarrow> data_lane" where
  "lane_new new_id config =
    \<lparr> dl_id = new_id, dl_config = config, dl_available = dc_max_streams_per_lane config,
      dl_channel = [], dl_waiting = [], dl_callers = [], dl_held = [],
      dl_receiver_alive = True, dl_shutdown = False \<rparr>"

definition lane_shutdown :: "data_lane \<Rightarrow> data_lane" where
  "lane_shutdown lane = lane \<lparr> dl_shutdown := True \<rparr>"

section \<open>Callers\<close>

text \<open>
  \<open>DataLane::open\<close> up to its first await: take a permit and queue the request. A refused request
  drops its permit at once.
\<close>

definition lane_request :: "nat \<Rightarrow> data_lane \<Rightarrow> (worker_error, unit) result \<times> data_lane" where
  "lane_request rid lane =
    (if dl_available lane = 0 then (Inl Busy, lane)
     else if \<not> dl_receiver_alive lane then (Inl Offline, lane)
     else if length (dl_channel lane) \<ge> dc_pending_open_capacity (dl_config lane) then (Inl Busy, lane)
     else (Inr (), lane \<lparr> dl_available := dl_available lane - 1,
                         dl_channel := dl_channel lane @ [rid], dl_callers := rid # dl_callers lane \<rparr>))"

text \<open>What the caller makes of the driver's answer; a timed-out caller leaves its request queued.\<close>

datatype driver_reply = ReplyTimeout | ReplyDropped | ReplyFailed | ReplyStream

definition open_reply :: "driver_reply \<Rightarrow> (worker_error, unit) result" where
  "open_reply reply =
    (case reply of ReplyTimeout \<Rightarrow> Inl Busy | ReplyDropped \<Rightarrow> Inl Offline | ReplyFailed \<Rightarrow> Inl Offline
     | ReplyStream \<Rightarrow> Inr ())"

definition caller_timeout :: "nat \<Rightarrow> data_lane \<Rightarrow> (worker_error, unit) result \<times> data_lane" where
  "caller_timeout rid lane =
    (open_reply ReplyTimeout, lane \<lparr> dl_callers := removeAll rid (dl_callers lane) \<rparr>)"

text \<open>
  The rest of \<open>open\<close> on a stream: send the request header, read the status byte. \<open>status\<close> is what
  the worker answers, or \<open>None\<close> when the status timeout passes.
\<close>

definition finish_open ::
  "request_codec \<Rightarrow> data_stream_request \<Rightarrow> bool \<Rightarrow> bytes option \<Rightarrow> (worker_error, unit) result" where
  "finish_open codec request write_ok status =
    rbind (map_err DataStreamError (write_data_request codec request)) (\<lambda>_.
    if \<not> write_ok then Inl (DataStreamError DataIo)
    else case status of
           None \<Rightarrow> Inl Busy
         | Some bs \<Rightarrow>
             rbind (map_err DataStreamError (read_data_status bs)) (\<lambda>(st, _).
             if st \<noteq> StatusReady then Inl (DataStatusError st) else Inr ()))"

text \<open>An opening that fails drops the stream and its permit; so does dropping an open stream.\<close>

definition release_permit :: "nat \<Rightarrow> data_lane \<Rightarrow> data_lane" where
  "release_permit rid lane =
    lane \<lparr> dl_held := remove1 rid (dl_held lane), dl_available := dl_available lane + 1 \<rparr>"

definition caller_finish ::
  "request_codec \<Rightarrow> data_stream_request \<Rightarrow> bool \<Rightarrow> bytes option \<Rightarrow> nat \<Rightarrow> data_lane
    \<Rightarrow> (worker_error, unit) result \<times> data_lane" where
  "caller_finish codec request write_ok status rid lane =
    (case finish_open codec request write_ok status of
       Inl e \<Rightarrow> (Inl e, release_permit rid lane)
     | Inr u \<Rightarrow> (Inr u, lane))"

section \<open>The driver\<close>

datatype inbound_event = InPending | InStream | InError | InClosed
datatype outbound_event = OutStream | OutError

text \<open>Answering a request whose caller has gone drops the stream and the permit.\<close>

definition deliver :: "nat \<Rightarrow> data_lane \<Rightarrow> data_lane" where
  "deliver rid lane =
    (if rid \<in> set (dl_callers lane)
     then lane \<lparr> dl_callers := removeAll rid (dl_callers lane), dl_held := rid # dl_held lane \<rparr>
     else lane \<lparr> dl_available := dl_available lane + 1 \<rparr>)"

text \<open>When the driver ends, everything still queued is dropped, and its callers are told so.\<close>

definition driver_exit :: "data_lane \<Rightarrow> data_lane" where
  "driver_exit lane =
    lane \<lparr> dl_available := dl_available lane + length (dl_channel lane) + length (dl_waiting lane),
           dl_channel := [], dl_waiting := [], dl_callers := [], dl_receiver_alive := False \<rparr>"

text \<open>The loop that pulls requests: as many as the driver's queue has room for.\<close>

definition driver_pull :: "data_lane \<Rightarrow> data_lane" where
  "driver_pull lane =
    (let room = dc_pending_open_capacity (dl_config lane) - length (dl_waiting lane)
     in lane \<lparr> dl_waiting := dl_waiting lane @ take room (dl_channel lane),
               dl_channel := drop room (dl_channel lane) \<rparr>)"

text \<open>
  The loop that opens outbound streams while requests wait; the events are what successive polls
  return, and when they run out the poll is pending.
\<close>

fun driver_open :: "outbound_event list \<Rightarrow> data_lane \<Rightarrow> (worker_error, unit) result option \<times> data_lane" where
  "driver_open [] lane = (None, lane)"
| "driver_open (ev # evs) lane =
    (case dl_waiting lane of
       [] \<Rightarrow> (None, lane)
     | rid # waiting \<Rightarrow>
         (case ev of
            OutStream \<Rightarrow> driver_open evs (deliver rid (lane \<lparr> dl_waiting := waiting \<rparr>))
          | OutError \<Rightarrow> (Some (Inl Offline), driver_exit lane)))"

text \<open>
  One poll of \<open>drive_yamux\<close>: \<open>None\<close> when it stays pending, otherwise the value the driver returns.
  \<open>senders_gone\<close> says that no handle of the lane is left to send requests.
\<close>

definition drive_poll ::
  "inbound_event \<Rightarrow> bool \<Rightarrow> outbound_event list \<Rightarrow> data_lane
    \<Rightarrow> (worker_error, unit) result option \<times> data_lane" where
  "drive_poll inbound senders_gone outbound lane =
    (case inbound of
       InStream \<Rightarrow> (Some (Inl (Protocol ''worker opened an inbound yamux stream'')), driver_exit lane)
     | InError \<Rightarrow> (Some (Inl Offline), driver_exit lane)
     | InClosed \<Rightarrow> (Some (Inr ()), driver_exit lane)
     | InPending \<Rightarrow>
         if senders_gone \<and>
            length (dl_channel lane) < dc_pending_open_capacity (dl_config lane) - length (dl_waiting lane)
         then (Some (Inr ()), driver_exit lane)
         else driver_open outbound (driver_pull lane))"

section \<open>Permits are conserved\<close>

inductive lane_step :: "data_lane \<Rightarrow> data_lane \<Rightarrow> bool" where
  request: "lane_request rid lane = (r, lane') \<Longrightarrow> lane_step lane lane'"
| timeout: "caller_timeout rid lane = (r, lane') \<Longrightarrow> lane_step lane lane'"
| finish: "rid \<in> set (dl_held lane) \<Longrightarrow> caller_finish codec req write_ok status rid lane = (r, lane') \<Longrightarrow>
    lane_step lane lane'"
| drop_stream: "rid \<in> set (dl_held lane) \<Longrightarrow> lane_step lane (release_permit rid lane)"
| poll: "dl_receiver_alive lane \<Longrightarrow> drive_poll inbound gone outbound lane = (r, lane') \<Longrightarrow> lane_step lane lane'"
| stop: "lane_step lane (driver_exit (lane_shutdown lane))"

definition lane_inv :: "data_config \<Rightarrow> data_lane \<Rightarrow> bool" where
  "lane_inv config lane \<longleftrightarrow> dl_config lane = config
     \<and> dl_available lane + length (dl_channel lane) + length (dl_waiting lane) + length (dl_held lane)
        = dc_max_streams_per_lane config
     \<and> length (dl_channel lane) \<le> dc_pending_open_capacity config
     \<and> length (dl_waiting lane) \<le> dc_pending_open_capacity config
     \<and> (\<not> dl_receiver_alive lane \<longrightarrow> dl_channel lane = [] \<and> dl_waiting lane = [])"

lemma lane_new_inv [simp]: "lane_inv config (lane_new i config)"
  by (simp add: lane_inv_def lane_new_def)

lemma release_permit_inv:
  assumes "lane_inv config lane" "rid \<in> set (dl_held lane)"
  shows "lane_inv config (release_permit rid lane)"
proof -
  have "Suc (length (remove1 rid (dl_held lane))) = length (dl_held lane)"
    using assms(2) length_pos_if_in_set [of rid "dl_held lane"] by (simp add: length_remove1)
  with assms(1) show ?thesis by (simp add: lane_inv_def release_permit_def)
qed

lemma driver_exit_inv: "lane_inv config lane \<Longrightarrow> lane_inv config (driver_exit lane)"
  by (simp add: lane_inv_def driver_exit_def)

lemma driver_pull_inv: "lane_inv config lane \<Longrightarrow> dl_receiver_alive lane \<Longrightarrow> lane_inv config (driver_pull lane)"
  by (auto simp: lane_inv_def driver_pull_def Let_def)

lemma deliver_inv:
  "lane_inv config lane \<Longrightarrow> dl_waiting lane = rid # waiting \<Longrightarrow>
   lane_inv config (deliver rid (lane \<lparr> dl_waiting := waiting \<rparr>))"
  by (auto simp: lane_inv_def deliver_def)

lemma driver_open_inv: "lane_inv config lane \<Longrightarrow> lane_inv config (snd (driver_open evs lane))"
  by (induction evs lane rule: driver_open.induct)
    (auto simp: driver_exit_inv deliver_inv split: list.splits outbound_event.splits)

lemma drive_poll_inv:
  "lane_inv config lane \<Longrightarrow> dl_receiver_alive lane \<Longrightarrow> lane_inv config (snd (drive_poll inbound gone outbound lane))"
  by (auto simp: drive_poll_def driver_exit_inv driver_open_inv driver_pull_inv split: inbound_event.splits)

lemma lane_step_inv: "lane_step lane lane' \<Longrightarrow> lane_inv config lane \<Longrightarrow> lane_inv config lane'"
proof (induction rule: lane_step.induct)
  case (request rid lane r lane')
  then show ?case by (auto simp: lane_request_def lane_inv_def split: if_splits)
next
  case (poll lane inbound gone outbound r lane')
  then show ?case using drive_poll_inv by (metis snd_conv)
next
  case (stop lane)
  then show ?case by (simp add: lane_inv_def driver_exit_def lane_shutdown_def)
next
  case (timeout rid lane r lane')
  then show ?case by (auto simp: caller_timeout_def lane_inv_def)
qed (auto simp: caller_finish_def release_permit_inv split: sum.splits)

interpretation lane: step_system "\<lambda>l. \<exists>i. l = lane_new i config" lane_step "lane_inv config" for config
  by unfold_locales (auto simp: lane_step_inv)

section \<open>Main results\<close>

text \<open>
  Whatever the interleaving of callers, timeouts, dropped streams and the driver, a lane's permits
  are conserved: free permits, queued requests and streams in use always add up to the configured
  maximum, so a caller that times out cannot make room for a stream above it; both queues stay within
  their capacity; and once the driver has ended and every stream is dropped, all permits are free.
\<close>

theorem lane_permits_conserved:
  assumes "lane_step\<^sup>*\<^sup>* (lane_new i config) lane"
  shows "dl_available lane + length (dl_channel lane) + length (dl_waiting lane) + length (dl_held lane)
      = dc_max_streams_per_lane config
    \<and> length (dl_channel lane) \<le> dc_pending_open_capacity config
    \<and> length (dl_waiting lane) \<le> dc_pending_open_capacity config
    \<and> (\<not> dl_receiver_alive lane \<and> dl_held lane = [] \<longrightarrow> dl_available lane = dc_max_streams_per_lane config)"
proof -
  have "lane_inv config lane" using lane.reachable_inv [OF _ assms, of config] by blast
  then show ?thesis by (auto simp: lane_inv_def)
qed

theorem lane_permits_conserved_witness:
  "lane_step\<^sup>*\<^sup>* (lane_new 9 data_config_default) (snd (lane_request 5 (lane_new 9 data_config_default)))
   \<and> dl_available (snd (lane_request 5 (lane_new 9 data_config_default))) = 63
   \<and> length (dl_channel (snd (lane_request 5 (lane_new 9 data_config_default)))) \<le> 64"
proof -
  let ?l = "snd (lane_request 5 (lane_new 9 data_config_default))"
  have "lane_step (lane_new 9 data_config_default) ?l"
    by (rule lane_step.request [of 5 _ "fst (lane_request 5 (lane_new 9 data_config_default))"]) simp
  then have "lane_step\<^sup>*\<^sup>* (lane_new 9 data_config_default) ?l" by blast
  moreover have "dl_available ?l = 63"
    by (simp add: lane_request_def lane_new_def data_config_default_def DEFAULT_MAX_STREAMS_def)
  moreover have "dc_pending_open_capacity data_config_default = 64"
    by (simp add: data_config_default_def DEFAULT_MAX_STREAMS_def)
  ultimately show ?thesis using lane_permits_conserved [of 9 data_config_default ?l] by simp
qed

end
