(* ===== verification/Worker_Registry.thy ===== *)
theory Worker_Registry
  imports Worker_Lane Admission_Core
begin

text \<open>
  The live sessions of the worker plane, from \<^verbatim>\<open>src/services/worker/registry.rs\<close> and its
  \<^verbatim>\<open>session.rs\<close>, \<^verbatim>\<open>commands.rs\<close> and \<^verbatim>\<open>inventory.rs\<close>: registration and fencing of sessions, the
  bounded control queue, lifecycle commands, data lanes and inventory snapshots. Each call is one
  step on the registry. Random identifiers, the clock (nanoseconds since the process started) and
  the length of an encoded inventory page are arguments.
\<close>

section \<open>State\<close>

record session_context =
  sc_worker_id :: uuid
  sc_boot_id :: uuid
  sc_fingerprint_sha256 :: bytes
  sc_fence :: session_fence

record registry_config =
  rc_max_workers :: nat
  rc_max_data_lanes_per_worker :: nat
  rc_control_queue_capacity :: nat
  rc_max_in_flight_commands_per_worker :: nat
  rc_heartbeat_lease :: nat
  rc_max_inventory_items :: nat
  rc_max_inventory_pages :: nat
  rc_max_inventory_bytes :: nat
  rc_max_total_inventory_bytes :: nat
  rc_max_inventory_replicas :: nat

definition registry_config_default :: registry_config where
  "registry_config_default =
    \<lparr> rc_max_workers = 4096, rc_max_data_lanes_per_worker = 4, rc_control_queue_capacity = 256,
      rc_max_in_flight_commands_per_worker = 64, rc_heartbeat_lease = 30 * 1000000000,
      rc_max_inventory_items = 4096, rc_max_inventory_pages = 64,
      rc_max_inventory_bytes = 16 * 1024 * 1024, rc_max_total_inventory_bytes = 64 * 1024 * 1024,
      rc_max_inventory_replicas = 65536 \<rparr>"

text \<open>\<open>pr_used\<close> is the reservation's share of the process-wide byte counter.\<close>

record inventory_progress =
  pr_snapshot_id :: uuid
  pr_next_page :: nat
  pr_items :: "inventory_item list"
  pr_used :: nat
  pr_replicas :: nat
  pr_started_at :: nat
  pr_applying :: bool

text \<open>
  \<open>se_control\<close> holds the envelopes in the control channel and \<open>se_receiver_alive\<close> says that the
  connection task still owns its receiving end.
\<close>

record session_entry =
  se_context :: session_context
  se_max_data_lanes :: nat
  se_control :: "control_envelope list"
  se_receiver_alive :: bool
  se_lanes :: "(nat \<times> uuid) list"
  se_next_lane :: nat
  se_last_heartbeat_ms :: nat
  se_inventory :: "inventory_progress option"
  se_commands :: command_tracker

text \<open>
  \<open>rg_stopped\<close> are the sessions whose shutdown signal was sent and \<open>rg_stopped_lanes\<close> the lanes
  that were told to close because another took their number.
\<close>

record worker_registry =
  rg_config :: registry_config
  rg_sessions :: "(uuid \<times> session_entry) list"
  rg_inventory_bytes :: nat
  rg_stopped :: "session_context list"
  rg_stopped_lanes :: "uuid list"

definition registry_new :: "registry_config \<Rightarrow> worker_registry" where
  "registry_new config =
    \<lparr> rg_config = config, rg_sessions = [], rg_inventory_bytes = 0, rg_stopped = [], rg_stopped_lanes = [] \<rparr>"

definition connected_workers :: "worker_registry \<Rightarrow> nat" where
  "connected_workers reg = length (rg_sessions reg)"

definition now_millis :: "nat \<Rightarrow> nat" where
  "now_millis now = min (now div 1000000) u64_max"

definition session_entry_new :: "nat \<Rightarrow> session_context \<Rightarrow> nat \<Rightarrow> session_entry" where
  "session_entry_new now context max_data_lanes =
    \<lparr> se_context = context, se_max_data_lanes = max_data_lanes, se_control = [], se_receiver_alive = True,
      se_lanes = [], se_next_lane = 0, se_last_heartbeat_ms = now_millis now, se_inventory = None,
      se_commands = tracker_default \<rparr>"

definition lease_is_current :: "nat \<Rightarrow> nat \<Rightarrow> session_entry \<Rightarrow> bool" where
  "lease_is_current now lease s \<longleftrightarrow>
     now_millis now - se_last_heartbeat_ms s \<le> min (lease div 1000000) u64_max"

section \<open>Sessions\<close>

definition is_online :: "nat \<Rightarrow> uuid \<Rightarrow> worker_registry \<Rightarrow> bool" where
  "is_online now worker_id reg =
    (case map_of (rg_sessions reg) worker_id of
       None \<Rightarrow> False | Some s \<Rightarrow> lease_is_current now (rc_heartbeat_lease (rg_config reg)) s)"

definition session_context_of :: "nat \<Rightarrow> uuid \<Rightarrow> worker_registry \<Rightarrow> session_context option" where
  "session_context_of now worker_id reg =
    (case map_of (rg_sessions reg) worker_id of
       None \<Rightarrow> None
     | Some s \<Rightarrow> if lease_is_current now (rc_heartbeat_lease (rg_config reg)) s then Some (se_context s) else None)"

definition current :: "worker_registry \<Rightarrow> uuid \<Rightarrow> session_fence \<Rightarrow> (worker_error, session_entry) result" where
  "current reg worker_id fence =
    (case map_of (rg_sessions reg) worker_id of
       None \<Rightarrow> Inl Offline
     | Some s \<Rightarrow> if sc_fence (se_context s) \<noteq> fence then Inl StaleSession else Inr s)"

definition put_session :: "uuid \<Rightarrow> session_entry \<Rightarrow> worker_registry \<Rightarrow> worker_registry" where
  "put_session worker_id s reg = reg \<lparr> rg_sessions := AList.update worker_id s (rg_sessions reg) \<rparr>"

text \<open>A dropped snapshot returns its reserved bytes; an entry that leaves the table is dropped.\<close>

definition release_reservation :: "inventory_progress option \<Rightarrow> nat \<Rightarrow> nat" where
  "release_reservation progress reserved = (case progress of None \<Rightarrow> reserved | Some p \<Rightarrow> fetch_sub reserved (pr_used p))"

definition stop_entry :: "session_entry \<Rightarrow> worker_registry \<Rightarrow> worker_registry" where
  "stop_entry s reg =
    reg \<lparr> rg_stopped := se_context s # rg_stopped reg,
          rg_inventory_bytes := release_reservation (se_inventory s) (rg_inventory_bytes reg) \<rparr>"

definition register_authenticated_control ::
  "nat \<Rightarrow> session_context \<Rightarrow> nat \<Rightarrow> worker_registry \<Rightarrow> (worker_error, session_context) result \<times> worker_registry" where
  "register_authenticated_control now context max_data_lanes reg =
    (if max_data_lanes > rc_max_data_lanes_per_worker (rg_config reg)
     then (Inl (Protocol ''negotiated data lane limit exceeds registry limit''), reg)
     else
       let entry = session_entry_new now context max_data_lanes;
           inserted = put_session (sc_worker_id context) entry reg
       in case map_of (rg_sessions reg) (sc_worker_id context) of
            Some old \<Rightarrow>
              if sf_session_epoch (sc_fence (se_context old)) \<ge> sf_session_epoch (sc_fence context)
              then (Inl StaleSession, reg)
              else (Inr context, stop_entry old inserted)
          | None \<Rightarrow>
              if length (rg_sessions reg) \<ge> rc_max_workers (rg_config reg) then (Inl RegistryFull, reg)
              else (Inr context, inserted))"

definition remove_entry :: "uuid \<Rightarrow> session_entry \<Rightarrow> worker_registry \<Rightarrow> worker_registry" where
  "remove_entry worker_id s reg =
    stop_entry s (reg \<lparr> rg_sessions := AList.delete worker_id (rg_sessions reg) \<rparr>)"

definition remove_control_if :: "uuid \<Rightarrow> session_fence \<Rightarrow> worker_registry \<Rightarrow> bool \<times> worker_registry" where
  "remove_control_if worker_id fence reg =
    (case map_of (rg_sessions reg) worker_id of
       None \<Rightarrow> (False, reg)
     | Some s \<Rightarrow> if sc_fence (se_context s) = fence then (True, remove_entry worker_id s reg) else (False, reg))"

definition disconnect :: "uuid \<Rightarrow> worker_registry \<Rightarrow> bool \<times> worker_registry" where
  "disconnect worker_id reg =
    (case map_of (rg_sessions reg) worker_id of
       None \<Rightarrow> (False, reg) | Some s \<Rightarrow> (True, remove_entry worker_id s reg))"

definition registry_shutdown :: "worker_registry \<Rightarrow> worker_registry" where
  "registry_shutdown reg =
    fold (\<lambda>(_, s). stop_entry s) (rg_sessions reg) (reg \<lparr> rg_sessions := [] \<rparr>)"

text \<open>Calls that act for one session first look up that exact session.\<close>

definition fenced ::
  "uuid \<Rightarrow> session_fence
    \<Rightarrow> (session_entry \<Rightarrow> worker_registry \<Rightarrow> (worker_error, 'r) result \<times> worker_registry)
    \<Rightarrow> worker_registry \<Rightarrow> (worker_error, 'r) result \<times> worker_registry" where
  "fenced worker_id fence body reg =
    (case current reg worker_id fence of Inl e \<Rightarrow> (Inl e, reg) | Inr s \<Rightarrow> body s reg)"

definition touch ::
  "nat \<Rightarrow> uuid \<Rightarrow> session_fence \<Rightarrow> worker_registry \<Rightarrow> (worker_error, unit) result \<times> worker_registry" where
  "touch now worker_id fence =
    fenced worker_id fence (\<lambda>s reg.
      (Inr (), put_session worker_id (s \<lparr> se_last_heartbeat_ms := now_millis now \<rparr>) reg))"

section \<open>Control messages and commands\<close>

text \<open>\<open>try_send\<close> on the control channel; \<open>Full\<close> becomes \<open>Busy\<close> and \<open>Closed\<close> becomes \<open>Offline\<close>.\<close>

definition control_try_send ::
  "nat \<Rightarrow> control_envelope \<Rightarrow> session_entry \<Rightarrow> (worker_error, session_entry) result" where
  "control_try_send capacity envelope s =
    (if \<not> se_receiver_alive s then Inl Offline
     else if length (se_control s) \<ge> capacity then Inl Busy
     else Inr (s \<lparr> se_control := se_control s @ [envelope] \<rparr>))"

fun is_server_message :: "control_message \<Rightarrow> bool" where
  "is_server_message (InventoryRequest _) = True"
| "is_server_message (EnsureWorkload _) = True"
| "is_server_message (EnsureAbsent _) = True"
| "is_server_message (WriteFlag _) = True"
| "is_server_message _ = False"

definition track_or_pass ::
  "registry_config \<Rightarrow> nat \<Rightarrow> in_flight_command option \<Rightarrow> session_entry
    \<Rightarrow> (worker_error, unit) result \<times> session_entry" where
  "track_or_pass config now tracked s =
    (case tracked of
       None \<Rightarrow> (Inr (), s)
     | Some command \<Rightarrow>
         let (r, t) = track_command (rc_max_in_flight_commands_per_worker config) now command (se_commands s)
         in (r, s \<lparr> se_commands := t \<rparr>))"

definition registry_send ::
  "nat \<Rightarrow> uuid \<Rightarrow> uuid \<Rightarrow> control_message \<Rightarrow> worker_registry \<Rightarrow> (worker_error, uuid) result \<times> worker_registry" where
  "registry_send now new_id worker_id body reg =
    (if \<not> is_server_message body
     then (Inl (Protocol ''server attempted to send a worker-only control message''), reg)
     else case map_of (rg_sessions reg) worker_id of
       None \<Rightarrow> (Inl Offline, reg)
     | Some s \<Rightarrow>
         if \<not> lease_is_current now (rc_heartbeat_lease (rg_config reg)) s then (Inl Offline, reg)
         else
           let tracked = lifecycle_command now body new_id;
               (r, s1) = track_or_pass (rg_config reg) now tracked s
           in case r of
                Inl e \<Rightarrow> (Inl e, put_session worker_id s1 reg)
              | Inr _ \<Rightarrow>
                  let envelope = \<lparr> env_protocol_revision = PROTOCOL_REVISION, env_message_id = new_id,
                        env_reply_to = None,
                        env_session_epoch = sf_session_epoch (sc_fence (se_context s1)), env_body = body \<rparr>
                  in case control_try_send (rc_control_queue_capacity (rg_config reg)) envelope s1 of
                       Inr s2 \<Rightarrow> (Inr new_id, put_session worker_id s2 reg)
                     | Inl e \<Rightarrow>
                         (Inl e, put_session worker_id
                            (case tracked of None \<Rightarrow> s1
                             | Some command \<Rightarrow> s1 \<lparr> se_commands := remove_tracked_command command (se_commands s1) \<rparr>)
                            reg))"

definition send_certificate_response ::
  "uuid \<Rightarrow> session_context \<Rightarrow> certificate_renewed \<Rightarrow> worker_registry
    \<Rightarrow> (worker_error, unit) result \<times> worker_registry" where
  "send_certificate_response new_id context response =
    fenced (sc_worker_id context) (sc_fence context) (\<lambda>s reg.
      case control_try_send (rc_control_queue_capacity (rg_config reg))
             (envelope_new new_id (sf_session_epoch (sc_fence context)) (CertificateRenewed response)) s of
        Inl e \<Rightarrow> (Inl e, reg)
      | Inr s' \<Rightarrow> (Inr (), put_session (sc_worker_id context) s' reg))"

text \<open>What feedback a message carries: the command, whether it is settled, and the failure.\<close>

fun command_feedback :: "control_message \<Rightarrow> (uuid \<times> bool \<times> command_error option option) option" where
  "command_feedback (CommandAck a) = Some (ca_command_id a, ca_disposition a \<noteq> AckAccepted, None)"
| "command_feedback (CommandResult r) =
    Some (cr_command_id r, True, if \<not> cr_success r then Some (cr_error r) else None)"
| "command_feedback _ = None"

definition failed_status :: "in_flight_command \<Rightarrow> command_error option \<Rightarrow> workload_status" where
  "failed_status command error =
    \<lparr> wo_fence = ic_fence command, wo_spec_hash = ic_spec_hash command, wo_state = ObservedFailed,
      wo_replicas = [],
      wo_detail = Some (take 4096 (case error of Some e \<Rightarrow> ce_message e | None \<Rightarrow> lit ''worker command failed'')) \<rparr>"

definition handle_command_feedback ::
  "session_context \<Rightarrow> control_envelope \<Rightarrow> worker_registry
    \<Rightarrow> (worker_error, workload_status option) result \<times> worker_registry" where
  "handle_command_feedback context envelope reg =
    (case command_feedback (env_body envelope) of
       None \<Rightarrow> (Inr None, reg)
     | Some (command_id, remove, failure) \<Rightarrow>
         fenced (sc_worker_id context) (sc_fence context) (\<lambda>s reg.
           case map_of (ct_by_id (se_commands s)) command_id of
             None \<Rightarrow> (Inr None, reg)
           | Some command \<Rightarrow>
               if env_reply_to envelope \<noteq> Some (ic_message_id command)
               then (Inl (Protocol ''worker command feedback does not match its request''), reg)
               else let s' = (if remove then s \<lparr> se_commands := remove_tracked_command command (se_commands s) \<rparr> else s)
                    in (Inr (map_option (failed_status command) failure),
                        put_session (sc_worker_id context) s' reg)) reg)"

definition observe_workload_status ::
  "session_context \<Rightarrow> workload_status \<Rightarrow> worker_registry \<Rightarrow> (worker_error, unit) result \<times> worker_registry" where
  "observe_workload_status context status =
    fenced (sc_worker_id context) (sc_fence context) (\<lambda>s reg.
      case map_of (ct_by_workload (se_commands s)) (wf_workload_id (wo_fence status)) of
        None \<Rightarrow> (Inr (), reg)
      | Some command_id \<Rightarrow>
          (case map_of (ct_by_id (se_commands s)) command_id of
             None \<Rightarrow> (Inr (), reg)
           | Some command \<Rightarrow>
               if ic_fence command = wo_fence status \<and> ic_spec_hash command = wo_spec_hash status
               then (Inr (), put_session (sc_worker_id context)
                      (s \<lparr> se_commands := remove_tracked_command command (se_commands s) \<rparr>) reg)
               else (Inr (), reg)))"

section \<open>Data lanes\<close>

definition register_lane ::
  "uuid \<Rightarrow> session_fence \<Rightarrow> nat \<Rightarrow> uuid \<Rightarrow> worker_registry \<Rightarrow> (worker_error, unit) result \<times> worker_registry" where
  "register_lane worker_id fence lane_number lane_id =
    fenced worker_id fence (\<lambda>s reg.
      if lane_number \<ge> se_max_data_lanes s then (Inl (Protocol ''data lane number exceeds limit''), reg)
      else if map_of (se_lanes s) lane_number = None \<and> length (se_lanes s) \<ge> se_max_data_lanes s
      then (Inl RegistryFull, reg)
      else let reg1 = put_session worker_id (s \<lparr> se_lanes := AList.update lane_number lane_id (se_lanes s) \<rparr>) reg
           in (Inr (), case map_of (se_lanes s) lane_number of
                         None \<Rightarrow> reg1
                       | Some old \<Rightarrow> reg1 \<lparr> rg_stopped_lanes := old # rg_stopped_lanes reg1 \<rparr>))"

definition remove_lane_if :: "uuid \<Rightarrow> session_fence \<Rightarrow> nat \<Rightarrow> uuid \<Rightarrow> worker_registry \<Rightarrow> worker_registry" where
  "remove_lane_if worker_id fence lane_number lane_id reg =
    (case current reg worker_id fence of
       Inl _ \<Rightarrow> reg
     | Inr s \<Rightarrow>
         if map_of (se_lanes s) lane_number = Some lane_id
         then put_session worker_id (s \<lparr> se_lanes := AList.delete lane_number (se_lanes s) \<rparr>) reg
         else reg)"

text \<open>
  \<open>iter().cycle().skip(offset).take(n)\<close>, and the loop over the candidates; \<open>answer\<close> is what
  opening a stream on a lane returns.
\<close>

definition lane_candidates :: "nat \<Rightarrow> 'l list \<Rightarrow> 'l list" where
  "lane_candidates offset lanes =
    (let n = length lanes in take n (drop (offset mod n) (lanes @ lanes)))"

fun try_lanes :: "('l \<Rightarrow> (worker_error, 's) result) \<Rightarrow> 'l list \<Rightarrow> (worker_error, 's) result" where
  "try_lanes answer [] = Inl Busy"
| "try_lanes answer (l # ls) =
    (case answer l of
       Inr stream \<Rightarrow> Inr stream
     | Inl e \<Rightarrow> if e = Busy \<or> e = Offline then try_lanes answer ls else Inl e)"

definition open_stream ::
  "nat \<Rightarrow> (uuid \<Rightarrow> (worker_error, 's) result) \<Rightarrow> session_context \<Rightarrow> worker_registry
    \<Rightarrow> (worker_error, 's) result \<times> worker_registry" where
  "open_stream now answer context =
    fenced (sc_worker_id context) (sc_fence context) (\<lambda>s reg.
      if \<not> lease_is_current now (rc_heartbeat_lease (rg_config reg)) s then (Inl Offline, reg)
      else let lanes = map snd (se_lanes s)
           in if lanes = [] then (Inl Offline, reg)
              else (try_lanes answer (lane_candidates (se_next_lane s) lanes),
                    put_session (sc_worker_id context)
                      (s \<lparr> se_next_lane := (se_next_lane s + 1) mod 2 ^ 64 \<rparr>) reg))"

section \<open>Inventory\<close>

definition set_progress ::
  "uuid \<Rightarrow> session_entry \<Rightarrow> inventory_progress option \<Rightarrow> worker_registry \<Rightarrow> worker_registry" where
  "set_progress worker_id s progress reg =
    put_session worker_id (s \<lparr> se_inventory := progress \<rparr>)
      (reg \<lparr> rg_inventory_bytes := release_reservation (se_inventory s) (rg_inventory_bytes reg) \<rparr>)"

text \<open>\<open>InventoryReservation::try_grow\<close> on the process-wide counter.\<close>

definition try_grow :: "nat \<Rightarrow> nat \<Rightarrow> nat \<Rightarrow> nat option" where
  "try_grow limit additional reserved =
    Option.bind (checked_add_u64 reserved additional) (\<lambda>next. if next > limit then None else Some next)"

definition page_replicas :: "inventory_item list \<Rightarrow> nat option" where
  "page_replicas items =
    fold (\<lambda>item acc. Option.bind acc (\<lambda>n. checked_add_u64 n (length (ii_replicas item)))) items (Some 0)"

definition collect_inventory ::
  "(inventory_item list \<Rightarrow> nat option) \<Rightarrow> session_context \<Rightarrow> inventory_page \<Rightarrow> worker_registry
    \<Rightarrow> (worker_error, (uuid \<times> inventory_item list) option) result \<times> worker_registry" where
  "collect_inventory encoded_len context page =
    fenced (sc_worker_id context) (sc_fence context) (\<lambda>s reg.
      let w = sc_worker_id context; config = rg_config reg in
      case se_inventory s of
        None \<Rightarrow> (Inl (Protocol ''inventory snapshot was not requested''), reg)
      | Some p \<Rightarrow>
          if pr_applying p \<or> pr_snapshot_id p \<noteq> ip_snapshot_id page \<or> pr_next_page p \<noteq> ip_page page
          then (Inl (Protocol ''inventory pages are out of order''), set_progress w s None reg)
          else if ip_items page = [] \<and> \<not> ip_final_page page
          then (Inl (Protocol ''non-final inventory pages cannot be empty''), set_progress w s None reg)
          else case encoded_len (ip_items page) of
            None \<Rightarrow> (Inl (ProtocolOwned []), reg)
          | Some encoded_bytes \<Rightarrow>
            (case page_replicas (ip_items page) of
               None \<Rightarrow> (Inl (Protocol ''inventory replica counter overflow''), reg)
             | Some replicas \<Rightarrow>
               if ip_page page \<ge> rc_max_inventory_pages config
                  \<or> sat_add_u64 (length (pr_items p)) (length (ip_items page)) > rc_max_inventory_items config
                  \<or> sat_add_u64 (pr_used p) encoded_bytes > rc_max_inventory_bytes config
                  \<or> sat_add_u64 (pr_replicas p) replicas > rc_max_inventory_replicas config
               then (Inl (Protocol ''inventory snapshot exceeds limits''), set_progress w s None reg)
               else case try_grow (rc_max_total_inventory_bytes config) encoded_bytes (rg_inventory_bytes reg) of
                 None \<Rightarrow> (Inl Busy, set_progress w s None reg)
               | Some reserved \<Rightarrow>
                 let reg1 = reg \<lparr> rg_inventory_bytes := reserved \<rparr>;
                     p1 = p \<lparr> pr_used := pr_used p + encoded_bytes, pr_replicas := pr_replicas p + replicas,
                              pr_items := pr_items p @ ip_items page \<rparr>
                 in if pr_next_page p \<ge> u32_max
                    then (Inl (Protocol ''inventory page counter overflow''),
                          put_session w (s \<lparr> se_inventory := Some p1 \<rparr>) reg1)
                    else let p2 = p1 \<lparr> pr_next_page := pr_next_page p + 1 \<rparr>
                         in if ip_final_page page
                            then (Inr (Some (pr_snapshot_id p2, pr_items p2)),
                                  put_session w (s \<lparr> se_inventory :=
                                     Some (p2 \<lparr> pr_applying := True, pr_items := [] \<rparr>) \<rparr>) reg1)
                            else (Inr None, put_session w (s \<lparr> se_inventory := Some p2 \<rparr>) reg1)))"

definition request_inventory ::
  "nat \<Rightarrow> uuid \<Rightarrow> uuid \<Rightarrow> uuid \<Rightarrow> uuid \<Rightarrow> nat \<Rightarrow> worker_registry \<Rightarrow> (worker_error, bool) result \<times> worker_registry" where
  "request_inventory now snapshot_id message_id command_id worker_id timeout reg =
    (case map_of (rg_sessions reg) worker_id of
       None \<Rightarrow> (Inl Offline, reg)
     | Some s \<Rightarrow>
         if \<not> lease_is_current now (rc_heartbeat_lease (rg_config reg)) s then (Inl Offline, reg)
         else if (case se_inventory s of None \<Rightarrow> False | Some p \<Rightarrow> now - pr_started_at p < timeout)
         then (Inr False, reg)
         else
           let progress = \<lparr> pr_snapshot_id = snapshot_id, pr_next_page = 0, pr_items = [], pr_used = 0,
                 pr_replicas = 0, pr_started_at = now, pr_applying = False \<rparr>;
               reg1 = set_progress worker_id s (Some progress) reg;
               s1 = s \<lparr> se_inventory := Some progress \<rparr>;
               envelope = \<lparr> env_protocol_revision = PROTOCOL_REVISION, env_message_id = message_id,
                 env_reply_to = None, env_session_epoch = sf_session_epoch (sc_fence (se_context s)),
                 env_body = InventoryRequest \<lparr> ir_command_id = command_id, ir_snapshot_id = snapshot_id \<rparr> \<rparr>
           in case control_try_send (rc_control_queue_capacity (rg_config reg)) envelope s1 of
                Inl e \<Rightarrow> (Inl e, set_progress worker_id s1 None reg1)
              | Inr s2 \<Rightarrow> (Inr True, put_session worker_id s2 reg1))"

definition complete_inventory ::
  "session_context \<Rightarrow> uuid \<Rightarrow> worker_registry \<Rightarrow> (worker_error, unit) result \<times> worker_registry" where
  "complete_inventory context snapshot_id =
    fenced (sc_worker_id context) (sc_fence context) (\<lambda>s reg.
      if (case se_inventory s of None \<Rightarrow> False | Some p \<Rightarrow> pr_snapshot_id p = snapshot_id \<and> pr_applying p)
      then (Inr (), set_progress (sc_worker_id context) s None reg)
      else (Inl (Protocol ''inventory snapshot state changed''), reg))"

section \<open>Steps\<close>

text \<open>
  Besides the calls, the connection task takes envelopes from the channel to write them, and may
  end, which drops the receiving end.
\<close>

definition recv_outbound :: "uuid \<Rightarrow> worker_registry \<Rightarrow> worker_registry" where
  "recv_outbound worker_id reg =
    (case map_of (rg_sessions reg) worker_id of
       None \<Rightarrow> reg | Some s \<Rightarrow> put_session worker_id (s \<lparr> se_control := tl (se_control s) \<rparr>) reg)"

definition drop_receiver :: "uuid \<Rightarrow> worker_registry \<Rightarrow> worker_registry" where
  "drop_receiver worker_id reg =
    (case map_of (rg_sessions reg) worker_id of
       None \<Rightarrow> reg
     | Some s \<Rightarrow> put_session worker_id (s \<lparr> se_receiver_alive := False, se_control := [] \<rparr>) reg)"

inductive registry_step :: "worker_registry \<Rightarrow> worker_registry \<Rightarrow> bool" where
  register: "registry_step reg (snd (register_authenticated_control now context lanes reg))"
| remove: "registry_step reg (snd (remove_control_if w fence reg))"
| disconnect: "registry_step reg (snd (disconnect w reg))"
| shutdown: "registry_step reg (registry_shutdown reg)"
| touch: "registry_step reg (snd (touch now w fence reg))"
| send: "registry_step reg (snd (registry_send now new_id w body reg))"
| certificate: "registry_step reg (snd (send_certificate_response new_id context response reg))"
| feedback: "registry_step reg (snd (handle_command_feedback context envelope reg))"
| observe: "registry_step reg (snd (observe_workload_status context status reg))"
| lane: "registry_step reg (snd (register_lane w fence n lane_id reg))"
| unlane: "registry_step reg (remove_lane_if w fence n lane_id reg)"
| stream: "registry_step reg (snd (open_stream now (answer :: uuid \<Rightarrow> (worker_error, unit) result) context reg))"
| collect: "registry_step reg (snd (collect_inventory encoded_len context page reg))"
| request: "registry_step reg (snd (request_inventory now snap mid cid w timeout reg))"
| complete: "registry_step reg (snd (complete_inventory context snap reg))"
| recv: "registry_step reg (recv_outbound w reg)"
| hangup: "registry_step reg (drop_receiver w reg)"

inductive_cases registry_stepE: "registry_step reg reg'"

section \<open>The registry invariant\<close>

definition reserved_by :: "session_entry \<Rightarrow> nat" where
  "reserved_by s = (case se_inventory s of None \<Rightarrow> 0 | Some p \<Rightarrow> pr_used p)"

definition reserved_total :: "(uuid \<times> session_entry) list \<Rightarrow> nat" where
  "reserved_total m = (\<Sum>(_, s)\<leftarrow>m. reserved_by s)"

definition progress_ok :: "registry_config \<Rightarrow> inventory_progress \<Rightarrow> bool" where
  "progress_ok config p \<longleftrightarrow> pr_next_page p \<le> rc_max_inventory_pages config
     \<and> length (pr_items p) \<le> rc_max_inventory_items config \<and> pr_used p \<le> rc_max_inventory_bytes config
     \<and> pr_replicas p \<le> rc_max_inventory_replicas config"

definition lanes_ok :: "nat \<Rightarrow> (nat \<times> uuid) list \<Rightarrow> bool" where
  "lanes_ok limit lanes \<longleftrightarrow> keys_distinct lanes \<and> fst ` set lanes \<subseteq> {..<limit}"

definition session_ok :: "registry_config \<Rightarrow> uuid \<Rightarrow> session_entry \<Rightarrow> bool" where
  "session_ok config w s \<longleftrightarrow> sc_worker_id (se_context s) = w
     \<and> length (se_control s) \<le> rc_control_queue_capacity config
     \<and> tracker_ok (rc_max_in_flight_commands_per_worker config) (se_commands s)
     \<and> se_max_data_lanes s \<le> rc_max_data_lanes_per_worker config \<and> lanes_ok (se_max_data_lanes s) (se_lanes s)
     \<and> (\<forall>p. se_inventory s = Some p \<longrightarrow> progress_ok config p)"

text \<open>Below the top of \<open>usize\<close> a saturated sum within a limit is the sum itself.\<close>

definition config_bounded :: "registry_config \<Rightarrow> bool" where
  "config_bounded config \<longleftrightarrow> rc_max_inventory_items config < usize_max \<and> rc_max_inventory_bytes config < usize_max
     \<and> rc_max_inventory_replicas config < usize_max"

lemma sat_add_within: "sat_add_u64 a b \<le> limit \<Longrightarrow> limit < usize_max \<Longrightarrow> a + b \<le> limit"
  by (simp add: sat_add_u64_def)

definition registry_inv :: "registry_config \<Rightarrow> worker_registry \<Rightarrow> bool" where
  "registry_inv config reg \<longleftrightarrow> config_bounded config \<and> rg_config reg = config \<and> keys_distinct (rg_sessions reg)
     \<and> length (rg_sessions reg) \<le> rc_max_workers config
     \<and> (\<forall>w s. map_of (rg_sessions reg) w = Some s \<longrightarrow> session_ok config w s)
     \<and> rg_inventory_bytes reg = reserved_total (rg_sessions reg)
     \<and> rg_inventory_bytes reg \<le> rc_max_total_inventory_bytes config"

lemma reserved_update:
  "reserved_total (AList.update w s m) + (case map_of m w of None \<Rightarrow> 0 | Some old \<Rightarrow> reserved_by old)
   = reserved_total m + reserved_by s"
  by (induction m) (auto simp: reserved_total_def split: option.splits)

lemma reserved_delete:
  "keys_distinct m \<Longrightarrow>
   reserved_total (AList.delete w m) + (case map_of m w of None \<Rightarrow> 0 | Some old \<Rightarrow> reserved_by old) = reserved_total m"
proof (induction m)
  case (Cons x m)
  obtain k s where x: "x = (k, s)" by fastforce
  show ?case
  proof (cases "k = w")
    case True
    then have "AList.delete w m = m" "map_of m w = None"
      using Cons.prems x by (auto simp: keys_distinct_def map_of_eq_None_iff AList.delete_id)
    with True x show ?thesis by (simp add: reserved_total_def)
  next
    case False
    with Cons x show ?thesis by (auto simp: reserved_total_def keys_distinct_def split: option.splits)
  qed
qed (simp add: reserved_total_def)

lemma reserved_by_le: "map_of m w = Some s \<Longrightarrow> reserved_by s \<le> reserved_total m"
  by (induction m) (auto simp: reserved_total_def split: if_splits)

lemma release_reservation_exact:
  "reserved_by s \<le> n \<Longrightarrow> release_reservation (se_inventory s) n = n - reserved_by s"
  by (auto simp: release_reservation_def reserved_by_def fetch_sub_def split: option.splits)

lemma registry_inv_stopped [simp]:
  "registry_inv config (reg \<lparr> rg_stopped := x \<rparr>) = registry_inv config reg"
  "registry_inv config (reg \<lparr> rg_stopped_lanes := y \<rparr>) = registry_inv config reg"
  by (simp_all add: registry_inv_def)

lemma registry_invD: "registry_inv config reg \<Longrightarrow> map_of (rg_sessions reg) w = Some s \<Longrightarrow> session_ok config w s"
  by (simp add: registry_inv_def)

text \<open>Every update of an existing session: its new entry, and the byte counter moved accordingly.\<close>

lemma put_session_inv_bytes:
  assumes inv: "registry_inv config reg" and s: "map_of (rg_sessions reg) w = Some s"
    and ok: "session_ok config w s'" and b: "b + reserved_by s = rg_inventory_bytes reg + reserved_by s'"
    and le: "b \<le> rc_max_total_inventory_bytes config"
  shows "registry_inv config (put_session w s' (reg \<lparr> rg_inventory_bytes := b \<rparr>))"
proof -
  have "length (AList.update w s' (rg_sessions reg)) = length (rg_sessions reg)"
    using s by (force simp: length_update dest: map_of_SomeD)
  moreover have "reserved_total (AList.update w s' (rg_sessions reg)) = b"
    using reserved_update [of w s' "rg_sessions reg"] s b inv by (simp add: registry_inv_def)
  ultimately show ?thesis
    using inv ok le by (auto simp: registry_inv_def put_session_def)
qed

lemma put_session_inv:
  assumes "registry_inv config reg" "map_of (rg_sessions reg) w = Some s" "session_ok config w s'"
    "reserved_by s' = reserved_by s"
  shows "registry_inv config (put_session w s' reg)"
  using put_session_inv_bytes [OF assms(1-3), of "rg_inventory_bytes reg"] assms
  by (simp add: registry_inv_def)

lemma set_progress_inv:
  assumes "registry_inv config reg" "map_of (rg_sessions reg) w = Some s"
    "case progress of None \<Rightarrow> True | Some p \<Rightarrow> progress_ok config p \<and> pr_used p = 0"
  shows "registry_inv config (set_progress w s progress reg)"
proof -
  have le: "reserved_by s \<le> rg_inventory_bytes reg"
    using reserved_by_le [OF assms(2)] assms(1) by (simp add: registry_inv_def)
  have "session_ok config w (s \<lparr> se_inventory := progress \<rparr>)"
    using registry_invD [OF assms(1,2)] assms(3) by (auto simp: session_ok_def split: option.splits)
  moreover have "reserved_by (s \<lparr> se_inventory := progress \<rparr>) = 0"
    using assms(3) by (auto simp: reserved_by_def split: option.splits)
  ultimately show ?thesis
    unfolding set_progress_def release_reservation_exact [OF le]
    using le assms(1) by (intro put_session_inv_bytes [OF assms(1,2)]) (auto simp: registry_inv_def)
qed

lemma remove_entry_inv:
  assumes "registry_inv config reg" "map_of (rg_sessions reg) w = Some s"
  shows "registry_inv config (remove_entry w s reg)"
proof -
  have keys: "keys_distinct (rg_sessions reg)" using assms(1) by (simp add: registry_inv_def)
  have le: "reserved_by s \<le> rg_inventory_bytes reg"
    using reserved_by_le [OF assms(2)] assms(1) by (simp add: registry_inv_def)
  show ?thesis
    using assms reserved_delete [OF keys, of w] le length_delete_le [of w "rg_sessions reg"]
    by (auto simp: remove_entry_def stop_entry_def release_reservation_exact registry_inv_def split: if_splits)
qed

lemma register_inv:
  assumes "registry_inv config reg"
  shows "registry_inv config (snd (register_authenticated_control now context lanes reg))"
proof -
  let ?w = "sc_worker_id context"
  let ?entry = "session_entry_new now context lanes"
  have new: "reserved_by ?entry = 0" "lanes \<le> rc_max_data_lanes_per_worker config \<Longrightarrow> session_ok config ?w ?entry"
    by (simp_all add: reserved_by_def session_entry_new_def session_ok_def lanes_ok_def)
  show ?thesis
  proof (cases "map_of (rg_sessions reg) ?w")
    case None
    then have "length (AList.update ?w ?entry (rg_sessions reg)) = Suc (length (rg_sessions reg))"
      by (simp add: length_update map_of_eq_None_iff)
    with None new assms reserved_update [of ?w ?entry "rg_sessions reg"] show ?thesis
      by (auto simp: register_authenticated_control_def Let_def put_session_def registry_inv_def)
  next
    case (Some old)
    have le: "reserved_by old \<le> rg_inventory_bytes reg"
      using reserved_by_le [OF Some] assms by (simp add: registry_inv_def)
    have stop: "stop_entry old (put_session ?w ?entry reg) =
        put_session ?w ?entry (reg \<lparr> rg_inventory_bytes := rg_inventory_bytes reg - reserved_by old \<rparr>)
          \<lparr> rg_stopped := se_context old # rg_stopped reg \<rparr>"
      by (simp add: stop_entry_def put_session_def release_reservation_exact [OF le])
    have "registry_inv config (stop_entry old (put_session ?w ?entry reg))" if "lanes \<le> rc_max_data_lanes_per_worker config"
      unfolding stop registry_inv_stopped
      using new that le assms by (intro put_session_inv_bytes [OF assms Some]) (auto simp: registry_inv_def)
    with Some assms show ?thesis
      by (auto simp: register_authenticated_control_def Let_def registry_inv_def not_less)
  qed
qed

lemma fold_stop_entry:
  "fold (\<lambda>(_, s). stop_entry s) m reg =
     reg \<lparr> rg_stopped := rev (map (se_context \<circ> snd) m) @ rg_stopped reg,
           rg_inventory_bytes := fold (\<lambda>(_, s). release_reservation (se_inventory s)) m (rg_inventory_bytes reg) \<rparr>"
  by (induction m arbitrary: reg) (auto simp: stop_entry_def)

lemma fold_release: "fold (\<lambda>(_, s). release_reservation (se_inventory s)) m (reserved_total m + n) = n"
proof (induction m)
  case (Cons x m)
  then show ?case
    by (cases x) (simp add: reserved_total_def release_reservation_exact add.assoc)
qed (simp add: reserved_total_def)

lemma shutdown_inv: "registry_inv config reg \<Longrightarrow> registry_inv config (registry_shutdown reg)"
  using fold_release [of "rg_sessions reg" 0]
  by (simp add: registry_inv_def registry_shutdown_def fold_stop_entry reserved_total_def)

section \<open>Calls for one session\<close>

lemma current_Inr:
  "current reg w fence = Inr s \<longleftrightarrow> map_of (rg_sessions reg) w = Some s \<and> sc_fence (se_context s) = fence"
  by (auto simp: current_def split: option.splits)

text \<open>
  What every fenced call promises the connection tasks: it does nothing unless the session is the
  current one of its worker, it never touches another worker's session or the identity of this one,
  and it keeps the registry's invariant.
\<close>

definition local_update :: "uuid \<Rightarrow> worker_registry \<Rightarrow> worker_registry \<Rightarrow> bool" where
  "local_update w reg reg' \<longleftrightarrow> rg_sessions reg' = rg_sessions reg
     \<or> (\<exists>s s'. map_of (rg_sessions reg) w = Some s \<and> se_context s' = se_context s
          \<and> rg_sessions reg' = AList.update w s' (rg_sessions reg))"

lemma local_update_refl [simp]: "local_update w reg reg"
  by (simp add: local_update_def)

lemma local_update_put:
  "map_of (rg_sessions reg) w = Some s \<Longrightarrow> se_context s' = se_context s \<Longrightarrow> local_update w reg (put_session w s' reg)"
  by (auto simp: local_update_def put_session_def)

lemma local_update_put_bytes:
  "map_of (rg_sessions reg) w = Some s \<Longrightarrow> se_context s' = se_context s \<Longrightarrow>
   local_update w reg (put_session w s' (reg \<lparr> rg_inventory_bytes := b \<rparr>))"
  unfolding local_update_def put_session_def by (intro disjI2 exI [of _ s] exI [of _ s']) simp

lemma local_update_set_progress:
  "map_of (rg_sessions reg) w = Some s \<Longrightarrow> local_update w reg (set_progress w s progress reg)"
  unfolding local_update_def put_session_def set_progress_def
  by (intro disjI2 exI [of _ s] exI [of _ "s \<lparr> se_inventory := progress \<rparr>"]) simp

lemma local_update_fields [simp]:
  "local_update w reg (reg' \<lparr> rg_inventory_bytes := b \<rparr>) = local_update w reg reg'"
  "local_update w reg (reg' \<lparr> rg_stopped_lanes := l \<rparr>) = local_update w reg reg'"
  "local_update w (reg \<lparr> rg_inventory_bytes := b \<rparr>) reg' = local_update w reg reg'"
  by (simp_all add: local_update_def)

lemma local_update_context:
  assumes "local_update w reg reg'"
  shows "map_option se_context (map_of (rg_sessions reg') v) = map_option se_context (map_of (rg_sessions reg) v)"
    and "v \<noteq> w \<Longrightarrow> map_of (rg_sessions reg') v = map_of (rg_sessions reg) v"
  using assms by (auto simp: local_update_def)

locale fenced_operation =
  fixes op :: "session_context \<Rightarrow> worker_registry \<Rightarrow> (worker_error, 'r) result \<times> worker_registry"
  assumes stale_inert: "current reg (sc_worker_id context) (sc_fence context) = Inl e \<Longrightarrow> snd (op context reg) = reg"
    and acts_locally: "local_update (sc_worker_id context) reg (snd (op context reg))"
    and keeps_inv: "registry_inv config reg \<Longrightarrow> registry_inv config (snd (op context reg))"
begin

lemma other_sessions:
  "v \<noteq> sc_worker_id context \<Longrightarrow> map_of (rg_sessions (snd (op context reg))) v = map_of (rg_sessions reg) v"
  using local_update_context(2) acts_locally by blast

text \<open>A session that stays current can be addressed by the same fence after the call.\<close>

lemma fence_kept:
  assumes "current reg v f = Inr s"
  shows "\<exists>s'. current (snd (op context reg)) v f = Inr s' \<and> se_context s' = se_context s"
proof -
  have "map_option se_context (map_of (rg_sessions (snd (op context reg))) v) = Some (se_context s)"
    using local_update_context(1) [OF acts_locally, of "context" reg v] assms by (simp add: current_Inr)
  then obtain s' where "map_of (rg_sessions (snd (op context reg))) v = Some s'" "se_context s' = se_context s"
    by auto
  with assms show ?thesis by (auto simp: current_Inr)
qed

end

lemma fenced_operation_fenced:
  assumes "\<And>c reg s. map_of (rg_sessions reg) (sc_worker_id c) = Some s \<Longrightarrow>
      local_update (sc_worker_id c) reg (snd (body c s reg))"
    and "\<And>c reg config s. registry_inv config reg \<Longrightarrow> map_of (rg_sessions reg) (sc_worker_id c) = Some s \<Longrightarrow>
      session_ok config (sc_worker_id c) s \<Longrightarrow> registry_inv config (snd (body c s reg))"
  shows "fenced_operation (\<lambda>c. fenced (sc_worker_id c) (sc_fence c) (body c))"
  using assms by unfold_locales (auto simp: fenced_def current_Inr registry_invD split: sum.splits)

lemma reserved_by_cong: "se_inventory s' = se_inventory s \<Longrightarrow> reserved_by s' = reserved_by s"
  by (simp add: reserved_by_def)

lemma control_try_send_cases:
  assumes "control_try_send capacity envelope s = Inr s'"
  shows "s' = s \<lparr> se_control := se_control s @ [envelope] \<rparr>" "length (se_control s') \<le> capacity"
  using assms by (auto simp: control_try_send_def split: if_splits)

lemma session_ok_simps [simp]:
  "session_ok config w (s \<lparr> se_last_heartbeat_ms := h \<rparr>) = session_ok config w s"
  "session_ok config w (s \<lparr> se_next_lane := n \<rparr>) = session_ok config w s"
  by (simp_all add: session_ok_def)

lemma session_ok_commands:
  "session_ok config w s \<Longrightarrow> tracker_ok (rc_max_in_flight_commands_per_worker config) t \<Longrightarrow>
   session_ok config w (s \<lparr> se_commands := t \<rparr>)"
  "session_ok config w s \<Longrightarrow> session_ok config w (s \<lparr> se_commands := remove_tracked_command c (se_commands s) \<rparr>)"
  by (simp_all add: session_ok_def remove_tracked_ok)

lemma session_ok_try_send:
  "session_ok config w s \<Longrightarrow> control_try_send (rc_control_queue_capacity config) e s = Inr s' \<Longrightarrow> session_ok config w s'"
  using control_try_send_cases [of "rc_control_queue_capacity config" e s s'] by (auto simp: session_ok_def)

lemma lanes_ok_delete: "lanes_ok limit lanes \<Longrightarrow> lanes_ok limit (AList.delete n lanes)"
  by (auto simp: lanes_ok_def AList.delete_eq dest: subsetD)

lemma session_ok_lanes:
  "session_ok config w s \<Longrightarrow> n < se_max_data_lanes s \<Longrightarrow> session_ok config w (s \<lparr> se_lanes := AList.update n i (se_lanes s) \<rparr>)"
  "session_ok config w s \<Longrightarrow> session_ok config w (s \<lparr> se_lanes := AList.delete n (se_lanes s) \<rparr>)"
  by (auto simp: session_ok_def lanes_ok_def dom_update AList.delete_eq dest: subsetD)

lemma registry_inv_config: "registry_inv config reg \<Longrightarrow> rg_config reg = config"
  by (simp add: registry_inv_def)

lemmas session_intros = local_update_put local_update_set_progress put_session_inv reserved_by_cong
  session_ok_commands session_ok_lanes

interpretation touch_op: fenced_operation "\<lambda>c. touch now (sc_worker_id c) (sc_fence c)" for now
  unfolding touch_def by (rule fenced_operation_fenced) (auto intro!: session_intros)

interpretation certificate_op: fenced_operation "\<lambda>c. send_certificate_response new_id c response" for new_id response
  unfolding send_certificate_response_def
  by (rule fenced_operation_fenced)
    (auto intro!: session_intros dest: control_try_send_cases(1) session_ok_try_send
      simp: registry_inv_config split: sum.splits)

interpretation observe_op: fenced_operation "\<lambda>c. observe_workload_status c status" for status
  unfolding observe_workload_status_def
  by (rule fenced_operation_fenced) (auto intro!: session_intros split: option.splits)

interpretation lane_op: fenced_operation "\<lambda>c. register_lane (sc_worker_id c) (sc_fence c) n i" for n i
  unfolding register_lane_def
  by (rule fenced_operation_fenced) (auto intro!: session_intros simp: Let_def not_le split: option.splits)

interpretation stream_op: fenced_operation "open_stream now answer" for now answer
  unfolding open_stream_def
  by (rule fenced_operation_fenced) (auto intro!: session_intros simp: Let_def)

interpretation complete_op: fenced_operation "\<lambda>c. complete_inventory c snapshot" for snapshot
  unfolding complete_inventory_def
  by (rule fenced_operation_fenced) (auto intro!: session_intros set_progress_inv)

interpretation feedback_op: fenced_operation "\<lambda>c. handle_command_feedback c envelope" for envelope
proof (cases "command_feedback (env_body envelope)")
  case None
  then show "fenced_operation (\<lambda>c. handle_command_feedback c envelope)"
    by unfold_locales (simp_all add: handle_command_feedback_def)
next
  case (Some f)
  obtain command_id remove failure where "f = (command_id, remove, failure)" by (cases f) auto
  with Some show "fenced_operation (\<lambda>c. handle_command_feedback c envelope)"
    unfolding handle_command_feedback_def
    by simp (rule fenced_operation_fenced, auto intro!: session_intros simp: Let_def split: option.splits)
qed

lemma try_grow_Some:
  "try_grow limit additional n = Some m \<Longrightarrow> m = n + additional \<and> m \<le> limit"
  by (auto simp: try_grow_def checked_add_u64_def bind_eq_Some_conv split: if_splits)

text \<open>A page within the limits extends the snapshot and the byte counter together.\<close>

lemma grow_progress_inv:
  assumes inv: "registry_inv config reg" and s: "map_of (rg_sessions reg) w = Some s"
    and p: "se_inventory s = Some p" and p': "progress_ok config p'" and used: "pr_used p' = pr_used p + n"
    and grown: "try_grow (rc_max_total_inventory_bytes config) n (rg_inventory_bytes reg) = Some b"
  shows "registry_inv config (put_session w (s \<lparr> se_inventory := Some p' \<rparr>) (reg \<lparr> rg_inventory_bytes := b \<rparr>))"
  using try_grow_Some [OF grown] registry_invD [OF inv s] p p' used
  by (intro put_session_inv_bytes [OF inv s]) (auto simp: session_ok_def reserved_by_def)

lemma collect_page_ok:
  assumes "config_bounded config" "progress_ok config p"
    and "\<not> (rc_max_inventory_pages config \<le> page
          \<or> sat_add_u64 (length (pr_items p)) (length items) > rc_max_inventory_items config
          \<or> sat_add_u64 (pr_used p) n > rc_max_inventory_bytes config
          \<or> sat_add_u64 (pr_replicas p) replicas > rc_max_inventory_replicas config)"
    and "pr_next_page p = page"
  shows "pr_used p + n \<le> rc_max_inventory_bytes config \<and> pr_replicas p + replicas \<le> rc_max_inventory_replicas config
    \<and> length (pr_items p) + length items \<le> rc_max_inventory_items config
    \<and> Suc (pr_next_page p) \<le> rc_max_inventory_pages config"
  using assms sat_add_within [of "length (pr_items p)" "length items" "rc_max_inventory_items config"]
    sat_add_within [of "pr_used p" n "rc_max_inventory_bytes config"]
    sat_add_within [of "pr_replicas p" replicas "rc_max_inventory_replicas config"]
  by (auto simp: config_bounded_def)

interpretation collect_op: fenced_operation "\<lambda>c. collect_inventory encoded_len c page" for encoded_len page
  unfolding collect_inventory_def
proof (rule fenced_operation_fenced, goal_cases)
  case (1 c reg s)
  then show ?case
    by (auto simp: Let_def local_update_set_progress intro!: local_update_put_bytes split: option.splits)
next
  case (2 c reg config s)
  then have bounded: "config_bounded config" "rg_config reg = config"
    and prog: "\<And>p. se_inventory s = Some p \<Longrightarrow> progress_ok config p"
    by (auto simp: registry_inv_def session_ok_def)
  show ?case
    using 2 bounded prog collect_page_ok [OF bounded(1) prog, of _ "ip_page page" "ip_items page"]
    by (auto simp: Let_def progress_ok_def intro!: set_progress_inv grow_progress_inv split: option.splits)
qed

section \<open>Calls by worker\<close>

lemma track_or_pass_context:
  "track_or_pass config now tracked s = (r, s1) \<Longrightarrow> se_context s1 = se_context s"
  by (auto simp: track_or_pass_def Let_def split: option.splits prod.splits)

lemma track_or_pass_cases:
  assumes "track_or_pass config now tracked s = (r, s1)" "session_ok config w s"
  shows "session_ok config w s1" "se_context s1 = se_context s" "se_inventory s1 = se_inventory s"
proof -
  have "tracker_ok (rc_max_in_flight_commands_per_worker config) (se_commands s)"
    using assms(2) by (simp add: session_ok_def)
  note tracked = track_command_ok [OF this, of now]
  show "session_ok config w s1"
    using assms tracked by (auto simp: track_or_pass_def Let_def split: prod.splits option.splits
        intro!: session_ok_commands(1)) (metis snd_conv)
  show "se_context s1 = se_context s" "se_inventory s1 = se_inventory s"
    using assms(1) by (auto simp: track_or_pass_def Let_def split: option.splits prod.splits)
qed

lemma control_try_send_context: "control_try_send capacity envelope s = Inr s' \<Longrightarrow> se_context s' = se_context s"
  using control_try_send_cases(1) [of capacity envelope s s'] by simp

lemma registry_send_local: "local_update w reg (snd (registry_send now new_id w body reg))"
  by (auto simp: registry_send_def Let_def track_or_pass_context intro!: local_update_put
      split: option.splits sum.splits prod.splits)
    (metis control_try_send_context track_or_pass_context)+

lemma registry_send_inv:
  assumes "registry_inv config reg"
  shows "registry_inv config (snd (registry_send now new_id w body reg))"
proof (cases "map_of (rg_sessions reg) w")
  case (Some s)
  obtain r s1 where track: "track_or_pass (rg_config reg) now (lifecycle_command now body new_id) s = (r, s1)"
    by fastforce
  have ok: "session_ok config w s1" "reserved_by s1 = reserved_by s"
    using track_or_pass_cases [OF track, of w] registry_invD [OF assms Some] registry_inv_config [OF assms]
    by (auto intro: reserved_by_cong)
  have sent: "session_ok config w s2 \<and> reserved_by s2 = reserved_by s"
    if "control_try_send (rc_control_queue_capacity (rg_config reg)) e s1 = Inr s2" for e s2
    using session_ok_try_send [OF ok(1)] control_try_send_cases(1) [OF that] that ok(2)
    by (auto simp: registry_inv_config [OF assms] reserved_by_def)
  have rolled: "reserved_by (s1 \<lparr> se_commands := t \<rparr>) = reserved_by s" for t
    using ok(2) by (simp add: reserved_by_def)
  show ?thesis
    using assms Some track ok
    by (auto simp: registry_send_def Let_def rolled dest: sent
        intro!: put_session_inv session_ok_commands split: option.splits sum.splits)
qed (use assms in \<open>simp add: registry_send_def\<close>)

lemma map_of_set_progress:
  "map_of (rg_sessions (set_progress w s progress reg)) w = Some (s \<lparr> se_inventory := progress \<rparr>)"
  by (simp add: set_progress_def put_session_def)

lemma local_update_trans:
  assumes "local_update w reg reg'" "local_update w reg' reg''"
  shows "local_update w reg reg''"
  using assms unfolding local_update_def
  by auto

lemma request_inventory_eq:
  assumes "map_of (rg_sessions reg) w = Some s" "lease_is_current now (rc_heartbeat_lease (rg_config reg)) s"
    "\<not> (case se_inventory s of None \<Rightarrow> False | Some p \<Rightarrow> now - pr_started_at p < timeout)"
  obtains progress where "progress_ok (rg_config reg) progress" "pr_used progress = 0"
    "pr_next_page progress = 0" "pr_items progress = []" "pr_snapshot_id progress = snap" "\<not> pr_applying progress"
    "(\<exists>e. request_inventory now snap mid cid w timeout reg =
        (Inl e, set_progress w (s \<lparr> se_inventory := Some progress \<rparr>) None (set_progress w s (Some progress) reg)))
     \<or> (\<exists>e s2. control_try_send (rc_control_queue_capacity (rg_config reg)) e (s \<lparr> se_inventory := Some progress \<rparr>) = Inr s2
          \<and> request_inventory now snap mid cid w timeout reg
            = (Inr True, put_session w s2 (set_progress w s (Some progress) reg)))"
proof
  let ?p = "\<lparr> pr_snapshot_id = snap, pr_next_page = 0, pr_items = [], pr_used = 0, pr_replicas = 0,
    pr_started_at = now, pr_applying = False \<rparr>"
  show "(\<exists>e. request_inventory now snap mid cid w timeout reg =
        (Inl e, set_progress w (s \<lparr> se_inventory := Some ?p \<rparr>) None (set_progress w s (Some ?p) reg)))
     \<or> (\<exists>e s2. control_try_send (rc_control_queue_capacity (rg_config reg)) e (s \<lparr> se_inventory := Some ?p \<rparr>) = Inr s2
          \<and> request_inventory now snap mid cid w timeout reg
            = (Inr True, put_session w s2 (set_progress w s (Some ?p) reg)))"
    using assms unfolding request_inventory_def by (auto simp: Let_def split: sum.splits)
qed (simp_all add: progress_ok_def)

lemma request_inventory_effect:
  assumes "registry_inv config reg"
  shows "registry_inv config (snd (request_inventory now snap mid cid w timeout reg))"
    and "local_update w reg (snd (request_inventory now snap mid cid w timeout reg))"
proof -
  let ?r = "request_inventory now snap mid cid w timeout reg"
  have "registry_inv config (snd ?r) \<and> local_update w reg (snd ?r)"
  proof (cases "\<exists>s. map_of (rg_sessions reg) w = Some s \<and> lease_is_current now (rc_heartbeat_lease (rg_config reg)) s
      \<and> \<not> (case se_inventory s of None \<Rightarrow> False | Some p \<Rightarrow> now - pr_started_at p < timeout)")
    case False
    then have "snd ?r = reg" by (auto simp: request_inventory_def split: option.splits)
    with assms show ?thesis by simp
  next
    case True
    then obtain s where s: "map_of (rg_sessions reg) w = Some s" "lease_is_current now (rc_heartbeat_lease (rg_config reg)) s"
      "\<not> (case se_inventory s of None \<Rightarrow> False | Some p \<Rightarrow> now - pr_started_at p < timeout)" by blast
    from request_inventory_eq [OF s] obtain p where p: "progress_ok (rg_config reg) p" "pr_used p = 0"
      and out: "(\<exists>e. ?r = (Inl e, set_progress w (s \<lparr> se_inventory := Some p \<rparr>) None (set_progress w s (Some p) reg)))
       \<or> (\<exists>e s2. control_try_send (rc_control_queue_capacity (rg_config reg)) e (s \<lparr> se_inventory := Some p \<rparr>) = Inr s2
            \<and> ?r = (Inr True, put_session w s2 (set_progress w s (Some p) reg)))"
      by metis
    let ?reg1 = "set_progress w s (Some p) reg"
    have reg1: "registry_inv config ?reg1" "local_update w reg ?reg1"
      "map_of (rg_sessions ?reg1) w = Some (s \<lparr> se_inventory := Some p \<rparr>)"
      using p set_progress_inv [OF assms s(1), of "Some p"] local_update_set_progress [OF s(1)]
      by (simp_all add: registry_inv_config [OF assms] map_of_set_progress)
    from out show ?thesis
    proof (elim disjE exE conjE)
      fix e assume "?r = (Inl e, set_progress w (s \<lparr> se_inventory := Some p \<rparr>) None ?reg1)"
      then show ?thesis
        using set_progress_inv [OF reg1(1,3), of None] local_update_trans [OF reg1(2) local_update_set_progress [OF reg1(3)]]
        by simp
    next
      fix e s2
      assume sent: "control_try_send (rc_control_queue_capacity (rg_config reg)) e (s \<lparr> se_inventory := Some p \<rparr>) = Inr s2"
        and r: "?r = (Inr True, put_session w s2 ?reg1)"
      have "session_ok config w s2" "se_context s2 = se_context (s \<lparr> se_inventory := Some p \<rparr>)"
        "reserved_by s2 = reserved_by (s \<lparr> se_inventory := Some p \<rparr>)"
        using session_ok_try_send [OF registry_invD [OF reg1(1,3)]] sent control_try_send_cases(1) [OF sent]
        by (auto simp: registry_inv_config [OF assms] reserved_by_def)
      then show ?thesis
        using put_session_inv [OF reg1(1,3)] local_update_trans [OF reg1(2) local_update_put [OF reg1(3)]] r by simp
    qed
  qed
  then show "registry_inv config (snd ?r)" "local_update w reg (snd ?r)" by blast+
qed

lemma small_steps_inv:
  assumes "registry_inv config reg"
  shows "registry_inv config (recv_outbound w reg)" "registry_inv config (drop_receiver w reg)"
    "registry_inv config (remove_lane_if w fence n i reg)"
  using assms registry_invD [OF assms, of w]
  by (auto simp: recv_outbound_def drop_receiver_def remove_lane_if_def current_Inr session_ok_def
      intro!: put_session_inv reserved_by_cong lanes_ok_delete
      split: option.splits sum.splits) 

lemma small_steps_local:
  "local_update w reg (recv_outbound w reg)" "local_update w reg (drop_receiver w reg)"
  "local_update w reg (remove_lane_if w fence n i reg)"
  by (auto simp: recv_outbound_def drop_receiver_def remove_lane_if_def current_Inr
      intro!: local_update_put split: option.splits sum.splits)

lemma registry_step_inv: "registry_step reg reg' \<Longrightarrow> registry_inv config reg \<Longrightarrow> registry_inv config reg'"
proof (induction rule: registry_step.induct)
  case (remove reg w fence)
  then show ?case by (auto simp: remove_control_if_def remove_entry_inv split: option.splits)
next
  case (disconnect reg w)
  then show ?case by (auto simp: disconnect_def remove_entry_inv split: option.splits)
next
  case (touch reg now w fence)
  let ?c = "\<lparr> sc_worker_id = w, sc_boot_id = 0, sc_fingerprint_sha256 = [], sc_fence = fence \<rparr>"
  have "registry_inv config (snd (touch now (sc_worker_id ?c) (sc_fence ?c) reg))"
    by (rule touch_op.keeps_inv) (fact touch)
  then show ?case by simp
next
  case (lane reg w fence n i)
  let ?c = "\<lparr> sc_worker_id = w, sc_boot_id = 0, sc_fingerprint_sha256 = [], sc_fence = fence \<rparr>"
  have "registry_inv config (snd (register_lane (sc_worker_id ?c) (sc_fence ?c) n i reg))"
    by (rule lane_op.keeps_inv) (fact lane)
  then show ?case by simp
qed (blast intro: register_inv shutdown_inv registry_send_inv certificate_op.keeps_inv feedback_op.keeps_inv
      observe_op.keeps_inv stream_op.keeps_inv collect_op.keeps_inv request_inventory_effect(1)
      complete_op.keeps_inv small_steps_inv)+

interpretation registry: step_system "\<lambda>r. config_bounded config \<and> r = registry_new config" registry_step
    "registry_inv config" for config
  by unfold_locales (auto simp: registry_step_inv, simp add: registry_inv_def registry_new_def reserved_total_def)

text \<open>
  How a step changes who is connected: by a local update, by a registration that replaces only an
  older session, or by a removal; a session that is replaced or removed is told to stop.
\<close>

definition fate_ok :: "worker_registry \<Rightarrow> worker_registry \<Rightarrow> bool" where
  "fate_ok reg reg' \<longleftrightarrow> (\<forall>v s. map_of (rg_sessions reg) v = Some s \<longrightarrow>
     (\<exists>s'. map_of (rg_sessions reg') v = Some s' \<and> se_context s' = se_context s)
     \<or> se_context s \<in> set (rg_stopped reg')
       \<and> (\<forall>s'. map_of (rg_sessions reg') v = Some s' \<longrightarrow>
            sf_session_epoch (sc_fence (se_context s)) < sf_session_epoch (sc_fence (se_context s'))))"

lemma fate_local: "local_update w reg reg' \<Longrightarrow> fate_ok reg reg'"
  unfolding fate_ok_def by (metis local_update_context(1) map_option_eq_Some)

lemma fate_register: "fate_ok reg (snd (register_authenticated_control now context lanes reg))"
  by (auto simp: fate_ok_def register_authenticated_control_def Let_def put_session_def stop_entry_def
      session_entry_new_def not_le split: option.splits)

lemma fate_remove: "map_of (rg_sessions reg) w = Some s \<Longrightarrow> fate_ok reg (remove_entry w s reg)"
  by (auto simp: fate_ok_def remove_entry_def stop_entry_def)

lemma registry_step_fate: "registry_step reg reg' \<Longrightarrow> registry_inv config reg \<Longrightarrow> fate_ok reg reg'"
proof (induction rule: registry_step.induct)
  case (remove reg w fence)
  then show ?case by (auto simp: remove_control_if_def fate_remove fate_local [OF local_update_refl] split: option.splits)
next
  case (disconnect reg w)
  then show ?case by (auto simp: disconnect_def fate_remove fate_local [OF local_update_refl] split: option.splits)
next
  case (shutdown reg)
  show ?case
    by (auto simp: fate_ok_def registry_shutdown_def fold_stop_entry dest!: map_of_SomeD) force
next
  case (touch reg now w fence)
  let ?c = "\<lparr> sc_worker_id = w, sc_boot_id = 0, sc_fingerprint_sha256 = [], sc_fence = fence \<rparr>"
  have "fate_ok reg (snd (touch now (sc_worker_id ?c) (sc_fence ?c) reg))"
    by (rule fate_local, rule touch_op.acts_locally)
  then show ?case by simp
next
  case (lane reg w fence n i)
  let ?c = "\<lparr> sc_worker_id = w, sc_boot_id = 0, sc_fingerprint_sha256 = [], sc_fence = fence \<rparr>"
  have "fate_ok reg (snd (register_lane (sc_worker_id ?c) (sc_fence ?c) n i reg))"
    by (rule fate_local, rule lane_op.acts_locally)
  then show ?case by simp
qed (rule fate_register | blast intro: fate_local registry_send_local certificate_op.acts_locally feedback_op.acts_locally
      observe_op.acts_locally stream_op.acts_locally collect_op.acts_locally request_inventory_effect(2)
      complete_op.acts_locally small_steps_local)+

lemma lanes_ok_length: "lanes_ok limit lanes \<Longrightarrow> length lanes \<le> limit"
proof -
  assume "lanes_ok limit lanes"
  then have "card (set (map fst lanes)) = length lanes" "set (map fst lanes) \<subseteq> {..<limit}"
    using distinct_card [of "map fst lanes"] by (simp_all add: lanes_ok_def keys_distinct_def)
  with card_mono [of "{..<limit}" "set (map fst lanes)"] show ?thesis by simp
qed

section \<open>Lanes in turn\<close>

lemma lane_candidates_rotate: "lane_candidates offset lanes = rotate (offset mod length lanes) lanes"
proof (cases "lanes = []")
  case False
  then have "offset mod length lanes < length lanes" by simp
  then show ?thesis
    by (simp add: lane_candidates_def Let_def rotate_drop_take)
qed (simp add: lane_candidates_def)

definition skippable :: "(worker_error, 's) result \<Rightarrow> bool" where
  "skippable r \<longleftrightarrow> r = Inl Busy \<or> r = Inl Offline"

lemma try_lanes_spec:
  "try_lanes answer ls =
    (case dropWhile (\<lambda>l. skippable (answer l)) ls of [] \<Rightarrow> Inl Busy | l # _ \<Rightarrow> answer l)"
  by (induction ls) (auto simp: skippable_def split: sum.splits)

end
