(* ===== verification/Worker_Fencing.thy ===== *)
theory Worker_Fencing
  imports Worker_Registry
begin

text \<open>
  What the worker registry guarantees: bounded tables in every reachable state, sessions that are
  replaced only by newer ones and told to stop, stale connections without effect, inventory
  snapshots delivered whole and in order, one lifecycle command in flight for a workload, and data
  streams tried on every lane in turn.
\<close>

section \<open>Collecting a snapshot\<close>

text \<open>The pages a worker sends one after the other, up to the first answer that is not "more".\<close>

fun collect_all ::
  "(inventory_item list \<Rightarrow> nat option) \<Rightarrow> session_context \<Rightarrow> inventory_page list \<Rightarrow> worker_registry
    \<Rightarrow> (worker_error, (uuid \<times> inventory_item list) option) result \<times> worker_registry" where
  "collect_all enc c [] reg = (Inr None, reg)"
| "collect_all enc c (q # qs) reg =
    (case collect_inventory enc c q reg of
       (Inr None, reg') \<Rightarrow> collect_all enc c qs reg'
     | (Inr (Some d), reg') \<Rightarrow> (Inr (Some d), reg')
     | (Inl e, reg') \<Rightarrow> (Inl e, reg'))"

text \<open>A complete page stream: one snapshot, numbered from \<open>i\<close> on, final exactly at the end.\<close>

fun pages_from :: "uuid \<Rightarrow> nat \<Rightarrow> inventory_page list \<Rightarrow> bool" where
  "pages_from snap i [] = False"
| "pages_from snap i [q] = (ip_snapshot_id q = snap \<and> ip_page q = i \<and> ip_final_page q)"
| "pages_from snap i (q # qs) =
    (ip_snapshot_id q = snap \<and> ip_page q = i \<and> \<not> ip_final_page q \<and> ip_items q \<noteq> [] \<and> pages_from snap (Suc i) qs)"

lemma pages_from_Cons:
  "qs \<noteq> [] \<Longrightarrow> pages_from snap i (q # qs) =
    (ip_snapshot_id q = snap \<and> ip_page q = i \<and> \<not> ip_final_page q \<and> ip_items q \<noteq> [] \<and> pages_from snap (Suc i) qs)"
  by (cases qs) auto

definition collecting :: "worker_registry \<Rightarrow> session_context \<Rightarrow> session_entry \<Rightarrow> inventory_progress \<Rightarrow> bool" where
  "collecting reg c s p \<longleftrightarrow> current reg (sc_worker_id c) (sc_fence c) = Inr s \<and> se_inventory s = Some p
     \<and> \<not> pr_applying p"

text \<open>The progress after a page of \<open>n\<close> encoded bytes and \<open>r\<close> replicas.\<close>

definition advance :: "nat \<Rightarrow> nat \<Rightarrow> inventory_page \<Rightarrow> inventory_progress \<Rightarrow> inventory_progress" where
  "advance n r q p =
    p \<lparr> pr_used := pr_used p + n, pr_replicas := pr_replicas p + r, pr_items := pr_items p @ ip_items q,
        pr_next_page := pr_next_page p + 1 \<rparr>"

lemma collect_accepted:
  assumes "collecting reg c s p" "collect_inventory enc c q reg = (Inr d, reg')"
  obtains n r where "enc (ip_items q) = Some n" "page_replicas (ip_items q) = Some r"
    "ip_snapshot_id q = pr_snapshot_id p" "ip_page q = pr_next_page p" "ip_final_page q \<or> ip_items q \<noteq> []"
    "d = (if ip_final_page q then Some (pr_snapshot_id p, pr_items p @ ip_items q) else None)"
    "\<not> ip_final_page q \<Longrightarrow> \<exists>s'. collecting reg' c s' (advance n r q p)"
proof -
  from assms(1) have s: "current reg (sc_worker_id c) (sc_fence c) = Inr s" "se_inventory s = Some p" "\<not> pr_applying p"
    by (simp_all add: collecting_def)
  have fence: "sc_fence (se_context s) = sc_fence c" using s(1) by (simp add: current_Inr)
  have "\<exists>n r. enc (ip_items q) = Some n \<and> page_replicas (ip_items q) = Some r
      \<and> ip_snapshot_id q = pr_snapshot_id p \<and> ip_page q = pr_next_page p \<and> (ip_final_page q \<or> ip_items q \<noteq> [])
      \<and> d = (if ip_final_page q then Some (pr_snapshot_id p, pr_items p @ ip_items q) else None)
      \<and> (\<not> ip_final_page q \<longrightarrow> (\<exists>s'. collecting reg' c s' (advance n r q p)))"
    using assms(2) s fence
    unfolding collect_inventory_def fenced_def s Let_def sum.case option.case case_option_pair_Inr if_error_pair_Inr
    by (auto simp: current_Inr collecting_def put_session_def advance_def split: if_splits)
  then show ?thesis using that by blast
qed

lemma collect_all_sound:
  "collecting reg c s p \<Longrightarrow> collect_all enc c qs reg = (Inr (Some (sid, items)), reg') \<Longrightarrow>
   \<exists>k. pages_from (pr_snapshot_id p) (pr_next_page p) (take k qs) \<and> sid = pr_snapshot_id p
     \<and> items = pr_items p @ concat (map ip_items (take k qs))"
proof (induction qs arbitrary: reg s p)
  case (Cons q qs)
  obtain r1 reg1 where r1: "collect_inventory enc c q reg = (r1, reg1)" by fastforce
  then obtain d where d: "r1 = Inr d" using Cons.prems(2) by (auto split: sum.splits)
  from collect_accepted [OF Cons.prems(1) r1 [unfolded d]] obtain n r where q:
    "ip_snapshot_id q = pr_snapshot_id p" "ip_page q = pr_next_page p" "ip_final_page q \<or> ip_items q \<noteq> []"
    "d = (if ip_final_page q then Some (pr_snapshot_id p, pr_items p @ ip_items q) else None)"
    "\<not> ip_final_page q \<Longrightarrow> \<exists>s'. collecting reg1 c s' (advance n r q p)"
    by metis
  show ?case
  proof (cases "ip_final_page q")
    case True
    with Cons.prems(2) r1 d q show ?thesis by (intro exI [of _ 1]) auto
  next
    case False
    with q(5) obtain s' where going: "collecting reg1 c s' (advance n r q p)" by blast
    have "collect_all enc c qs reg1 = (Inr (Some (sid, items)), reg')"
      using Cons.prems(2) r1 d q(4) False by simp
    from Cons.IH [OF going this] obtain k where k: "pages_from (pr_snapshot_id p) (Suc (pr_next_page p)) (take k qs)"
      "sid = pr_snapshot_id p" "items = pr_items p @ ip_items q @ concat (map ip_items (take k qs))"
      by (auto simp: advance_def)
    from k(1) have "take k qs \<noteq> []" by (metis pages_from.simps(1))
    then have "pages_from (pr_snapshot_id p) (pr_next_page p) (take (Suc k) (q # qs))"
      using k(1) q False by (simp add: pages_from_Cons)
    with k(2,3) show ?thesis by (intro exI [of _ "Suc k"]) simp
  qed
qed simp

text \<open>What the pages need: bytes, items and replicas in all.\<close>

definition encoded_total :: "(inventory_item list \<Rightarrow> nat option) \<Rightarrow> inventory_page list \<Rightarrow> nat" where
  "encoded_total enc qs = (\<Sum>q\<leftarrow>qs. the (enc (ip_items q)))"

definition item_total :: "inventory_page list \<Rightarrow> nat" where
  "item_total qs = (\<Sum>q\<leftarrow>qs. length (ip_items q))"

definition replica_total :: "inventory_page list \<Rightarrow> nat" where
  "replica_total qs = (\<Sum>q\<leftarrow>qs. \<Sum>item\<leftarrow>ip_items q. length (ii_replicas item))"

lemma page_replicas_sum:
  "(\<Sum>item\<leftarrow>items. length (ii_replicas item)) \<le> usize_max \<Longrightarrow>
   page_replicas items = Some (\<Sum>item\<leftarrow>items. length (ii_replicas item))"
proof -
  have "fold (\<lambda>item acc. Option.bind acc (\<lambda>n. checked_add_u64 n (length (ii_replicas item)))) items (Some m)
      = Some (m + (\<Sum>item\<leftarrow>items. length (ii_replicas item)))"
    if "m + (\<Sum>item\<leftarrow>items. length (ii_replicas item)) \<le> usize_max" for m
    using that by (induction items arbitrary: m) (auto simp: checked_add_u64_def)
  from this [of 0] show "(\<Sum>item\<leftarrow>items. length (ii_replicas item)) \<le> usize_max \<Longrightarrow> ?thesis"
    by (simp add: page_replicas_def)
qed

lemma sat_add_le: "a + b \<le> limit \<Longrightarrow> sat_add_u64 a b \<le> limit"
  by (simp add: sat_add_u64_def)

definition room_for ::
  "(inventory_item list \<Rightarrow> nat option) \<Rightarrow> inventory_page list \<Rightarrow> worker_registry \<Rightarrow> inventory_progress \<Rightarrow> bool" where
  "room_for enc qs reg p \<longleftrightarrow>
     pr_next_page p + length qs \<le> min (rc_max_inventory_pages (rg_config reg)) u32_max
     \<and> length (pr_items p) + item_total qs \<le> rc_max_inventory_items (rg_config reg)
     \<and> pr_used p + encoded_total enc qs \<le> rc_max_inventory_bytes (rg_config reg)
     \<and> pr_replicas p + replica_total qs \<le> min (rc_max_inventory_replicas (rg_config reg)) usize_max
     \<and> rg_inventory_bytes reg + encoded_total enc qs \<le> min (rc_max_total_inventory_bytes (rg_config reg)) usize_max"

lemma collect_with_room:
  assumes "collecting reg c s p" "room_for enc (q # qs) reg p" "enc (ip_items q) = Some n"
    and "ip_snapshot_id q = pr_snapshot_id p" "ip_page q = pr_next_page p" "ip_final_page q \<or> ip_items q \<noteq> []"
  shows "\<exists>reg' s' r. collect_inventory enc c q reg =
      (Inr (if ip_final_page q then Some (pr_snapshot_id p, pr_items p @ ip_items q) else None), reg')
    \<and> (\<not> ip_final_page q \<longrightarrow> collecting reg' c s' (advance n r q p) \<and> room_for enc qs reg' (advance n r q p))"
proof -
  let ?r = "\<Sum>item\<leftarrow>ip_items q. length (ii_replicas item)"
  have r: "page_replicas (ip_items q) = Some ?r"
    by (rule page_replicas_sum) (use assms(2) in \<open>simp add: room_for_def replica_total_def\<close>)
  have fits: "sat_add_u64 (length (pr_items p)) (length (ip_items q)) \<le> rc_max_inventory_items (rg_config reg)"
    "sat_add_u64 (pr_used p) n \<le> rc_max_inventory_bytes (rg_config reg)"
    "sat_add_u64 (pr_replicas p) ?r \<le> rc_max_inventory_replicas (rg_config reg)"
    "pr_next_page p < rc_max_inventory_pages (rg_config reg)" "pr_next_page p < u32_max"
    using assms(2,3) by (auto simp: room_for_def item_total_def encoded_total_def replica_total_def intro!: sat_add_le)
  have grow: "try_grow (rc_max_total_inventory_bytes (rg_config reg)) n (rg_inventory_bytes reg)
      = Some (rg_inventory_bytes reg + n)"
    using assms(2,3) by (simp add: try_grow_def checked_add_u64_def room_for_def encoded_total_def)
  let ?w = "sc_worker_id c" and ?reg = "reg \<lparr> rg_inventory_bytes := rg_inventory_bytes reg + n \<rparr>"
  have s: "current reg ?w (sc_fence c) = Inr s" "se_inventory s = Some p" "\<not> pr_applying p"
    using assms(1) by (simp_all add: collecting_def)
  have step: "collect_inventory enc c q reg =
    (if ip_final_page q
     then (Inr (Some (pr_snapshot_id p, pr_items p @ ip_items q)),
           put_session ?w (s \<lparr> se_inventory := Some (advance n ?r q p \<lparr> pr_applying := True, pr_items := [] \<rparr>) \<rparr>) ?reg)
     else (Inr None, put_session ?w (s \<lparr> se_inventory := Some (advance n ?r q p) \<rparr>) ?reg))"
    unfolding collect_inventory_def fenced_def s Let_def sum.case option.case
    using s assms(3-6) r fits grow by (auto simp: advance_def not_less not_le)
  show ?thesis
  proof (cases "ip_final_page q")
    case False
    have "collecting (put_session ?w (s \<lparr> se_inventory := Some (advance n ?r q p) \<rparr>) ?reg) c
        (s \<lparr> se_inventory := Some (advance n ?r q p) \<rparr>) (advance n ?r q p)"
      using s by (auto simp: collecting_def current_Inr put_session_def advance_def)
    moreover have "room_for enc qs (put_session ?w (s \<lparr> se_inventory := Some (advance n ?r q p) \<rparr>) ?reg) (advance n ?r q p)"
      using assms(2,3) by (simp add: room_for_def put_session_def advance_def item_total_def encoded_total_def
          replica_total_def)
    ultimately show ?thesis using step False by auto
  qed (use step in auto)
qed

lemma collect_all_complete:
  "collecting reg c s p \<Longrightarrow> room_for enc qs reg p \<Longrightarrow> \<forall>q \<in> set qs. enc (ip_items q) \<noteq> None \<Longrightarrow>
   pages_from (pr_snapshot_id p) (pr_next_page p) qs \<Longrightarrow>
   \<exists>reg'. collect_all enc c qs reg =
     (Inr (Some (pr_snapshot_id p, pr_items p @ concat (map ip_items qs))), reg')"
proof (induction qs arbitrary: reg s p)
  case (Cons q qs)
  obtain n where n: "enc (ip_items q) = Some n" using Cons.prems(3) by auto
  have q: "ip_snapshot_id q = pr_snapshot_id p" "ip_page q = pr_next_page p" "ip_final_page q \<or> ip_items q \<noteq> []"
    "ip_final_page q \<longleftrightarrow> qs = []" "qs \<noteq> [] \<Longrightarrow> pages_from (pr_snapshot_id p) (Suc (pr_next_page p)) qs"
    using Cons.prems(4) by (cases qs; auto)+
  from collect_with_room [OF Cons.prems(1,2) n q(1-3)] obtain reg' s' r where step:
    "collect_inventory enc c q reg =
      (Inr (if ip_final_page q then Some (pr_snapshot_id p, pr_items p @ ip_items q) else None), reg')"
    "\<not> ip_final_page q \<Longrightarrow> collecting reg' c s' (advance n r q p)"
    "\<not> ip_final_page q \<Longrightarrow> room_for enc qs reg' (advance n r q p)" by blast
  show ?case
  proof (cases "qs = []")
    case True
    with step(1) q(4) show ?thesis by simp
  next
    case False
    with q(4,5) have "pages_from (pr_snapshot_id (advance n r q p)) (pr_next_page (advance n r q p)) qs"
      by (simp add: advance_def)
    with Cons.IH [OF step(2,3)] Cons.prems(3) q(4) False obtain reg'' where
      "collect_all enc c qs reg' = (Inr (Some (pr_snapshot_id p, (pr_items p @ ip_items q) @ concat (map ip_items qs))), reg'')"
      by (auto simp: advance_def)
    with step(1) q(4) False show ?thesis by simp
  qed
qed simp

lemma request_inventory_collecting:
  assumes "request_inventory now snap mid cid w timeout reg = (Inr True, reg1)"
    "current reg w f = Inr s" "sc_worker_id c = w" "sc_fence c = f"
  shows "\<exists>s' p. collecting reg1 c s' p \<and> pr_snapshot_id p = snap \<and> pr_next_page p = 0 \<and> pr_items p = []
    \<and> pr_used p = 0 \<and> pr_replicas p = 0"
  using assms
  by (auto simp: request_inventory_def Let_def current_Inr collecting_def put_session_def
      dest: control_try_send_cases(1) split: if_splits sum.splits option.splits)

section \<open>Commands in flight\<close>

lemma track_command_tracks:
  assumes "tracker_ok limit t" "track_command limit now command t = (Inr u, t')"
  shows "map_of (ct_by_id t') (ic_command_id command) = Some command"
  using assms(2) by (auto simp: track_command_cases [OF assms(1)] Let_def split: if_splits)

lemma track_command_busy:
  assumes "tracker_ok limit t" "map_of (ct_by_id t) c = Some cmd" "now < ic_deadline cmd"
    "wf_workload_id (ic_fence cmd') = wf_workload_id (ic_fence cmd)"
  shows "fst (track_command limit now cmd' t) = Inl Busy"
proof -
  have keys: "keys_distinct (ct_by_id t)" "keys_distinct (ct_by_workload t)" using assms(1) by (simp_all add: tracker_ok_def)
  have "map_of (ct_by_id (prune_expired_commands now t)) c = Some cmd"
    using assms(2,3) by (simp add: prune_by_id [OF keys(1)])
  then have "map_of (ct_by_workload (prune_expired_commands now t)) (wf_workload_id (ic_fence cmd)) = Some c"
    using tracker_okD [OF prune_ok [OF assms(1)]] by blast
  then show ?thesis using assms(4) by (simp add: track_command_cases [OF assms(1)] Let_def)
qed

lemma lifecycle_command_message: "lifecycle_command now body mid = Some cmd \<Longrightarrow> ic_message_id cmd = mid"
  by (auto simp: lifecycle_command_def Let_def split: control_message.splits)

lemma registry_send_tracks:
  assumes "registry_inv config reg" "registry_send now mid w body reg = (Inr sent, reg1)"
    "lifecycle_command now body mid = Some cmd" "map_of (rg_sessions reg1) w = Some s"
  shows "map_of (ct_by_id (se_commands s)) (ic_command_id cmd) = Some cmd \<and> ic_message_id cmd = mid"
proof -
  obtain s0 where s0: "map_of (rg_sessions reg) w = Some s0"
    using assms(2) by (auto simp: registry_send_def split: if_splits option.splits)
  then have tr: "tracker_ok (rc_max_in_flight_commands_per_worker (rg_config reg)) (se_commands s0)"
    using registry_invD [OF assms(1)] registry_inv_config [OF assms(1)] by (auto simp: session_ok_def)
  obtain r t where track: "track_command (rc_max_in_flight_commands_per_worker (rg_config reg)) now cmd (se_commands s0) = (r, t)"
    by fastforce
  with assms(2-4) s0 have "r = Inr ()" "se_commands s = t"
    by (auto simp: registry_send_def track_or_pass_def Let_def put_session_def
        dest!: control_try_send_cases(1) split: if_splits sum.splits)
  with track_command_tracks [OF tr] track lifecycle_command_message [OF assms(3)] show ?thesis by simp
qed

section \<open>Main results\<close>

text \<open>
  C19. In every reachable state of the registry all its tables are bounded: at most the configured number
  of workers, and for each of them a control queue, a command table, data lanes and a pending snapshot
  within their limits; no workload has two commands in flight; and the process-wide byte counter is
  exactly the sum of what the pending snapshots have reserved, and within its own limit.
\<close>

theorem registry_stays_bounded:
  assumes "config_bounded config" and "registry_step\<^sup>*\<^sup>* (registry_new config) reg"
  shows "connected_workers reg \<le> rc_max_workers config
    \<and> rg_inventory_bytes reg = (\<Sum>(w, s)\<leftarrow>rg_sessions reg. case se_inventory s of None \<Rightarrow> 0 | Some p \<Rightarrow> pr_used p)
    \<and> rg_inventory_bytes reg \<le> rc_max_total_inventory_bytes config
    \<and> (\<forall>w s. map_of (rg_sessions reg) w = Some s \<longrightarrow>
         sc_worker_id (se_context s) = w
         \<and> length (se_control s) \<le> rc_control_queue_capacity config
         \<and> length (ct_by_id (se_commands s)) \<le> rc_max_in_flight_commands_per_worker config
         \<and> (\<forall>c d x y. map_of (ct_by_id (se_commands s)) c = Some x \<and> map_of (ct_by_id (se_commands s)) d = Some y
              \<and> wf_workload_id (ic_fence x) = wf_workload_id (ic_fence y) \<longrightarrow> c = d)
         \<and> length (se_lanes s) \<le> rc_max_data_lanes_per_worker config
         \<and> (\<forall>p. se_inventory s = Some p \<longrightarrow> progress_ok config p))"
proof -
  have inv: "registry_inv config reg" using registry.reachable_inv [OF _ assms(2), of config] assms(1) by blast
  have "sc_worker_id (se_context s) = w \<and> length (se_control s) \<le> rc_control_queue_capacity config
      \<and> length (ct_by_id (se_commands s)) \<le> rc_max_in_flight_commands_per_worker config
      \<and> (\<forall>c d x y. map_of (ct_by_id (se_commands s)) c = Some x \<and> map_of (ct_by_id (se_commands s)) d = Some y
           \<and> wf_workload_id (ic_fence x) = wf_workload_id (ic_fence y) \<longrightarrow> c = d)
      \<and> length (se_lanes s) \<le> rc_max_data_lanes_per_worker config
      \<and> (\<forall>p. se_inventory s = Some p \<longrightarrow> progress_ok config p)"
    if "map_of (rg_sessions reg) w = Some s" for w s
  proof -
    have ok: "session_ok config w s" using registry_invD [OF inv that] .
    then have tr: "tracker_ok (rc_max_in_flight_commands_per_worker config) (se_commands s)"
      and "length (se_lanes s) \<le> rc_max_data_lanes_per_worker config"
      using lanes_ok_length [of "se_max_data_lanes s" "se_lanes s"] by (simp_all add: session_ok_def)
    with ok tracker_ok_unique [OF tr] show ?thesis by (auto simp: session_ok_def tracker_ok_def)
  qed
  then show ?thesis
    using inv by (simp add: registry_inv_def connected_workers_def reserved_total_def reserved_by_def)
qed

definition sample_context :: "nat \<Rightarrow> session_context" where
  "sample_context epoch =
    \<lparr> sc_worker_id = 5, sc_boot_id = 6, sc_fingerprint_sha256 = [],
      sc_fence = \<lparr> sf_session_id = 7, sf_session_epoch = epoch \<rparr> \<rparr>"

definition sample_registry :: worker_registry where
  "sample_registry = snd (register_authenticated_control 0 (sample_context 3) 4 (registry_new registry_config_default))"

lemma sample_registry_reachable: "registry_step\<^sup>*\<^sup>* (registry_new registry_config_default) sample_registry"
  unfolding sample_registry_def by (rule r_into_rtranclp, rule registry_step.register)

lemma default_config_bounded: "config_bounded registry_config_default"
  by (simp add: config_bounded_def registry_config_default_def)

lemma sample_registry_sessions:
  "rg_sessions sample_registry = [(5, session_entry_new 0 (sample_context 3) 4)]"
  "rg_stopped sample_registry = []" "rg_config sample_registry = registry_config_default"
  "rg_inventory_bytes sample_registry = 0"
  by (simp_all add: sample_registry_def register_authenticated_control_def registry_new_def registry_config_default_def
      Let_def put_session_def sample_context_def)

theorem registry_stays_bounded_witness:
  "config_bounded registry_config_default
   \<and> registry_step\<^sup>*\<^sup>* (registry_new registry_config_default) sample_registry
   \<and> connected_workers sample_registry = 1 \<and> connected_workers sample_registry \<le> 4096"
  using registry_stays_bounded [OF default_config_bounded sample_registry_reachable] default_config_bounded
    sample_registry_reachable
  by (simp add: connected_workers_def sample_registry_sessions registry_config_default_def)

text \<open>
  C20. Sessions are fenced: at every step of a reachable registry, each connected session either stays
  under its own identity, or is told to stop; and if its worker is connected after the step under
  another identity, that session has a strictly higher epoch. No step revives an older session.
\<close>

theorem sessions_superseded_only_by_newer:
  assumes "config_bounded config" and "registry_step\<^sup>*\<^sup>* (registry_new config) reg" and "registry_step reg reg'"
    and "map_of (rg_sessions reg) w = Some s"
  shows "(\<exists>s'. map_of (rg_sessions reg') w = Some s' \<and> se_context s' = se_context s)
    \<or> se_context s \<in> set (rg_stopped reg')
      \<and> (\<forall>s'. map_of (rg_sessions reg') w = Some s' \<longrightarrow>
           sf_session_epoch (sc_fence (se_context s)) < sf_session_epoch (sc_fence (se_context s')))"
proof -
  have "registry_inv config reg" using registry.reachable_inv [OF _ assms(2), of config] assms(1) by blast
  from registry_step_fate [OF assms(3) this] assms(4) show ?thesis by (simp add: fate_ok_def)
qed

theorem sessions_superseded_only_by_newer_witness:
  "registry_step sample_registry (snd (register_authenticated_control 9 (sample_context 4) 4 sample_registry))
   \<and> sample_context 3 \<in> set (rg_stopped (snd (register_authenticated_control 9 (sample_context 4) 4 sample_registry)))"
proof -
  let ?reg' = "snd (register_authenticated_control 9 (sample_context 4) 4 sample_registry)"
  have step: "registry_step sample_registry ?reg'" by (rule registry_step.register)
  have "map_of (rg_sessions ?reg') 5 = Some (session_entry_new 9 (sample_context 4) 4)"
    by (simp add: register_authenticated_control_def sample_registry_sessions sample_context_def Let_def put_session_def
        stop_entry_def session_entry_new_def registry_config_default_def)
  then show ?thesis
    using step sessions_superseded_only_by_newer [OF default_config_bounded sample_registry_reachable step,
        of 5 "session_entry_new 0 (sample_context 3) 4"]
    by (auto simp: sample_registry_sessions session_entry_new_def sample_context_def)
qed

text \<open>
  C21. A connection whose session is no longer the current one of its worker cannot affect the registry:
  its heartbeats, certificate responses, command feedback, status reports, inventory pages, lane
  registrations, stream openings and its teardown are refused or ignored and leave the registry exactly
  as it was, so a late teardown never removes the replacement.
\<close>

theorem stale_session_is_inert:
  assumes "current reg (sc_worker_id c) (sc_fence c) = Inl e"
  shows "touch now (sc_worker_id c) (sc_fence c) reg = (Inl e, reg)
    \<and> send_certificate_response new_id c response reg = (Inl e, reg)
    \<and> snd (handle_command_feedback c envelope reg) = reg
    \<and> observe_workload_status c status reg = (Inl e, reg)
    \<and> collect_inventory enc c page reg = (Inl e, reg)
    \<and> complete_inventory c snap reg = (Inl e, reg)
    \<and> register_lane (sc_worker_id c) (sc_fence c) n i reg = (Inl e, reg)
    \<and> remove_lane_if (sc_worker_id c) (sc_fence c) n i reg = reg
    \<and> open_stream now answer c reg = (Inl e, reg)
    \<and> remove_control_if (sc_worker_id c) (sc_fence c) reg = (False, reg)"
  using feedback_op.stale_inert [OF assms, of envelope] assms
  by (auto simp: touch_def send_certificate_response_def observe_workload_status_def collect_inventory_def
      complete_inventory_def register_lane_def remove_lane_if_def open_stream_def fenced_def remove_control_if_def
      current_def split: option.splits if_splits)

theorem stale_session_is_inert_witness:
  "current sample_registry 5 (sc_fence (sample_context 2)) = Inl StaleSession
   \<and> remove_control_if 5 (sc_fence (sample_context 2)) sample_registry = (False, sample_registry)"
proof -
  have id: "sc_worker_id (sample_context 2) = 5" by (simp add: sample_context_def)
  have stale: "current sample_registry (sc_worker_id (sample_context 2)) (sc_fence (sample_context 2)) = Inl StaleSession"
    by (simp add: current_def sample_registry_sessions session_entry_new_def sample_context_def)
  from stale_session_is_inert [OF stale] stale show ?thesis unfolding id by blast
qed

text \<open>
  C22. An inventory snapshot is delivered whole and in order or not at all: after a request, whatever
  pages the worker sends, what is delivered is the concatenation of a prefix of them that is numbered
  from zero, belongs to the requested snapshot and ends with its only final page. Conversely every such
  stream of pages within the limits is delivered.
\<close>

theorem snapshot_delivered_in_order:
  assumes "current reg0 (sc_worker_id c) (sc_fence c) = Inr s"
    and "request_inventory now snap mid cid (sc_worker_id c) timeout reg0 = (Inr True, reg)"
  shows "(collect_all enc c pages reg = (Inr (Some (sid, items)), reg') \<longrightarrow>
      (\<exists>k. pages_from snap 0 (take k pages) \<and> sid = snap \<and> items = concat (map ip_items (take k pages))))
    \<and> (pages_from snap 0 pages \<and> (\<forall>q \<in> set pages. enc (ip_items q) \<noteq> None)
       \<and> length pages \<le> min (rc_max_inventory_pages (rg_config reg)) u32_max
       \<and> item_total pages \<le> rc_max_inventory_items (rg_config reg)
       \<and> encoded_total enc pages \<le> rc_max_inventory_bytes (rg_config reg)
       \<and> replica_total pages \<le> min (rc_max_inventory_replicas (rg_config reg)) usize_max
       \<and> rg_inventory_bytes reg + encoded_total enc pages
          \<le> min (rc_max_total_inventory_bytes (rg_config reg)) usize_max
       \<longrightarrow> fst (collect_all enc c pages reg) = Inr (Some (snap, concat (map ip_items pages))))"
proof -
  from request_inventory_collecting [OF assms(2,1)] obtain s' p where p: "collecting reg c s' p"
    "pr_snapshot_id p = snap" "pr_next_page p = 0" "pr_items p = []" "pr_used p = 0" "pr_replicas p = 0" by blast
  show ?thesis
    using collect_all_sound [OF p(1), of enc pages sid items reg'] collect_all_complete [OF p(1), of enc pages] p(2-6)
    by (auto simp: room_for_def)
qed

definition sample_item :: inventory_item where
  "sample_item = \<lparr> ii_fence = sample_fence, ii_spec_hash = [], ii_state = ObservedReady, ii_replicas = [] \<rparr>"

definition sample_pages :: "inventory_page list" where
  "sample_pages =
    [\<lparr> ip_snapshot_id = 8, ip_page = 0, ip_final_page = False, ip_items = [sample_item] \<rparr>,
     \<lparr> ip_snapshot_id = 8, ip_page = Suc 0, ip_final_page = True, ip_items = [sample_item] \<rparr>]"

theorem snapshot_delivered_in_order_witness:
  "fst (request_inventory 0 8 6 7 5 100 sample_registry) = Inr True
   \<and> fst (collect_all (\<lambda>_. Some 40) (sample_context 3) sample_pages (snd (request_inventory 0 8 6 7 5 100 sample_registry)))
      = Inr (Some (8, [sample_item, sample_item]))"
proof -
  let ?reg = "snd (request_inventory 0 8 6 7 5 100 sample_registry)"
  have id: "sc_worker_id (sample_context 3) = 5" by (simp add: sample_context_def)
  have cur: "current sample_registry (sc_worker_id (sample_context 3)) (sc_fence (sample_context 3))
      = Inr (session_entry_new 0 (sample_context 3) 4)"
    by (simp add: current_def sample_registry_sessions id session_entry_new_def)
  have req: "request_inventory 0 8 6 7 (sc_worker_id (sample_context 3)) 100 sample_registry = (Inr True, ?reg)"
    by (simp add: request_inventory_def id sample_registry_sessions session_entry_new_def lease_is_current_def
        now_millis_def Let_def control_try_send_def registry_config_default_def)
  have cfg: "rg_config ?reg = registry_config_default" "rg_inventory_bytes ?reg = 0"
    by (simp_all add: request_inventory_def sample_registry_sessions session_entry_new_def lease_is_current_def
        now_millis_def Let_def control_try_send_def registry_config_default_def put_session_def set_progress_def
        release_reservation_def)
  have pages: "pages_from 8 0 sample_pages" by (simp add: sample_pages_def)
  have totals: "length sample_pages = 2" "item_total sample_pages = 2" "encoded_total (\<lambda>_. Some 40) sample_pages = 80"
    "replica_total sample_pages = 0" "concat (map ip_items sample_pages) = [sample_item, sample_item]"
    by (simp_all add: sample_pages_def item_total_def encoded_total_def replica_total_def sample_item_def)
  have "fst (request_inventory 0 8 6 7 5 100 sample_registry) = Inr True" using req unfolding id by (metis fst_conv)
  then show ?thesis
    using snapshot_delivered_in_order [OF cur req, of "\<lambda>_. Some 40" sample_pages] pages
    by (simp add: cfg totals registry_config_default_def id)
qed


definition sample_absent :: ensure_absent where
  "sample_absent = \<lparr> ea_command_id = 21, ea_fence = sample_fence, ea_spec_hash = [], ea_timeout_ms = 1000 \<rparr>"

lemma sample_send:
  "registry_send 0 31 5 (EnsureAbsent sample_absent) sample_registry
    = (Inr 31, snd (registry_send 0 31 5 (EnsureAbsent sample_absent) sample_registry))
   \<and> (\<exists>s. map_of (rg_sessions (snd (registry_send 0 31 5 (EnsureAbsent sample_absent) sample_registry))) 5 = Some s
        \<and> se_last_heartbeat_ms s = 0)"
  by (simp add: registry_send_def sample_registry_sessions session_entry_new_def lease_is_current_def now_millis_def
      lifecycle_command_def sample_absent_def track_or_pass_def track_command_def prune_expired_commands_def
      tracker_default_def control_try_send_def registry_config_default_def put_session_def Let_def)


text \<open>
  Opening a stream on a current session asks its lanes in turn, starting one further each time: the
  answer is that of the first lane in this rotation that is neither busy nor gone, every lane is asked
  before the call gives up, and it gives up with \<open>Busy\<close> only if all of them are busy or gone.
\<close>

theorem stream_opened_on_first_willing_lane:
  assumes "current reg (sc_worker_id c) (sc_fence c) = Inr s"
    and "lease_is_current now (rc_heartbeat_lease (rg_config reg)) s" and "se_lanes s \<noteq> []"
  shows "fst (open_stream now answer c reg) =
      (case filter (\<lambda>l. \<not> skippable (answer l)) (rotate (se_next_lane s mod length (se_lanes s)) (map snd (se_lanes s))) of
         [] \<Rightarrow> Inl Busy | l # _ \<Rightarrow> answer l)
    \<and> set (lane_candidates (se_next_lane s) (map snd (se_lanes s))) = snd ` set (se_lanes s)
    \<and> (\<exists>s'. current (snd (open_stream now answer c reg)) (sc_worker_id c) (sc_fence c) = Inr s'
         \<and> se_next_lane s' = (se_next_lane s + 1) mod 2 ^ 64 \<and> se_lanes s' = se_lanes s)"
proof (intro conjI)
  have filter_head: "(case dropWhile P ls of [] \<Rightarrow> Inl Busy | l # _ \<Rightarrow> answer l)
      = (case filter (\<lambda>l. \<not> P l) ls of [] \<Rightarrow> Inl Busy | l # _ \<Rightarrow> answer l)" for P ls
    by (induction ls) auto
  have out: "open_stream now answer c reg =
      (try_lanes answer (lane_candidates (se_next_lane s) (map snd (se_lanes s))),
       put_session (sc_worker_id c) (s \<lparr> se_next_lane := (se_next_lane s + 1) mod 2 ^ 64 \<rparr>) reg)"
    using assms by (simp add: open_stream_def fenced_def Let_def)
  show "fst (open_stream now answer c reg) =
      (case filter (\<lambda>l. \<not> skippable (answer l)) (rotate (se_next_lane s mod length (se_lanes s)) (map snd (se_lanes s))) of
         [] \<Rightarrow> Inl Busy | l # _ \<Rightarrow> answer l)"
    by (simp add: out try_lanes_spec filter_head lane_candidates_rotate)
  show "set (lane_candidates (se_next_lane s) (map snd (se_lanes s))) = snd ` set (se_lanes s)"
    by (simp add: lane_candidates_rotate)
  show "\<exists>s'. current (snd (open_stream now answer c reg)) (sc_worker_id c) (sc_fence c) = Inr s'
         \<and> se_next_lane s' = (se_next_lane s + 1) mod 2 ^ 64 \<and> se_lanes s' = se_lanes s"
    using assms(1) by (simp add: out current_Inr put_session_def)
qed

definition sample_lanes :: worker_registry where
  "sample_lanes = put_session 5 (session_entry_new 0 (sample_context 3) 4 \<lparr> se_lanes := [(0, 41), (1, 42)], se_next_lane := 0 \<rparr>)
     sample_registry"

theorem stream_opened_on_first_willing_lane_witness:
  "current sample_lanes 5 (sc_fence (sample_context 3)) =
     Inr (session_entry_new 0 (sample_context 3) 4 \<lparr> se_lanes := [(0, 41), (1, 42)], se_next_lane := 0 \<rparr>)
   \<and> fst (open_stream 0 (\<lambda>l. if l = 41 then Inl Busy else Inr ()) (sample_context 3) sample_lanes) = Inr ()"
proof -
  let ?s = "session_entry_new 0 (sample_context 3) 4 \<lparr> se_lanes := [(0, 41), (1, 42)], se_next_lane := 0 \<rparr>"
  have id: "sc_worker_id (sample_context 3) = 5" by (simp add: sample_context_def)
  have cur: "current sample_lanes (sc_worker_id (sample_context 3)) (sc_fence (sample_context 3)) = Inr ?s"
    by (simp add: sample_lanes_def current_Inr put_session_def id session_entry_new_def)
  have "lease_is_current 0 (rc_heartbeat_lease (rg_config sample_lanes)) ?s"
    by (simp add: lease_is_current_def now_millis_def)
  from stream_opened_on_first_willing_lane [OF cur this, of "\<lambda>l. if l = 41 then Inl Busy else Inr ()"] cur
  show ?thesis by (simp add: id skippable_def rotate_def)
qed

end
