(* ===== verification/Worker_Listener.thy ===== *)
theory Worker_Listener
  imports Worker_Fencing Control_Admission
begin

text \<open>
  The worker plane's connections, from \<^verbatim>\<open>src/services/worker/listener.rs\<close>: configuration checks, the
  control and data handshakes, the loop that handles one inbound control frame after the other, and
  the cleanup of a session. The durable authority (\<^verbatim>\<open>authority.rs\<close>) is an argument, a record of the
  answers to its calls, and every call made to it is logged; timeouts and connection errors appear
  as \<open>None\<close> or as explicit outcomes.
\<close>

section \<open>Configuration\<close>

record worker_server_config =
  sv_registry :: registry_config
  sv_data :: data_config
  sv_handshake_timeout :: nat
  sv_heartbeat_interval :: nat
  sv_inventory_interval :: nat
  sv_max_concurrent_handshakes :: nat
  sv_max_concurrent_handshakes_per_ip :: nat
  sv_max_inbound_control_messages_per_second :: nat
  sv_inbound_control_message_burst :: nat
  sv_max_inbound_control_bytes_per_second :: nat
  sv_inbound_control_byte_burst :: nat
  sv_shutdown_timeout :: nat

definition server_config_default :: worker_server_config where
  "server_config_default =
    \<lparr> sv_registry = registry_config_default, sv_data = data_config_default,
      sv_handshake_timeout = 10 * 1000000000, sv_heartbeat_interval = 10 * 1000000000,
      sv_inventory_interval = 30 * 1000000000, sv_max_concurrent_handshakes = 128,
      sv_max_concurrent_handshakes_per_ip = 16, sv_max_inbound_control_messages_per_second = 128,
      sv_inbound_control_message_burst = 512, sv_max_inbound_control_bytes_per_second = 2 * 1024 * 1024,
      sv_inbound_control_byte_burst = 20 * 1024 * 1024, sv_shutdown_timeout = 5 * 1000000000 \<rparr>"

abbreviation u16_max :: nat where "u16_max \<equiv> 65535"

definition validate_server_config :: "worker_server_config \<Rightarrow> (worker_error, unit) result" where
  "validate_server_config c =
    (let r = sv_registry c; d = sv_data c
     in if rc_max_workers r = 0
          \<or> rc_max_data_lanes_per_worker r = 0
          \<or> rc_max_data_lanes_per_worker r > u16_max
          \<or> rc_control_queue_capacity r = 0
          \<or> rc_max_in_flight_commands_per_worker r = 0
          \<or> rc_max_in_flight_commands_per_worker r > u16_max
          \<or> rc_max_inventory_items r = 0
          \<or> rc_max_inventory_pages r = 0
          \<or> rc_max_inventory_bytes r = 0
          \<or> rc_max_total_inventory_bytes r = 0
          \<or> rc_max_inventory_bytes r > rc_max_total_inventory_bytes r
          \<or> rc_max_inventory_replicas r = 0
          \<or> sv_max_concurrent_handshakes c = 0
          \<or> sv_max_concurrent_handshakes_per_ip c = 0
          \<or> sv_max_concurrent_handshakes_per_ip c > sv_max_concurrent_handshakes c
          \<or> sv_shutdown_timeout c = 0
          \<or> sv_max_inbound_control_messages_per_second c = 0
          \<or> sv_inbound_control_message_burst c
             < sat_add_u64 (sat_mul_u64 (rc_max_in_flight_commands_per_worker r) 3) (rc_max_inventory_pages r)
          \<or> sv_max_inbound_control_bytes_per_second c = 0
          \<or> sv_inbound_control_byte_burst c < rc_max_inventory_bytes r
          \<or> sv_handshake_timeout c = 0
          \<or> sv_heartbeat_interval c = 0
          \<or> sv_inventory_interval c = 0
          \<or> rc_heartbeat_lease r \<le> sv_heartbeat_interval c
          \<or> dc_max_streams_per_lane d = 0
          \<or> dc_max_streams_per_lane d > u16_max
          \<or> dc_pending_open_capacity d = 0
          \<or> dc_open_timeout d = 0
          \<or> dc_status_timeout d = 0
          \<or> dc_max_connection_receive_window d < 256 * 1024 * dc_max_streams_per_lane d
        then Inl (Protocol ''invalid worker server limits'')
        else Inr ())"

definition duration_millis :: "nat \<Rightarrow> nat" where
  "duration_millis nanos = min (nanos div 1000000) u64_max"

definition usize_to_u16 :: "nat \<Rightarrow> nat" where
  "usize_to_u16 v = min v u16_max"

definition negotiated_data_lane_limit :: "nat \<Rightarrow> nat \<Rightarrow> nat" where
  "negotiated_data_lane_limit configured advertised = min (usize_to_u16 configured) advertised"

section \<open>Checks on inbound messages\<close>

definition validate_envelope :: "session_context \<Rightarrow> control_envelope \<Rightarrow> (worker_error, unit) result" where
  "validate_envelope c e =
    (if env_protocol_revision e \<noteq> PROTOCOL_REVISION then Inl (Protocol ''unsupported protocol revision'')
     else if env_session_epoch e \<noteq> sf_session_epoch (sc_fence c) then Inl StaleSession
     else Inr ())"

definition MAX_INVENTORY_ITEMS :: nat where "MAX_INVENTORY_ITEMS = 512"

fun validate_inbound_shape :: "control_message \<Rightarrow> (worker_error, unit) result" where
  "validate_inbound_shape (RenewCertificate r) =
    (if rc_operation_id r = 0 \<or> rc_csr_pem r = [] \<or> str_len (rc_csr_pem r) > 64 * 1024
     then Inl (Protocol ''invalid certificate renewal request'') else Inr ())"
| "validate_inbound_shape (CertificateRenewed _) =
    Inl (Protocol ''worker sent a server-only certificate response'')"
| "validate_inbound_shape (Heartbeat _) = Inr ()"
| "validate_inbound_shape (CommandAck _) = Inr ()"
| "validate_inbound_shape (CommandResult _) = Inr ()"
| "validate_inbound_shape (InventoryPage page) =
    (if length (ip_items page) > MAX_INVENTORY_ITEMS
        \<or> list_ex (\<lambda>item. length (ii_replicas item) > MAX_WORKLOAD_REPLICAS) (ip_items page)
     then Inl (Protocol ''inventory page exceeds limits'') else Inr ())"
| "validate_inbound_shape (WorkloadStatus status) =
    (if length (wo_replicas status) > MAX_WORKLOAD_REPLICAS
     then Inl (Protocol ''workload status exceeds limits'') else Inr ())"
| "validate_inbound_shape (InventoryRequest _) = Inl (Protocol ''worker sent a server-only control message'')"
| "validate_inbound_shape (EnsureWorkload _) = Inl (Protocol ''worker sent a server-only control message'')"
| "validate_inbound_shape (EnsureAbsent _) = Inl (Protocol ''worker sent a server-only control message'')"
| "validate_inbound_shape (WriteFlag _) = Inl (Protocol ''worker sent a server-only control message'')"

section \<open>The authority and the state of a control connection\<close>

record authenticated_peer =
  ap_worker_id :: uuid
  ap_fingerprint_sha256 :: bytes

datatype authority_call =
    CallBeginSession authenticated_peer worker_hello
  | CallValidateInbound session_context control_message
  | CallHandleInbound session_context control_message
  | CallHandleSnapshot session_context uuid "inventory_item list"
  | CallRenewCertificate session_context renew_certificate
  | CallValidatePeer authenticated_peer
  | CallSessionClosed session_context

text \<open>\<open>None\<close> stands for a call that does not answer within its timeout.\<close>

record authority =
  au_begin_session :: "authenticated_peer \<Rightarrow> worker_hello \<Rightarrow> (worker_error, session_fence) result option"
  au_validate_inbound :: "session_context \<Rightarrow> control_message \<Rightarrow> (worker_error, unit) result"
  au_handle_inbound :: "session_context \<Rightarrow> control_message \<Rightarrow> (worker_error, unit) result"
  au_handle_snapshot :: "session_context \<Rightarrow> uuid \<Rightarrow> inventory_item list \<Rightarrow> (worker_error, control_message list) result"
  au_renew_certificate :: "session_context \<Rightarrow> renew_certificate \<Rightarrow> (worker_error, certificate_renewed) result option"
  au_validate_peer :: "authenticated_peer \<Rightarrow> (worker_error, unit) result option"
  au_supports_renewal :: bool

text \<open>\<open>cl_ids\<close> are the random identifiers still to be drawn and \<open>cl_calls\<close> the calls made, newest first.\<close>

record control_state =
  cl_admission :: control_admission
  cl_registry :: worker_registry
  cl_ids :: "nat \<Rightarrow> uuid"
  cl_drawn :: nat
  cl_calls :: "authority_call list"

type_synonym 'a action = "control_state \<Rightarrow> (worker_error, 'a) result \<times> control_state"

definition act_return :: "'a \<Rightarrow> 'a action" where
  "act_return a st = (Inr a, st)"

definition act_fail :: "worker_error \<Rightarrow> 'a action" where
  "act_fail e st = (Inl e, st)"

definition act_bind :: "'a action \<Rightarrow> ('a \<Rightarrow> 'b action) \<Rightarrow> 'b action" where
  "act_bind m f st = (case m st of (Inl e, st') \<Rightarrow> (Inl e, st') | (Inr a, st') \<Rightarrow> f a st')"

definition act_check :: "(worker_error, 'a) result \<Rightarrow> 'a action" where
  "act_check r st = (r, st)"

definition on_registry :: "(worker_registry \<Rightarrow> (worker_error, 'a) result \<times> worker_registry) \<Rightarrow> 'a action" where
  "on_registry f st = (case f (cl_registry st) of (r, reg) \<Rightarrow> (r, st \<lparr> cl_registry := reg \<rparr>))"

definition ask :: "authority_call \<Rightarrow> (worker_error, 'a) result \<Rightarrow> 'a action" where
  "ask call answer st = (answer, st \<lparr> cl_calls := call # cl_calls st \<rparr>)"

definition draw_id :: "uuid action" where
  "draw_id st = (Inr (cl_ids st (cl_drawn st)), st \<lparr> cl_drawn := Suc (cl_drawn st) \<rparr>)"

definition or_timeout :: "string \<Rightarrow> (worker_error, 'a) result option \<Rightarrow> (worker_error, 'a) result" where
  "or_timeout msg r = (case r of None \<Rightarrow> Inl (Protocol msg) | Some r \<Rightarrow> r)"

section \<open>One inbound control frame\<close>

text \<open>Cleanup commands are sent until the worker's queue is full.\<close>

fun send_cleanup :: "nat \<Rightarrow> session_context \<Rightarrow> control_message list \<Rightarrow> unit action" where
  "send_cleanup now c [] = act_return ()"
| "send_cleanup now c (m # ms) =
    act_bind draw_id (\<lambda>i st.
      case registry_send now i (sc_worker_id c) m (cl_registry st) of
        (Inr _, reg) \<Rightarrow> send_cleanup now c ms (st \<lparr> cl_registry := reg \<rparr>)
      | (Inl e, reg) \<Rightarrow> (if e = Busy then Inr () else Inl e, st \<lparr> cl_registry := reg \<rparr>))"

definition handle_inventory_page ::
  "authority \<Rightarrow> (inventory_item list \<Rightarrow> nat option) \<Rightarrow> nat \<Rightarrow> session_context \<Rightarrow> inventory_page \<Rightarrow> unit action" where
  "handle_inventory_page au enc now c page =
    act_bind (on_registry (collect_inventory enc c page)) (\<lambda>d.
      case d of
        None \<Rightarrow> act_return ()
      | Some (snapshot_id, items) \<Rightarrow>
          act_bind (ask (CallHandleSnapshot c snapshot_id items) (au_handle_snapshot au c snapshot_id items)) (\<lambda>cleanup.
          act_bind (send_cleanup now c cleanup) (\<lambda>_.
          on_registry (complete_inventory c snapshot_id))))"

definition handle_renewal :: "authority \<Rightarrow> session_context \<Rightarrow> renew_certificate \<Rightarrow> unit action" where
  "handle_renewal au c request =
    act_bind (ask (CallRenewCertificate c request)
        (or_timeout ''certificate renewal timed out'' (au_renew_certificate au c request))) (\<lambda>response.
    act_bind draw_id (\<lambda>i.
    on_registry (send_certificate_response i c response)))"

definition handle_inbound :: "authority \<Rightarrow> session_context \<Rightarrow> control_message \<Rightarrow> unit action" where
  "handle_inbound au c m = ask (CallHandleInbound c m) (au_handle_inbound au c m)"

definition dispatch_body ::
  "authority \<Rightarrow> (inventory_item list \<Rightarrow> nat option) \<Rightarrow> nat \<Rightarrow> session_context \<Rightarrow> control_message \<Rightarrow> unit action" where
  "dispatch_body au enc now c body =
    (case body of
       RenewCertificate request \<Rightarrow> handle_renewal au c request
     | InventoryPage page \<Rightarrow> handle_inventory_page au enc now c page
     | WorkloadStatus status \<Rightarrow>
         act_bind (on_registry (observe_workload_status c status)) (\<lambda>_. handle_inbound au c body)
     | _ \<Rightarrow> handle_inbound au c body)"

definition admit_frame :: "nat \<Rightarrow> nat \<Rightarrow> unit action" where
  "admit_frame now payload_bytes st =
    (case try_admit_at payload_bytes now (cl_admission st) of (ok, adm) \<Rightarrow>
       (if ok then Inr () else Inl (Protocol ''inbound worker control quota exceeded''), st \<lparr> cl_admission := adm \<rparr>))"

definition handle_frame ::
  "authority \<Rightarrow> (inventory_item list \<Rightarrow> nat option) \<Rightarrow> nat \<Rightarrow> session_context \<Rightarrow> control_envelope \<Rightarrow> nat \<Rightarrow> unit action" where
  "handle_frame au enc now c envelope payload_bytes =
    act_bind (admit_frame now payload_bytes) (\<lambda>_.
    act_bind (act_check (validate_envelope c envelope)) (\<lambda>_.
    act_bind (act_check (validate_inbound_shape (env_body envelope))) (\<lambda>_.
    act_bind (case env_body envelope of
                Heartbeat _ \<Rightarrow> on_registry (touch now (sc_worker_id c) (sc_fence c))
              | _ \<Rightarrow> act_return ()) (\<lambda>_.
    act_bind (ask (CallValidateInbound c (env_body envelope)) (au_validate_inbound au c (env_body envelope))) (\<lambda>_.
    act_bind (on_registry (handle_command_feedback c envelope)) (\<lambda>failed.
    act_bind (dispatch_body au enc now c (env_body envelope)) (\<lambda>_.
    case failed of None \<Rightarrow> act_return () | Some status \<Rightarrow> handle_inbound au c (WorkloadStatus status))))))))"

section \<open>Session setup and cleanup\<close>

definition close_session :: "session_context \<Rightarrow> unit action" where
  "close_session c st =
    (Inr (), st \<lparr> cl_registry := snd (remove_control_if (sc_worker_id c) (sc_fence c) (cl_registry st)),
                  cl_calls := CallSessionClosed c # cl_calls st \<rparr>)"

definition check_hello :: "authenticated_peer \<Rightarrow> worker_hello \<Rightarrow> (worker_error, unit) result" where
  "check_hello peer hello =
    (if wh_protocol_revision hello \<noteq> PROTOCOL_REVISION then Inl (Protocol ''unsupported protocol revision'')
     else if wh_worker_id hello \<noteq> ap_worker_id peer then Inl Authentication
     else if wc_tcp_proxy (wh_capabilities hello) \<and> wc_max_data_lanes (wh_capabilities hello) = 0
     then Inl (Protocol ''TCP proxy capability requires at least one data lane'')
     else if wc_cpu_millis (wh_capacity hello) = 0 \<or> wc_memory_bytes (wh_capacity hello) = 0
        \<or> wc_slots (wh_capacity hello) = 0 \<or> wc_slots (wh_capacity hello) > MAX_WORKER_SLOTS
     then Inl (Protocol ''worker capacity is zero or exceeds protocol limits'')
     else Inr ())"

definition server_welcome_for :: "worker_server_config \<Rightarrow> authority \<Rightarrow> worker_hello \<Rightarrow> session_fence \<Rightarrow> server_welcome" where
  "server_welcome_for config au hello session =
    \<lparr> sw_protocol_revision = PROTOCOL_REVISION, sw_session = session,
      sw_heartbeat_interval_ms = duration_millis (sv_heartbeat_interval config),
      sw_lease_timeout_ms = duration_millis (rc_heartbeat_lease (sv_registry config)),
      sw_limits = \<lparr> sl_max_control_frame_bytes = MAX_CONTROL_FRAME,
        sl_max_in_flight_commands = usize_to_u16 (rc_max_in_flight_commands_per_worker (sv_registry config)),
        sl_max_data_lanes = negotiated_data_lane_limit (rc_max_data_lanes_per_worker (sv_registry config))
          (wc_max_data_lanes (wh_capabilities hello)),
        sl_max_streams_per_lane = usize_to_u16 (dc_max_streams_per_lane (sv_data config)) \<rparr>,
      sw_certificate_renewal = au_supports_renewal au \<rparr>"

text \<open>
  \<open>write_welcome\<close> is the outcome of writing the welcome frame, \<open>None\<close> if it times out. A failure after
  the session has begun closes it.
\<close>

definition setup_control ::
  "worker_server_config \<Rightarrow> nat \<Rightarrow> (worker_error, unit) result option \<Rightarrow> bool \<Rightarrow> session_context \<Rightarrow> server_welcome
    \<Rightarrow> session_context action" where
  "setup_control config now write_welcome inventory_enabled c welcome =
    act_bind (on_registry (register_authenticated_control now c (sl_max_data_lanes (sw_limits welcome)))) (\<lambda>registration.
    act_bind (act_check (or_timeout ''control welcome timed out'' write_welcome)) (\<lambda>_.
    if inventory_enabled
    then act_bind draw_id (\<lambda>snapshot_id. act_bind draw_id (\<lambda>message_id. act_bind draw_id (\<lambda>command_id.
         act_bind (on_registry (request_inventory now snapshot_id message_id command_id (sc_worker_id c)
             (sv_inventory_interval config * 3))) (\<lambda>_.
         act_return registration))))
    else act_return registration))"

definition prepare_control_session ::
  "worker_server_config \<Rightarrow> nat \<Rightarrow> (worker_error, unit) result option \<Rightarrow> bool \<Rightarrow> session_context \<Rightarrow> server_welcome
    \<Rightarrow> session_context action" where
  "prepare_control_session config now write_welcome inventory_enabled c welcome st =
    (case setup_control config now write_welcome inventory_enabled c welcome st of
       (Inr r, st') \<Rightarrow> (Inr r, st')
     | (Inl e, st') \<Rightarrow> (Inl e, snd (close_session c st')))"

definition begin_control ::
  "worker_server_config \<Rightarrow> authority \<Rightarrow> nat \<Rightarrow> (worker_error, unit) result option \<Rightarrow> authenticated_peer
    \<Rightarrow> worker_hello \<Rightarrow> session_context action" where
  "begin_control config au now write_welcome peer hello =
    act_bind (act_check (check_hello peer hello)) (\<lambda>_.
    act_bind (ask (CallBeginSession peer hello)
        (or_timeout ''begin worker session timed out'' (au_begin_session au peer hello))) (\<lambda>session.
    let c = \<lparr> sc_worker_id = wh_worker_id hello, sc_boot_id = wh_boot_id hello,
              sc_fingerprint_sha256 = ap_fingerprint_sha256 peer, sc_fence = session \<rparr>
    in prepare_control_session config now write_welcome (wc_inventory (wh_capabilities hello)) c
         (server_welcome_for config au hello session)))"

definition begin_data :: "authority \<Rightarrow> nat \<Rightarrow> authenticated_peer \<Rightarrow> data_hello \<Rightarrow> session_context action" where
  "begin_data au now peer hello =
    act_bind (act_check
      (if dh_protocol_revision hello \<noteq> PROTOCOL_REVISION then Inl (Protocol ''unsupported protocol revision'')
       else if dh_worker_id hello \<noteq> ap_worker_id peer then Inl Authentication else Inr ())) (\<lambda>_.
    act_bind (\<lambda>st. (case session_context_of now (dh_worker_id hello) (cl_registry st) of
                      None \<Rightarrow> Inl Offline | Some c \<Rightarrow> Inr c, st)) (\<lambda>c.
    act_bind (act_check
      (if sc_fence c \<noteq> dh_session hello then Inl StaleSession
       else if sc_fingerprint_sha256 c \<noteq> ap_fingerprint_sha256 peer then Inl Authentication else Inr ())) (\<lambda>_.
    act_bind (ask (CallValidatePeer peer)
        (or_timeout ''worker certificate revalidation timed out'' (au_validate_peer au peer))) (\<lambda>_.
    act_return c))))"

section \<open>What an action may call\<close>

text \<open>
  \<open>calls_only P m\<close>: the action \<open>m\<close> adds to the log only calls that satisfy \<open>P\<close>. It composes along
  \<open>act_bind\<close>, so it is checked action by action.
\<close>

definition calls_only :: "(authority_call \<Rightarrow> bool) \<Rightarrow> 'a action \<Rightarrow> bool" where
  "calls_only P m \<longleftrightarrow> (\<forall>st. \<exists>new. cl_calls (snd (m st)) = new @ cl_calls st \<and> (\<forall>x \<in> set new. P x))"

named_theorems calls \<open>introduction rules for the calls of an action\<close>

lemma calls_only_silent: "(\<And>st. cl_calls (snd (m st)) = cl_calls st) \<Longrightarrow> calls_only P m"
  unfolding calls_only_def by (metis append_Nil empty_iff list.set(1))

lemma calls_only_basic [calls]:
  "calls_only P (act_return a)" "calls_only P (act_fail e)" "calls_only P (act_check r)"
  "calls_only P (on_registry f)" "calls_only P draw_id" "calls_only P (admit_frame now n)"
  by (rule calls_only_silent, simp add: act_return_def act_fail_def act_check_def on_registry_def draw_id_def
      admit_frame_def split: prod.splits)+

lemma calls_only_ask [calls]: "P x \<Longrightarrow> calls_only P (ask x r)"
  unfolding calls_only_def ask_def by (intro allI exI [of _ "[x]"]) simp

lemma calls_only_bind [calls]:
  assumes "calls_only P m" "\<And>a. calls_only P (f a)"
  shows "calls_only P (act_bind m f)"
  unfolding calls_only_def
proof
  fix st
  obtain new where new: "cl_calls (snd (m st)) = new @ cl_calls st" "\<forall>x \<in> set new. P x"
    using assms(1) unfolding calls_only_def by blast
  obtain r st1 where m: "m st = (r, st1)" by fastforce
  show "\<exists>new. cl_calls (snd (act_bind m f st)) = new @ cl_calls st \<and> (\<forall>x \<in> set new. P x)"
  proof (cases r)
    case (Inl e)
    then show ?thesis using new m by (auto simp: act_bind_def)
  next
    case (Inr a)
    obtain new' where "cl_calls (snd (f a st1)) = new' @ cl_calls st1" "\<forall>x \<in> set new'. P x"
      using assms(2) [of a] unfolding calls_only_def by blast
    then show ?thesis using new m Inr by (intro exI [of _ "new' @ new"]) (auto simp: act_bind_def)
  qed
qed

lemma calls_only_cleanup [calls]: "calls_only P (send_cleanup now c ms)"
proof (rule calls_only_silent)
  show "cl_calls (snd (send_cleanup now c ms st)) = cl_calls st" for st
    by (induction ms arbitrary: st)
      (auto simp: act_return_def act_bind_def draw_id_def split: prod.splits sum.splits)
qed

lemma calls_only_mono: "calls_only P m \<Longrightarrow> (\<And>x. P x \<Longrightarrow> Q x) \<Longrightarrow> calls_only Q m"
  unfolding calls_only_def by blast

lemma calls_only_case_option [calls]:
  "(\<And>a. x = Some a \<Longrightarrow> calls_only P (f a)) \<Longrightarrow> (x = None \<Longrightarrow> calls_only P m) \<Longrightarrow>
   calls_only P (case x of None \<Rightarrow> m | Some a \<Rightarrow> f a)"
  by (cases x) auto

text \<open>What handling a validated frame may ask of the authority.\<close>

definition consumes :: "session_context \<Rightarrow> control_message \<Rightarrow> authority_call \<Rightarrow> bool" where
  "consumes c body x =
    (case x of
       CallHandleInbound c' m \<Rightarrow> c' = c \<and> m = body
     | CallHandleSnapshot c' _ _ \<Rightarrow> c' = c \<and> (\<exists>page. body = InventoryPage page)
     | CallRenewCertificate c' r \<Rightarrow> c' = c \<and> body = RenewCertificate r
     | _ \<Rightarrow> False)"

lemma dispatch_calls: "calls_only (consumes c body) (dispatch_body au enc now c body)"
  by (cases body) (auto simp: dispatch_body_def handle_renewal_def handle_inventory_page_def handle_inbound_def
      consumes_def intro!: calls split: option.splits)

lemma act_bind_Inr:
  "act_bind m f st = (r, st') \<Longrightarrow> m st = (Inr a, st1) \<Longrightarrow> f a st1 = (r, st')"
  by (simp add: act_bind_def)

text \<open>The part of a frame's handling that follows the authority's consent.\<close>

definition after_consent ::
  "authority \<Rightarrow> (inventory_item list \<Rightarrow> nat option) \<Rightarrow> nat \<Rightarrow> session_context \<Rightarrow> control_envelope \<Rightarrow> unit action" where
  "after_consent au enc now c envelope =
    act_bind (on_registry (handle_command_feedback c envelope)) (\<lambda>failed.
    act_bind (dispatch_body au enc now c (env_body envelope)) (\<lambda>_.
    case failed of None \<Rightarrow> act_return () | Some status \<Rightarrow> handle_inbound au c (WorkloadStatus status)))"

text \<open>A failed status stands for a command of this session that is in flight and that the frame answers.\<close>

definition answers_command :: "worker_registry \<Rightarrow> session_context \<Rightarrow> control_envelope \<Rightarrow> workload_status \<Rightarrow> bool" where
  "answers_command reg c e status \<longleftrightarrow>
     command_feedback (env_body e) \<noteq> None
     \<and> (\<exists>s cmd err. current reg (sc_worker_id c) (sc_fence c) = Inr s
        \<and> map_of (ct_by_id (se_commands s)) (ic_command_id cmd) = Some cmd
        \<and> env_reply_to e = Some (ic_message_id cmd) \<and> status = failed_status cmd err)"

lemma feedback_failed:
  assumes "handle_command_feedback c e reg = (Inr (Some status), reg')"
  shows "\<exists>s id cmd err. current reg (sc_worker_id c) (sc_fence c) = Inr s
     \<and> map_of (ct_by_id (se_commands s)) id = Some cmd
     \<and> env_reply_to e = Some (ic_message_id cmd) \<and> status = failed_status cmd err"
  using assms
  by (auto simp: handle_command_feedback_def fenced_def Let_def split: option.splits sum.splits if_splits) blast+

lemma feedback_answers:
  assumes "registry_inv config reg" "handle_command_feedback c e reg = (Inr (Some status), reg')"
  shows "answers_command reg c e status"
proof -
  obtain s id cmd err where h: "current reg (sc_worker_id c) (sc_fence c) = Inr s"
    "map_of (ct_by_id (se_commands s)) id = Some cmd"
    "env_reply_to e = Some (ic_message_id cmd)" "status = failed_status cmd err"
    using feedback_failed [OF assms(2)] by blast
  have "tracker_ok (rc_max_in_flight_commands_per_worker config) (se_commands s)"
    using registry_invD [OF assms(1), of "sc_worker_id c" s] h(1) by (simp add: current_Inr session_ok_def)
  moreover have "command_feedback (env_body e) \<noteq> None"
    using assms(2) by (auto simp: handle_command_feedback_def split: option.splits)
  ultimately show ?thesis using tracker_okD h(2) h(1,3,4) unfolding answers_command_def by blast
qed

lemma after_consent_calls:
  assumes "registry_inv config (cl_registry st)"
  shows "\<exists>new. cl_calls (snd (after_consent au enc now c e st)) = new @ cl_calls st
    \<and> (\<forall>x \<in> set new. consumes c (env_body e) x
         \<or> (\<exists>status. x = CallHandleInbound c (WorkloadStatus status) \<and> answers_command (cl_registry st) c e status))"
proof -
  obtain f reg1 where fb: "handle_command_feedback c e (cl_registry st) = (f, reg1)" by fastforce
  let ?P = "\<lambda>x. consumes c (env_body e) x
         \<or> (\<exists>status. x = CallHandleInbound c (WorkloadStatus status) \<and> answers_command (cl_registry st) c e status)"
  show ?thesis
  proof (cases f)
    case (Inl err)
    then show ?thesis using fb by (auto simp: after_consent_def act_bind_def on_registry_def)
  next
    case (Inr failed)
    let ?rest = "act_bind (dispatch_body au enc now c (env_body e)) (\<lambda>_.
      case failed of None \<Rightarrow> act_return () | Some status \<Rightarrow> handle_inbound au c (WorkloadStatus status))"
    have "answers_command (cl_registry st) c e status" if "failed = Some status" for status
      using feedback_answers [OF assms] fb Inr that by simp
    then have "calls_only ?P ?rest"
      by (auto simp: handle_inbound_def intro!: calls calls_only_mono [OF dispatch_calls])
    moreover have "after_consent au enc now c e st = ?rest (st \<lparr> cl_registry := reg1 \<rparr>)"
      using fb Inr by (simp add: after_consent_def act_bind_def on_registry_def)
    ultimately show ?thesis unfolding calls_only_def by (metis (no_types, lifting) control_state.select_convs(5) control_state.surjective control_state.update_convs(2))
  qed
qed

definition heartbeat_touch :: "nat \<Rightarrow> session_context \<Rightarrow> control_message \<Rightarrow> unit action" where
  "heartbeat_touch now c body =
    (case body of Heartbeat _ \<Rightarrow> on_registry (touch now (sc_worker_id c) (sc_fence c)) | _ \<Rightarrow> act_return ())"

lemma heartbeat_touch_effect:
  assumes "heartbeat_touch now c body st = (r, st1)"
  shows "cl_calls st1 = cl_calls st"
    and "registry_inv config (cl_registry st) \<Longrightarrow> registry_inv config (cl_registry st1)"
    and "command_feedback body \<noteq> None \<Longrightarrow> cl_registry st1 = cl_registry st"
  using assms touch_op.keeps_inv [of config "cl_registry st" now c]
  by (cases body; auto simp: heartbeat_touch_def on_registry_def act_return_def split: prod.splits)+

lemma handle_frame_valid:
  assumes "fst (try_admit_at n now (cl_admission st))" "validate_envelope c e = Inr ()"
    "validate_inbound_shape (env_body e) = Inr ()"
  shows "handle_frame au enc now c e n st =
    act_bind (heartbeat_touch now c (env_body e)) (\<lambda>_.
    act_bind (ask (CallValidateInbound c (env_body e)) (au_validate_inbound au c (env_body e))) (\<lambda>_.
    after_consent au enc now c e)) (snd (admit_frame now n st))"
  using assms
  by (cases "try_admit_at n now (cl_admission st)")
    (simp add: handle_frame_def act_bind_def [of "admit_frame now n"] admit_frame_def act_check_def heartbeat_touch_def
      after_consent_def act_bind_def [of "act_check _"])

lemma handle_frame_invalid:
  assumes "\<not> (fst (try_admit_at n now (cl_admission st)) \<and> validate_envelope c e = Inr ()
    \<and> validate_inbound_shape (env_body e) = Inr ())"
  shows "\<exists>err. handle_frame au enc now c e n st = (Inl err, snd (admit_frame now n st))"
  using assms
  by (cases "validate_envelope c e"; cases "validate_inbound_shape (env_body e)")
    (auto simp: handle_frame_def act_bind_def [of "admit_frame now n"] admit_frame_def act_check_def
      act_bind_def [of "act_check _"] split: prod.splits)

lemma admit_frame_effect: "cl_registry (snd (admit_frame now n st)) = cl_registry st"
  "cl_calls (snd (admit_frame now n st)) = cl_calls st"
  by (simp_all add: admit_frame_def split: prod.splits)

section \<open>Main results\<close>


definition sample_authority :: authority where
  "sample_authority =
    \<lparr> au_begin_session = (\<lambda>_ _. None), au_validate_inbound = (\<lambda>_ _. Inl Authorization),
      au_handle_inbound = (\<lambda>_ _. Inr ()), au_handle_snapshot = (\<lambda>_ _ _. Inr []),
      au_renew_certificate = (\<lambda>_ _. None), au_validate_peer = (\<lambda>_. Some (Inr ())), au_supports_renewal = False \<rparr>"

definition sample_envelope :: control_envelope where
  "sample_envelope = envelope_new 51 3 (EnsureAbsent sample_absent)"

definition sample_state :: control_state where
  "sample_state = \<lparr> cl_admission = control_admission_new_at 2 2 10 10 0, cl_registry = sample_registry,
     cl_ids = (\<lambda>n. 100 + n), cl_drawn = 0, cl_calls = [] \<rparr>"

lemma sample_state_registry: "cl_registry sample_state = sample_registry" "cl_calls sample_state = []"
  by (simp_all add: sample_state_def)


text \<open>What setting up a session does to the registry.\<close>

lemma register_effect:
  assumes "register_authenticated_control now c lanes reg = (r, reg')"
  shows "v \<noteq> sc_worker_id c \<Longrightarrow> map_of (rg_sessions reg') v = map_of (rg_sessions reg) v"
    and "\<not> is_ok r \<Longrightarrow> reg' = reg"
    and "r = Inr c' \<Longrightarrow> c' = c \<and> (\<exists>s. current reg' (sc_worker_id c) (sc_fence c) = Inr s \<and> se_context s = c)"
  using assms
  by (auto simp: register_authenticated_control_def Let_def put_session_def stop_entry_def current_Inr
      session_entry_new_def split: option.splits if_splits)

lemma remove_effect:
  assumes "remove_control_if w fence reg = (b, reg')"
  shows "v \<noteq> w \<Longrightarrow> map_of (rg_sessions reg') v = map_of (rg_sessions reg) v"
    and "current reg' w fence \<noteq> Inr s"
    and "current reg w fence = Inl e \<Longrightarrow> reg' = reg"
  using assms
  by (auto simp: remove_control_if_def remove_entry_def stop_entry_def current_def split: option.splits if_splits)

lemma setup_control_effect:
  assumes inv: "registry_inv config (cl_registry st)"
    and run: "setup_control cfg now ww inventory c welcome st = (r, st')"
  shows "cl_calls st' = cl_calls st"
    and "v \<noteq> sc_worker_id c \<Longrightarrow> map_of (rg_sessions (cl_registry st')) v = map_of (rg_sessions (cl_registry st)) v"
    and "r = Inr c' \<Longrightarrow> c' = c \<and> (\<exists>s. current (cl_registry st') (sc_worker_id c) (sc_fence c) = Inr s \<and> se_context s = c)"
    and "\<not> is_ok (fst (register_authenticated_control now c (sl_max_data_lanes (sw_limits welcome)) (cl_registry st)))
         \<Longrightarrow> cl_registry st' = cl_registry st"
proof -
  obtain r0 reg1 where reg: "register_authenticated_control now c (sl_max_data_lanes (sw_limits welcome)) (cl_registry st) = (r0, reg1)"
    by fastforce
  have inv1: "registry_inv config reg1" using register_inv [OF inv] reg by (metis snd_conv)
  have later: "cl_calls st' = cl_calls st \<and> local_update (sc_worker_id c) reg1 (cl_registry st')"
    using run reg request_inventory_effect(2) [OF inv1]
    unfolding setup_control_def
    by (auto simp: act_bind_def on_registry_def act_check_def draw_id_def act_return_def
        split: sum.splits if_splits prod.splits) (metis snd_conv)+
  show "cl_calls st' = cl_calls st" using later by simp
  show "map_of (rg_sessions (cl_registry st')) v = map_of (rg_sessions (cl_registry st)) v" if "v \<noteq> sc_worker_id c"
    using register_effect(1) [OF reg that] local_update_context(2) [OF conjunct2 [OF later] that] by simp
  show "cl_registry st' = cl_registry st"
    if refused: "\<not> is_ok (fst (register_authenticated_control now c (sl_max_data_lanes (sw_limits welcome)) (cl_registry st)))"
  proof -
    from refused reg obtain e where "r0 = Inl e" by (cases r0) auto
    then show ?thesis using register_effect(2) [OF reg] run reg
      by (auto simp: setup_control_def act_bind_def on_registry_def)
  qed
  show "c' = c \<and> (\<exists>s. current (cl_registry st') (sc_worker_id c) (sc_fence c) = Inr s \<and> se_context s = c)" if "r = Inr c'"
  proof -
    have r0: "r0 = Inr c'"
      using run reg that unfolding setup_control_def
      by (cases r0) (auto simp: act_bind_def on_registry_def act_check_def draw_id_def act_return_def
          split: sum.splits if_splits prod.splits)
    from register_effect(3) [OF reg this] obtain s where s: "c' = c" "current reg1 (sc_worker_id c) (sc_fence c) = Inr s"
      "se_context s = c" by blast
    have "map_option se_context (map_of (rg_sessions (cl_registry st')) (sc_worker_id c)) = Some c"
      using local_update_context(1) [OF conjunct2 [OF later], of "sc_worker_id c"] s by (simp add: current_Inr)
    then show ?thesis using s(1) by (auto simp: current_Inr)
  qed
qed


definition sample_welcome :: server_welcome where
  "sample_welcome =
    \<lparr> sw_protocol_revision = PROTOCOL_REVISION, sw_session = sc_fence (sample_context 4),
      sw_heartbeat_interval_ms = 10000, sw_lease_timeout_ms = 30000,
      sw_limits = \<lparr> sl_max_control_frame_bytes = MAX_CONTROL_FRAME, sl_max_in_flight_commands = 64,
        sl_max_data_lanes = 4, sl_max_streams_per_lane = 64 \<rparr>,
      sw_certificate_renewal = False \<rparr>"


text \<open>
  C25. A data connection is attached only to a live session of the same identity: the worker named in its
  hello is the one the certificate authenticated, the registry holds a session of that worker whose lease
  is current, with exactly the fence and the certificate of the connection, and the authority has just
  confirmed the certificate. The registry is not changed by the check.
\<close>

theorem data_lane_bound_to_live_session:
  assumes "begin_data au now peer hello st = (Inr c, st')"
  shows "dh_worker_id hello = ap_worker_id peer
    \<and> (\<exists>s. map_of (rg_sessions (cl_registry st)) (ap_worker_id peer) = Some s
         \<and> current (cl_registry st) (ap_worker_id peer) (dh_session hello) = Inr s
         \<and> se_context s = c \<and> sc_fingerprint_sha256 c = ap_fingerprint_sha256 peer
         \<and> lease_is_current now (rc_heartbeat_lease (rg_config (cl_registry st))) s)
    \<and> au_validate_peer au peer = Some (Inr ())
    \<and> cl_registry st' = cl_registry st \<and> cl_calls st' = CallValidatePeer peer # cl_calls st"
  using assms
  by (auto simp: begin_data_def act_bind_def act_check_def ask_def act_return_def or_timeout_def session_context_of_def
      current_Inr split: if_splits option.splits sum.splits)

definition sample_peer :: authenticated_peer where
  "sample_peer = \<lparr> ap_worker_id = 5, ap_fingerprint_sha256 = [] \<rparr>"

definition sample_data_hello :: data_hello where
  "sample_data_hello = data_hello_new 5 (sc_fence (sample_context 3)) 0"

theorem data_lane_bound_to_live_session_witness:
  "begin_data sample_authority 9 sample_peer sample_data_hello sample_state
     = (Inr (sample_context 3), snd (begin_data sample_authority 9 sample_peer sample_data_hello sample_state))
   \<and> (\<exists>s. current sample_registry 5 (sc_fence (sample_context 3)) = Inr s \<and> se_context s = sample_context 3)"
proof -
  have ok: "begin_data sample_authority 9 sample_peer sample_data_hello sample_state
     = (Inr (sample_context 3), snd (begin_data sample_authority 9 sample_peer sample_data_hello sample_state))"
    by (simp add: begin_data_def act_bind_def act_check_def ask_def act_return_def or_timeout_def session_context_of_def
        sample_data_hello_def data_hello_new_def sample_peer_def sample_state_registry sample_registry_sessions
        session_entry_new_def lease_is_current_def now_millis_def sample_authority_def sample_context_def
        registry_config_default_def)
  from data_lane_bound_to_live_session [OF ok] ok show ?thesis
    by (auto simp: sample_peer_def sample_data_hello_def data_hello_new_def sample_state_registry)
qed

end
