(* ===== verification/Vpn_Network.thy ===== *)
theory Vpn_Network
  imports Rsctf_Prelude
begin

text \<open>
  The address plan of the attack-and-defence VPN, from \<^verbatim>\<open>src/services/ad/vpn/mod.rs\<close> and
  \<^verbatim>\<open>src/services/ad/vpn/allocation.rs\<close>: checking the configured networks, which peer and target
  addresses the policy may name, and the allocation of one address to a participation. CIDR
  networks are values of the crate \<open>ipnet\<close>; its operations are a record of functions, and what the
  code relies on is the locale \<open>cidr_networks\<close>.
\<close>

section \<open>Addresses\<close>

type_synonym ipv4 = "32 word"

text \<open>\<open>Display\<close> and \<open>FromStr\<close> of \<open>Ipv4Addr\<close>.\<close>

definition octet :: "nat \<Rightarrow> ipv4 \<Rightarrow> nat" where
  "octet i a = unat a div 256 ^ i mod 256"

definition show_ipv4 :: "ipv4 \<Rightarrow> ustr" where
  "show_ipv4 a = dec_digits (octet 3 a) @ 46 # dec_digits (octet 2 a) @ 46 # dec_digits (octet 1 a)
                 @ 46 # dec_digits (octet 0 a)"

definition parse_octet :: "ustr \<Rightarrow> nat option" where
  "parse_octet s =
    (if s \<noteq> [] \<and> length s \<le> 3 \<and> list_all ascii_digit s \<and> (hd s = 48 \<longrightarrow> length s = 1) \<and> decimal_value s \<le> 255
     then Some (decimal_value s) else None)"

definition parse_ipv4 :: "ustr \<Rightarrow> ipv4 option" where
  "parse_ipv4 s =
    (case map parse_octet (str_split 46 s) of
       [Some a, Some b, Some c, Some d] \<Rightarrow> Some (word_of_nat (((a * 256 + b) * 256 + c) * 256 + d))
     | _ \<Rightarrow> None)"

text \<open>\<open>u32::saturating_add(1)\<close> on an address.\<close>

definition sat_succ :: "ipv4 \<Rightarrow> ipv4" where
  "sat_succ a = (if a = - 1 then a else a + 1)"

section \<open>Networks\<close>

datatype 'n any_net = NetV4 'n | NetV6

record 'n ipnet =
  ip_parse :: "ustr \<Rightarrow> 'n any_net option"
  ip_parse_v4 :: "ustr \<Rightarrow> 'n option"
  ip_trunc :: "'n \<Rightarrow> 'n"
  ip_network :: "'n \<Rightarrow> ipv4"
  ip_broadcast :: "'n \<Rightarrow> ipv4"
  ip_prefix_len :: "'n \<Rightarrow> nat"
  ip_contains :: "'n \<Rightarrow> ipv4 \<Rightarrow> bool"
  ip_show :: "'n \<Rightarrow> ustr"

datatype vpn_error =
    NotIpv4Cidr string
  | InvalidCidr string ustr
  | ClientCidrTooSmall
  | CidrOverlap ustr ustr
  | NoServiceCidr
  | HubNotIpv4
  | HubNotFirstAddress ipv4
  | IngressNotIpv4
  | IngressNotUsable
  | KubernetesCidrMissing
  | VpnNeedsLocalBackend
  | VpnNeedsIsolatedPod
  | BackendInitializedTwice
  | BackendNotInitialized

definition parse_ipv4_network :: "'n ipnet \<Rightarrow> ustr \<Rightarrow> string \<Rightarrow> (vpn_error, 'n) result" where
  "parse_ipv4_network N value label =
    (case ip_parse N value of
       Some (NetV4 network) \<Rightarrow> Inr (ip_trunc N network)
     | Some NetV6 \<Rightarrow> Inl (NotIpv4Cidr label)
     | None \<Rightarrow> Inl (InvalidCidr label value))"

definition add_service_network ::
  "'n ipnet \<Rightarrow> 'n \<Rightarrow> 'n list \<Rightarrow> ustr \<Rightarrow> (vpn_error, 'n list) result" where
  "add_service_network N client services value =
    rbind (parse_ipv4_network N value ''A&D service CIDR'') (\<lambda>service.
      if ip_contains N client (ip_network N service) \<or> ip_contains N service (ip_network N client)
      then Inl (CidrOverlap (ip_show N client) (ip_show N service))
      else Inr (push_new services service))"

definition validate_vpn_networks ::
  "'n ipnet \<Rightarrow> ustr \<Rightarrow> ustr list \<Rightarrow> (vpn_error, 'n \<times> 'n list) result" where
  "validate_vpn_networks N client_text service_cidrs =
    rbind (parse_ipv4_network N client_text ''VPN client CIDR'') (\<lambda>client.
      if ip_prefix_len N client > 30 then Inl ClientCidrTooSmall
      else rbind (try_fold (add_service_network N client) [] service_cidrs) (\<lambda>services.
             if services = [] then Inl NoServiceCidr else Inr (client, services)))"

section \<open>Peers and targets\<close>

definition hub_of :: "'n ipnet \<Rightarrow> 'n \<Rightarrow> ipv4" where
  "hub_of N network = sat_succ (ip_network N network)"

definition client_host :: "'n ipnet \<Rightarrow> 'n \<Rightarrow> ipv4 \<Rightarrow> bool" where
  "client_host N client address \<longleftrightarrow>
    ip_contains N client address \<and> address \<noteq> ip_network N client \<and> address \<noteq> ip_broadcast N client
    \<and> address \<noteq> hub_of N client"

definition peer_address_allowed :: "'n ipnet \<Rightarrow> ustr \<Rightarrow> 'n \<Rightarrow> 'n list \<Rightarrow> bool" where
  "peer_address_allowed N address client services =
    (case parse_ipv4 address of
       None \<Rightarrow> False
     | Some address \<Rightarrow> client_host N client address \<and> list_all (\<lambda>service. \<not> ip_contains N service address) services)"

record vpn_target =
  vt_address :: ipv4
  vt_port :: nat

definition service_host :: "'n ipnet \<Rightarrow> ipv4 \<Rightarrow> 'n \<Rightarrow> bool" where
  "service_host N address network \<longleftrightarrow>
    (let first_address = (if ip_prefix_len N network = 32 then ip_network N network else sat_succ (ip_network N network))
     in ip_contains N network address \<and> address \<noteq> ip_network N network \<and> address \<noteq> ip_broadcast N network
        \<and> address \<noteq> first_address)"

definition port_u16 :: "int \<Rightarrow> nat option" where
  "port_u16 port = (if 0 < port \<and> port \<le> 65535 then Some (nat port) else None)"

definition make_vpn_target :: "'n ipnet \<Rightarrow> ustr \<Rightarrow> int \<Rightarrow> 'n \<Rightarrow> 'n list \<Rightarrow> vpn_target option" where
  "make_vpn_target N address port client service_networks =
    (case parse_ipv4 address of
       None \<Rightarrow> None
     | Some address \<Rightarrow>
         (case port_u16 port of
            None \<Rightarrow> None
          | Some port \<Rightarrow>
              if client_host N client address \<or> list_ex (service_host N address) service_networks
              then Some \<lparr> vt_address = address, vt_port = port \<rparr> else None))"

section \<open>Allocation\<close>

function probe_address :: "ipv4 \<Rightarrow> nat \<Rightarrow> nat \<Rightarrow> ipv4 set \<Rightarrow> nat \<Rightarrow> ipv4 option" where
  "probe_address network start usable used offset =
    (if offset < usable then
       let index = 2 + (start + offset) mod usable
       in if unat network + index \<le> u32_max then
            let address = word_of_nat (unat network + index)
            in if address \<notin> used then Some address else probe_address network start usable used (offset + 1)
          else None
     else None)"
  by pat_completeness auto
termination probe_address
  by (relation "measure (\<lambda>(_, _, usable, _, offset). usable - offset)") auto

declare probe_address.simps [simp del]

definition assign_available_ip :: "'n ipnet \<Rightarrow> ustr \<Rightarrow> int \<Rightarrow> ipv4 set \<Rightarrow> ustr option" where
  "assign_available_ip N cidr participation_id used =
    (case parse_ipv4_network N cidr ''VPN client CIDR'' of
       Inl _ \<Rightarrow> None
     | Inr network \<Rightarrow>
         if ip_prefix_len N network > 30 then None
         else let host_count = 2 ^ (32 - ip_prefix_len N network)
              in if host_count < 3 \<or> host_count - 3 = 0 then None
                 else let usable = host_count - 3;
                          start = nat \<bar>participation_id\<bar> mod usable
                      in map_option show_ipv4 (probe_address (ip_network N network) start usable used 0))"

section \<open>Configuration from the environment\<close>

datatype container_backend_kind = BackendNone | BackendDocker | BackendKubernetes | BackendWorker

type_synonym environment = "string \<Rightarrow> ustr option"

definition canonical_env_ipv4_cidr :: "'n ipnet \<Rightarrow> environment \<Rightarrow> string \<Rightarrow> string \<Rightarrow> ustr" where
  "canonical_env_ipv4_cidr N env name fallback =
    (let value = (case env name of Some value \<Rightarrow> value | None \<Rightarrow> lit fallback)
     in case ip_parse_v4 N value of Some network \<Rightarrow> ip_show N (ip_trunc N network) | None \<Rightarrow> value)"

definition client_cidr :: "'n ipnet \<Rightarrow> environment \<Rightarrow> ustr" where
  "client_cidr N env = canonical_env_ipv4_cidr N env ''RSCTF_AD_VPN_CLIENT_CIDR'' ''10.13.37.0/24''"

definition services_cidr :: "'n ipnet \<Rightarrow> environment \<Rightarrow> ustr" where
  "services_cidr N env = canonical_env_ipv4_cidr N env ''RSCTF_AD_VPN_SERVICES_CIDR'' ''10.13.40.0/24''"

text \<open>\<open>std::env::var(name).ok()\<close>, trimmed and dropped when empty.\<close>

definition trimmed_env :: "environment \<Rightarrow> string \<Rightarrow> ustr option" where
  "trimmed_env env name =
    (case env name of None \<Rightarrow> None | Some value \<Rightarrow> if str_trim value = [] then None else Some (str_trim value))"

definition kubernetes_services_cidr :: "'n ipnet \<Rightarrow> environment \<Rightarrow> ustr option" where
  "kubernetes_services_cidr N env =
    map_option (\<lambda>value. case ip_parse_v4 N value of Some network \<Rightarrow> ip_show N (ip_trunc N network) | None \<Rightarrow> value)
      (trimmed_env env ''RSCTF_K8S_AD_SERVICE_CIDR'')"

definition to_ascii_lowercase :: "ustr \<Rightarrow> ustr" where
  "to_ascii_lowercase = map (\<lambda>c. if ascii_upper c then c + 32 else c)"

definition truthy_env :: "environment \<Rightarrow> string \<Rightarrow> bool" where
  "truthy_env env name =
    (case env name of None \<Rightarrow> False
     | Some value \<Rightarrow> to_ascii_lowercase (str_trim value) \<in> {lit ''1'', lit ''true'', lit ''yes''})"

definition flag_env :: "environment \<Rightarrow> string \<Rightarrow> bool" where
  "flag_env env name =
    (case env name of None \<Rightarrow> False | Some value \<Rightarrow> value \<in> {lit ''1'', lit ''true'', lit ''yes''})"

abbreviation vpn_enabled :: "environment \<Rightarrow> bool" where
  "vpn_enabled env \<equiv> flag_env env ''RSCTF_AD_VPN_ENABLED''"

record vpn_backend_config =
  vb_kind :: container_backend_kind
  vb_service_cidrs :: "ustr list"
  vb_guard_service_interfaces :: bool
  vb_same_origin_ingress :: "ipv4 option"

record same_origin_access =
  so_dns :: ipv4
  so_ingress :: ipv4

definition validate_same_origin_hub :: "'n ipnet \<Rightarrow> ustr option \<Rightarrow> ustr \<Rightarrow> (vpn_error, unit) result" where
  "validate_same_origin_hub N value client_text =
    (case value of
       None \<Rightarrow> Inr ()
     | Some value \<Rightarrow>
         (case parse_ipv4 value of
            None \<Rightarrow> Inl HubNotIpv4
          | Some address \<Rightarrow>
              rbind (parse_ipv4_network N client_text ''VPN client CIDR'') (\<lambda>client.
                if address \<noteq> hub_of N client then Inl (HubNotFirstAddress (hub_of N client)) else Inr ())))"

definition usable_ingress :: "'n ipnet \<Rightarrow> ipv4 \<Rightarrow> ustr \<Rightarrow> bool" where
  "usable_ingress N address value =
    (case ip_parse_v4 N value of
       None \<Rightarrow> False
     | Some network \<Rightarrow> ip_contains N network address \<and> address \<noteq> ip_network N network
                        \<and> address \<noteq> ip_broadcast N network \<and> address \<noteq> sat_succ (ip_network N network))"

definition parse_same_origin_ingress ::
  "'n ipnet \<Rightarrow> ustr option \<Rightarrow> ustr list \<Rightarrow> (vpn_error, ipv4 option) result" where
  "parse_same_origin_ingress N value service_cidrs =
    (case value of
       None \<Rightarrow> Inr None
     | Some value \<Rightarrow>
         (case parse_ipv4 value of
            None \<Rightarrow> Inl IngressNotIpv4
          | Some address \<Rightarrow>
              if list_ex (usable_ingress N address) service_cidrs then Inr (Some address) else Inl IngressNotUsable))"

definition same_origin_ingress_from_env ::
  "'n ipnet \<Rightarrow> environment \<Rightarrow> ustr list \<Rightarrow> (vpn_error, ipv4 option) result" where
  "same_origin_ingress_from_env N env service_cidrs =
    rbind (parse_same_origin_ingress N (trimmed_env env ''RSCTF_EVENT_VPN_INGRESS_IP'') service_cidrs) (\<lambda>ingress.
      if ingress \<noteq> None
      then rbind (validate_same_origin_hub N (trimmed_env env ''RSCTF_EVENT_VPN_HUB_ADDRESS'') (client_cidr N env))
             (\<lambda>_. Inr ingress)
      else Inr ingress)"

definition validate_kubernetes_service_routes :: "vpn_backend_config \<Rightarrow> (vpn_error, unit) result" where
  "validate_kubernetes_service_routes config =
    (if vb_kind config = BackendKubernetes \<and> vb_service_cidrs config = [] then Inl KubernetesCidrMissing else Inr ())"

definition backend_config_for ::
  "'n ipnet \<Rightarrow> environment \<Rightarrow> container_backend_kind \<Rightarrow> (vpn_error, vpn_backend_config) result" where
  "backend_config_for N env kind =
    (let service_cidrs =
           (case kind of
              BackendDocker \<Rightarrow> [services_cidr N env]
            | BackendKubernetes \<Rightarrow> (case kubernetes_services_cidr N env of None \<Rightarrow> [] | Some cidr \<Rightarrow> [cidr])
            | _ \<Rightarrow> [])
     in rbind (same_origin_ingress_from_env N env service_cidrs) (\<lambda>ingress.
          let config = \<lparr> vb_kind = kind, vb_service_cidrs = service_cidrs,
                         vb_guard_service_interfaces = (kind = BackendDocker), vb_same_origin_ingress = ingress \<rparr>
          in rbind (validate_kubernetes_service_routes config) (\<lambda>_.
               if vpn_enabled env then
                 (case kind of
                    BackendKubernetes \<Rightarrow>
                      if truthy_env env ''RSCTF_K8S_HOST_NETWORK'' \<or> \<not> truthy_env env ''RSCTF_K8S_ISOLATED_POD_NETNS''
                      then Inl VpnNeedsIsolatedPod else Inr config
                  | BackendDocker \<Rightarrow> Inr config
                  | _ \<Rightarrow> Inl VpnNeedsLocalBackend)
               else Inr config)))"

text \<open>The write-once cell that freezes the configuration at startup.\<close>

definition initialize_backend ::
  "'n ipnet \<Rightarrow> environment \<Rightarrow> container_backend_kind \<Rightarrow> vpn_backend_config option
    \<Rightarrow> (vpn_error, unit) result \<times> vpn_backend_config option" where
  "initialize_backend N env kind cell =
    (case backend_config_for N env kind of
       Inl e \<Rightarrow> (Inl e, cell)
     | Inr config \<Rightarrow>
         (case cell of
            Some existing \<Rightarrow> (if existing = config then Inr () else Inl BackendInitializedTwice, cell)
          | None \<Rightarrow> (Inr (), Some config)))"

definition backend_config :: "vpn_backend_config option \<Rightarrow> (vpn_error, vpn_backend_config) result" where
  "backend_config cell = (case cell of None \<Rightarrow> Inl BackendNotInitialized | Some config \<Rightarrow> Inr config)"

definition hub_address :: "'n ipnet \<Rightarrow> environment \<Rightarrow> ustr" where
  "hub_address N env =
    (case parse_ipv4_network N (client_cidr N env) ''VPN client CIDR'' of
       Inr network \<Rightarrow> show_ipv4 (hub_of N network)
     | Inl _ \<Rightarrow> lit ''10.13.37.1'')"

definition get_same_origin_access ::
  "'n ipnet \<Rightarrow> environment \<Rightarrow> vpn_backend_config option \<Rightarrow> (vpn_error, same_origin_access option) result" where
  "get_same_origin_access N env cell =
    rbind (backend_config cell) (\<lambda>config.
      case vb_same_origin_ingress config of
        None \<Rightarrow> Inr None
      | Some ingress \<Rightarrow>
          (case parse_ipv4 (hub_address N env) of
             None \<Rightarrow> Inl HubNotIpv4
           | Some dns \<Rightarrow> Inr (Some \<lparr> so_dns = dns, so_ingress = ingress \<rparr>)))"

section \<open>Addresses print and parse\<close>

lemma octet_less [simp]: "octet i a < 256"
  by (simp add: octet_def)

lemma octet_digits: "c \<in> set (dec_digits (octet i a)) \<Longrightarrow> c \<noteq> 46"
  using dec_digits_ascii [of c "octet i a"] by (auto simp: ascii_digit_def)

lemma parse_octet_dec_digits: "n < 256 \<Longrightarrow> parse_octet (dec_digits n) = Some n"
proof -
  assume n: "n < 256"
  then have "length (dec_digits n) \<le> 3" by (intro dec_digits_length) auto
  moreover have "hd (dec_digits n) = 48 \<longrightarrow> length (dec_digits n) = 1"
    by (simp add: dec_digits_leading_zero) (simp add: dec_digits.simps)
  ultimately show ?thesis
    using n by (auto simp: parse_octet_def list_all_iff dec_digits_ascii)
qed

lemma unat_octets: "((octet 3 a * 256 + octet 2 a) * 256 + octet 1 a) * 256 + octet 0 a = unat a"
proof -
  have "unat a < 2 ^ 32" using unsigned_less [of a] by simp
  then have "unat a div 256 ^ 3 mod 256 = unat a div 256 ^ 3" by (simp add: less_mult_imp_div_less)
  moreover have "unat a div 256 ^ 3 = unat a div 256 div 256 div 256" by (simp add: div_mult2_eq)
  moreover have "unat a div 256 ^ 2 = unat a div 256 div 256" by (simp add: div_mult2_eq power2_eq_square)
  ultimately show ?thesis unfolding octet_def by (simp add: div_mult_mod_eq)
qed

lemma parse_show_ipv4 [simp]: "parse_ipv4 (show_ipv4 a) = Some a"
proof -
  have free: "46 \<notin> set (dec_digits (octet i a))" for i using octet_digits by blast
  have "str_split 46 (show_ipv4 a) =
      [dec_digits (octet 3 a), dec_digits (octet 2 a), dec_digits (octet 1 a), dec_digits (octet 0 a)]"
    unfolding show_ipv4_def by (simp add: str_split_cons str_split_free free)
  then show ?thesis
    unfolding parse_ipv4_def
    by (simp only: list.map parse_octet_dec_digits octet_less list.case option.case unat_octets) simp
qed

lemma show_ipv4_inject [simp]: "show_ipv4 a = show_ipv4 b \<longleftrightarrow> a = b"
  by (metis option.inject parse_show_ipv4)

lemma show_ipv4_chars: "c \<in> set (show_ipv4 a) \<Longrightarrow> ascii_digit c \<or> c = 46"
  by (auto simp: show_ipv4_def dec_digits_ascii)

lemma unat_sat_succ: "a \<noteq> - 1 \<Longrightarrow> unat (sat_succ a) = unat a + 1"
proof -
  assume "a \<noteq> - 1"
  then have "a + 1 \<noteq> 0" by (metis add.inverse_unique add.commute)
  then have "unat (a + 1) = Suc (unat a)" by (metis unatSuc add.commute)
  then show ?thesis using \<open>a \<noteq> - 1\<close> by (simp add: sat_succ_def)
qed

section \<open>The contract of the network type\<close>

text \<open>The addresses of a network.\<close>

definition net_hosts :: "'n ipnet \<Rightarrow> 'n \<Rightarrow> ipv4 set" where
  "net_hosts N n = {a. ip_contains N n a}"

locale cidr_networks =
  fixes N :: "'n ipnet"
  assumes prefix_le: "ip_prefix_len N n \<le> 32"
    and network_aligned: "2 ^ (32 - ip_prefix_len N n) dvd unat (ip_network N n)"
    and broadcast_last: "unat (ip_broadcast N n) = unat (ip_network N n) + (2 ^ (32 - ip_prefix_len N n) - 1)"
    and contains_range: "ip_contains N n a \<longleftrightarrow> ip_network N n \<le> a \<and> a \<le> ip_broadcast N n"
    and trunc_same: "ip_prefix_len N (ip_trunc N n) = ip_prefix_len N n"
      "ip_network N (ip_trunc N n) = ip_network N n" "ip_broadcast N (ip_trunc N n) = ip_broadcast N n"
begin

lemma network_in: "ip_contains N n (ip_network N n)"
proof -
  have "(1 :: nat) \<le> 2 ^ (32 - ip_prefix_len N n)" by simp
  then have "unat (ip_network N n) \<le> unat (ip_broadcast N n)" unfolding broadcast_last by linarith
  then show ?thesis by (simp add: contains_range word_le_nat_alt)
qed

lemma overlap_iff:
  "ip_contains N m (ip_network N n) \<or> ip_contains N n (ip_network N m) \<longleftrightarrow> net_hosts N m \<inter> net_hosts N n \<noteq> {}"
proof
  assume "ip_contains N m (ip_network N n) \<or> ip_contains N n (ip_network N m)"
  then show "net_hosts N m \<inter> net_hosts N n \<noteq> {}" using network_in [of m] network_in [of n] by (auto simp: net_hosts_def)
next
  assume "net_hosts N m \<inter> net_hosts N n \<noteq> {}"
  then obtain a where "ip_contains N m a" "ip_contains N n a" by (auto simp: net_hosts_def)
  then show "ip_contains N m (ip_network N n) \<or> ip_contains N n (ip_network N m)"
    unfolding contains_range using linear [of "ip_network N m" "ip_network N n"] by auto
qed

lemma client_host_offset:
  assumes "ip_prefix_len N n \<le> 30"
  shows "client_host N n a \<longleftrightarrow>
    (\<exists>i. 2 \<le> i \<and> i < 2 ^ (32 - ip_prefix_len N n) - 1 \<and> unat a = unat (ip_network N n) + i)"
proof -
  let ?h = "2 ^ (32 - ip_prefix_len N n) :: nat"
  have "(2::nat) ^ 2 \<le> ?h" using assms by (intro power_increasing) auto
  then have h: "4 \<le> ?h" by simp
  have b: "unat (ip_broadcast N n) = unat (ip_network N n) + (?h - 1)" by (rule broadcast_last)
  have "unat (ip_network N n) < unat (ip_broadcast N n)" using b h by linarith
  then have "ip_network N n < ip_broadcast N n" by (simp add: word_less_nat_alt)
  then have "ip_network N n \<noteq> - 1" by (metis word_order.extremum_strict)
  then have hub: "unat (hub_of N n) = unat (ip_network N n) + 1"
    by (simp add: hub_of_def unat_sat_succ)
  have eq: "a = c \<longleftrightarrow> unat a = unat c" for c by (simp add: word_unat_eq_iff)
  show ?thesis
    unfolding client_host_def contains_range eq word_le_nat_alt b hub
  proof
    assume *: "(unat (ip_network N n) \<le> unat a \<and> unat a \<le> unat (ip_network N n) + (?h - 1))
      \<and> unat a \<noteq> unat (ip_network N n) \<and> unat a \<noteq> unat (ip_network N n) + (?h - 1)
      \<and> unat a \<noteq> unat (ip_network N n) + 1"
    then show "\<exists>i. 2 \<le> i \<and> i < ?h - 1 \<and> unat a = unat (ip_network N n) + i"
      by (intro exI [of _ "unat a - unat (ip_network N n)"]) linarith
  next
    assume "\<exists>i. 2 \<le> i \<and> i < ?h - 1 \<and> unat a = unat (ip_network N n) + i"
    then show "(unat (ip_network N n) \<le> unat a \<and> unat a \<le> unat (ip_network N n) + (?h - 1))
      \<and> unat a \<noteq> unat (ip_network N n) \<and> unat a \<noteq> unat (ip_network N n) + (?h - 1)
      \<and> unat a \<noteq> unat (ip_network N n) + 1"
      by auto
  qed
qed

lemma add_services_exact:
  "try_fold (add_service_network N client) acc cidrs = Inr services \<longleftrightarrow>
    (\<exists>parsed. map (\<lambda>s. parse_ipv4_network N s ''A&D service CIDR'') cidrs = map Inr parsed
       \<and> (\<forall>s \<in> set parsed. net_hosts N client \<inter> net_hosts N s = {})
       \<and> services = foldl push_new acc parsed)"
proof (induction cidrs arbitrary: acc)
  case Nil
  then show ?case by auto
next
  case (Cons c cs)
  show ?case
  proof (cases "parse_ipv4_network N c ''A&D service CIDR''")
    case (Inl e)
    then show ?thesis by (auto simp: add_service_network_def Cons_eq_map_conv)
  next
    case (Inr n)
    have step: "add_service_network N client acc c =
        (if net_hosts N client \<inter> net_hosts N n \<noteq> {} then Inl (CidrOverlap (ip_show N client) (ip_show N n))
         else Inr (push_new acc n))"
      by (simp add: add_service_network_def Inr overlap_iff)
    have split: "map (\<lambda>s. parse_ipv4_network N s ''A&D service CIDR'') (c # cs) = map Inr parsed \<longleftrightarrow>
        (\<exists>ps. parsed = n # ps \<and> map (\<lambda>s. parse_ipv4_network N s ''A&D service CIDR'') cs = map Inr ps)" for parsed
      by (cases parsed) (auto simp: Inr)
    show ?thesis
    proof (cases "net_hosts N client \<inter> net_hosts N n = {}")
      case True
      then have "try_fold (add_service_network N client) acc (c # cs)
          = try_fold (add_service_network N client) (push_new acc n) cs" by (simp add: step)
      then show ?thesis unfolding split using True by (auto simp: Cons)
    next
      case False
      then show ?thesis unfolding split by (auto simp: step)
    qed
  qed
qed

lemma probe_no_overflow:
  assumes "i < 2 ^ (32 - ip_prefix_len N n)"
  shows "unat (ip_network N n) + i \<le> u32_max"
proof -
  have "unat (ip_broadcast N n) < 2 ^ 32" using unsigned_less [of "ip_broadcast N n"] by simp
  then show ?thesis using broadcast_last [of n] assms by simp
qed

end

text \<open>Probing visits every index of the pool before it gives up.\<close>

lemma probe_address_spec:
  fixes network :: ipv4 and start usable :: nat
  assumes "\<And>j. j < usable \<Longrightarrow> unat network + (2 + j) \<le> u32_max"
  defines "addr j \<equiv> word_of_nat (unat network + (2 + (start + j) mod usable)) :: ipv4"
  shows "case probe_address network start usable used k of
           Some a \<Rightarrow> a \<notin> used \<and> (\<exists>j. k \<le> j \<and> j < usable \<and> a = addr j)
         | None \<Rightarrow> \<forall>j. k \<le> j \<longrightarrow> j < usable \<longrightarrow> addr j \<in> used"
proof (induction "usable - k" arbitrary: k rule: less_induct)
  case less
  show ?case
  proof (cases "k < usable")
    case True
    then have "(start + k) mod usable < usable" by simp
    then have fits: "unat network + (2 + (start + k) mod usable) \<le> u32_max" by (rule assms(1))
    show ?thesis
    proof (cases "addr k \<in> used")
      case used: True
      then have eq: "probe_address network start usable used k = probe_address network start usable used (k + 1)"
        using True fits by (subst probe_address.simps) (simp add: addr_def Let_def)
      have "usable - (k + 1) < usable - k" using True by simp
      then have IH: "case probe_address network start usable used (k + 1) of
           Some a \<Rightarrow> a \<notin> used \<and> (\<exists>j. k + 1 \<le> j \<and> j < usable \<and> a = addr j)
         | None \<Rightarrow> \<forall>j. k + 1 \<le> j \<longrightarrow> j < usable \<longrightarrow> addr j \<in> used" by (rule less)
      show ?thesis
      proof (cases "probe_address network start usable used (k + 1)")
        case None
        then have "addr j \<in> used" if "k \<le> j" "j < usable" for j
          using that IH used by (cases "j = k") auto
        then show ?thesis using None eq by simp
      next
        case (Some a)
        then show ?thesis using IH eq by (auto intro: Suc_leD)
      qed
    next
      case False
      then have "probe_address network start usable used k = Some (addr k)"
        using True fits by (subst probe_address.simps) (simp add: addr_def Let_def)
      then show ?thesis using False True by auto
    qed
  next
    case False
    then show ?thesis by (subst probe_address.simps) auto
  qed
qed

lemma residues_covered:
  assumes "i < (u :: nat)"
  obtains j where "j < u" and "(s + j) mod u = i"
proof
  let ?j = "(i + (u - s mod u)) mod u"
  show "?j < u" using assms by simp
  have "(s + ?j) mod u = (s mod u + (i + (u - s mod u))) mod u"
    by (simp add: mod_add_left_eq mod_add_right_eq)
  also have "s mod u + (i + (u - s mod u)) = i + u" using assms mod_less_divisor [of u s] by linarith
  finally show "(s + ?j) mod u = i" using assms by simp
qed

context cidr_networks
begin

lemma client_hosts_probed:
  assumes "ip_prefix_len N n \<le> 30"
  defines "usable \<equiv> 2 ^ (32 - ip_prefix_len N n) - 3"
  shows "{a. client_host N n a}
    = (\<lambda>j. word_of_nat (unat (ip_network N n) + (2 + (start + j) mod usable))) ` {..<usable}" (is "_ = ?A ` _")
proof -
  have "(2::nat) ^ 2 \<le> 2 ^ (32 - ip_prefix_len N n)" using assms(1) by (intro power_increasing) auto
  then have u: "0 < usable" and bound: "i < 2 ^ (32 - ip_prefix_len N n) - 1 \<longleftrightarrow> i < usable + 2" for i
    unfolding usable_def by auto
  have unat_A: "unat (word_of_nat (unat (ip_network N n) + (2 + i)) :: ipv4) = unat (ip_network N n) + (2 + i)"
    if "i < usable" for i
  proof -
    have "2 + i < 2 ^ (32 - ip_prefix_len N n)" using that unfolding usable_def by linarith
    from probe_no_overflow [OF this] show ?thesis by (intro of_nat_inverse [OF refl]) simp
  qed
  show ?thesis
  proof (intro equalityI subsetI)
    fix a assume "a \<in> {a. client_host N n a}"
    then obtain i where i: "2 \<le> i" "i < usable + 2" "unat a = unat (ip_network N n) + i"
      using client_host_offset [OF assms(1)] bound by auto
    then have "i - 2 < usable" by linarith
    then obtain j where "j < usable" "(start + j) mod usable = i - 2" by (rule residues_covered)
    moreover have "word_of_nat (unat (ip_network N n) + i) = a"
      unfolding i(3) [symmetric] by simp
    ultimately show "a \<in> ?A ` {..<usable}" using i(1) by (intro image_eqI [of _ _ j]) auto
  next
    fix a assume "a \<in> ?A ` {..<usable}"
    then obtain j where a: "a = ?A j" by auto
    have lt: "(start + j) mod usable < usable" using u by simp
    then have "unat a = unat (ip_network N n) + (2 + (start + j) mod usable)" unfolding a by (rule unat_A)
    then show "a \<in> {a. client_host N n a}"
      using lt client_host_offset [OF assms(1)] bound by auto
  qed
qed

lemma assign_available_ip_spec:
  assumes "parse_ipv4_network N cidr ''VPN client CIDR'' = Inr n" and "ip_prefix_len N n \<le> 30"
  shows "case assign_available_ip N cidr pid used of
           Some s \<Rightarrow> \<exists>a. s = show_ipv4 a \<and> a \<notin> used \<and> client_host N n a
         | None \<Rightarrow> \<forall>a. client_host N n a \<longrightarrow> a \<in> used"
proof -
  define usable where "usable = (2::nat) ^ (32 - ip_prefix_len N n) - 3"
  define start where "start = nat \<bar>pid\<bar> mod usable"
  have "(2::nat) ^ 2 \<le> 2 ^ (32 - ip_prefix_len N n)" using assms(2) by (intro power_increasing) auto
  then have u: "\<not> (2::nat) ^ (32 - ip_prefix_len N n) < 3" "usable \<noteq> 0" unfolding usable_def by auto
  have eq: "assign_available_ip N cidr pid used
      = map_option show_ipv4 (probe_address (ip_network N n) start usable used 0)"
    using assms u unfolding assign_available_ip_def usable_def start_def by (simp add: Let_def)
  have "unat (ip_network N n) + (2 + j) \<le> u32_max" if "j < usable" for j
    using that by (intro probe_no_overflow) (simp add: usable_def)
  note probe = probe_address_spec [where usable = usable and network = "ip_network N n" and start = start
      and used = used and k = 0, OF this]
  then
  show ?thesis
    unfolding eq using client_hosts_probed [OF assms(2), of start, folded usable_def]
    by (auto split: option.splits simp: set_eq_iff image_iff)
qed

end

section \<open>CIDR blocks\<close>

text \<open>
  A network as an address and the length of its prefix, read as the documentation of \<open>ipnet\<close>
  describes it: the low bits cleared give the network address, set they give the broadcast address.
\<close>

definition cidr_size :: "nat \<Rightarrow> nat" where
  "cidr_size p = 2 ^ (32 - min p 32)"

definition cidr_first :: "ipv4 \<times> nat \<Rightarrow> ipv4" where
  "cidr_first n = word_of_nat (unat (fst n) div cidr_size (snd n) * cidr_size (snd n))"

definition cidr_last :: "ipv4 \<times> nat \<Rightarrow> ipv4" where
  "cidr_last n = word_of_nat (unat (fst n) div cidr_size (snd n) * cidr_size (snd n) + (cidr_size (snd n) - 1))"

definition cidr_parse :: "ustr \<Rightarrow> (ipv4 \<times> nat) option" where
  "cidr_parse s =
    (case str_split 47 s of
       [a, p] \<Rightarrow> (case parse_ipv4 a of
                   None \<Rightarrow> None
                 | Some a \<Rightarrow> if p \<noteq> [] \<and> length p \<le> 2 \<and> list_all ascii_digit p \<and> decimal_value p \<le> 32
                             then Some (a, decimal_value p) else None)
     | _ \<Rightarrow> None)"

definition cidr_blocks :: "(ipv4 \<times> nat) ipnet" where
  "cidr_blocks =
    \<lparr> ip_parse = (\<lambda>s. map_option NetV4 (cidr_parse s)), ip_parse_v4 = cidr_parse,
      ip_trunc = (\<lambda>n. (cidr_first n, snd n)), ip_network = cidr_first, ip_broadcast = cidr_last,
      ip_prefix_len = (\<lambda>n. min (snd n) 32), ip_contains = (\<lambda>n a. cidr_first n \<le> a \<and> a \<le> cidr_last n),
      ip_show = (\<lambda>n. show_ipv4 (fst n) @ 47 # dec_digits (snd n)) \<rparr>"

lemma cidr_block_fits: "unat (a :: ipv4) div cidr_size p * cidr_size p + (cidr_size p - 1) < 2 ^ 32"
proof -
  define k where "k = 32 - min p 32"
  have split: "(2 :: nat) ^ 32 = 2 ^ (32 - k) * 2 ^ k"
    by (simp add: k_def flip: power_add)
  have "unat a < 2 ^ 32" using unsigned_less [of a] by simp
  then have "unat a div 2 ^ k < 2 ^ (32 - k)"
    unfolding split by (rule less_mult_imp_div_less)
  then have "(unat a div 2 ^ k + 1) * 2 ^ k \<le> 2 ^ (32 - k) * 2 ^ k"
    by (intro mult_le_mono1) simp
  moreover have "(0 :: nat) < 2 ^ k" by simp
  ultimately show ?thesis unfolding split cidr_size_def k_def [symmetric] add_mult_distrib by linarith
qed

lemma unat_cidr_first: "unat (cidr_first n) = unat (fst n) div cidr_size (snd n) * cidr_size (snd n)"
  unfolding cidr_first_def using cidr_block_fits [of "fst n" "snd n"] by (intro of_nat_inverse [OF refl]) simp

lemma unat_cidr_last: "unat (cidr_last n) = unat (cidr_first n) + (cidr_size (snd n) - 1)"
  unfolding cidr_last_def unat_cidr_first using cidr_block_fits [of "fst n" "snd n"]
  by (intro of_nat_inverse [OF refl]) simp

interpretation blocks: cidr_networks cidr_blocks
proof unfold_locales
  fix n :: "ipv4 \<times> nat" and a :: ipv4
  have trunc: "cidr_first (cidr_first n, snd n) = cidr_first n"
    by (simp add: word_unat_eq_iff unat_cidr_first cidr_size_def)
  show "ip_prefix_len cidr_blocks n \<le> 32" by (simp add: cidr_blocks_def)
  show "2 ^ (32 - ip_prefix_len cidr_blocks n) dvd unat (ip_network cidr_blocks n)"
    by (simp add: cidr_blocks_def unat_cidr_first cidr_size_def)
  show "unat (ip_broadcast cidr_blocks n)
      = unat (ip_network cidr_blocks n) + (2 ^ (32 - ip_prefix_len cidr_blocks n) - 1)"
    by (simp add: cidr_blocks_def unat_cidr_last cidr_size_def)
  show "ip_contains cidr_blocks n a \<longleftrightarrow> ip_network cidr_blocks n \<le> a \<and> a \<le> ip_broadcast cidr_blocks n"
    by (simp add: cidr_blocks_def)
  show "ip_prefix_len cidr_blocks (ip_trunc cidr_blocks n) = ip_prefix_len cidr_blocks n"
    "ip_network cidr_blocks (ip_trunc cidr_blocks n) = ip_network cidr_blocks n"
    by (simp_all add: cidr_blocks_def trunc)
  show "ip_broadcast cidr_blocks (ip_trunc cidr_blocks n) = ip_broadcast cidr_blocks n"
    using trunc by (simp add: cidr_blocks_def word_unat_eq_iff unat_cidr_last)
qed

section \<open>What the plan guarantees\<close>

lemma validate_vpn_networks_exact:
  assumes "cidr_networks N"
  shows "validate_vpn_networks N client_text cidrs = Inr (client, services) \<longleftrightarrow>
    parse_ipv4_network N client_text ''VPN client CIDR'' = Inr client \<and> ip_prefix_len N client \<le> 30 \<and> services \<noteq> []
    \<and> (\<exists>parsed. map (\<lambda>s. parse_ipv4_network N s ''A&D service CIDR'') cidrs = map Inr parsed
        \<and> (\<forall>s \<in> set parsed. net_hosts N client \<inter> net_hosts N s = {})
        \<and> services = foldl push_new [] parsed)"
  unfolding validate_vpn_networks_def rbind_eq_Inr if_error_eq_Inr
    cidr_networks.add_services_exact [OF assms] by auto

lemma validated_networks_disjoint:
  assumes "cidr_networks N" and "validate_vpn_networks N client_text cidrs = Inr (client, services)"
  shows "\<forall>s \<in> set services. net_hosts N client \<inter> net_hosts N s = {}" and "distinct services"
    and "parse_ipv4_network N client_text ''VPN client CIDR'' = Inr client" and "ip_prefix_len N client \<le> 30"
proof -
  from assms(2) obtain parsed where p: "\<forall>s \<in> set parsed. net_hosts N client \<inter> net_hosts N s = {}"
    and s: "services = foldl push_new [] parsed"
    and rest: "parse_ipv4_network N client_text ''VPN client CIDR'' = Inr client" "ip_prefix_len N client \<le> 30"
    unfolding validate_vpn_networks_exact [OF assms(1)] by auto
  show "\<forall>s \<in> set services. net_hosts N client \<inter> net_hosts N s = {}"
    using p unfolding s by simp
  show "distinct services" unfolding s by (rule distinct_foldl_push_new) simp
  show "parse_ipv4_network N client_text ''VPN client CIDR'' = Inr client" "ip_prefix_len N client \<le> 30"
    using rest by auto
qed

text \<open>
  C14. Address allocation of the VPN. With networks that passed validation, an allocated address is
  printed in dotted form, is not in use, and passes the peer filter: it is a host of the client
  network other than the network, hub and broadcast addresses, and it lies in no service network.
  Allocation fails only when every such host of the client network is in use.
\<close>

theorem allocated_address_free_and_allowed:
  assumes "cidr_networks N" and "validate_vpn_networks N cidr cidrs = Inr (client, services)"
  shows "case assign_available_ip N cidr participation_id used of
           Some text \<Rightarrow> (\<exists>a. text = show_ipv4 a \<and> parse_ipv4 text = Some a \<and> a \<notin> used)
                     \<and> peer_address_allowed N text client services
         | None \<Rightarrow> {a. client_host N client a} \<subseteq> used"
proof -
  note disjoint = validated_networks_disjoint [OF assms]
  have allowed: "peer_address_allowed N (show_ipv4 a) client services" if "client_host N client a" for a
    using that disjoint(1)
    by (auto simp: peer_address_allowed_def client_host_def list_all_iff net_hosts_def)
  show ?thesis
    using cidr_networks.assign_available_ip_spec [OF assms(1) disjoint(3,4), of used participation_id] allowed
    by (auto split: option.splits)
qed

lemma sample_networks:
  "validate_vpn_networks cidr_blocks (lit ''10.13.0.7/19'') [lit ''10.13.40.99/24'', lit ''10.13.40.0/24'']
    = Inr ((168624128, 19), [(168634368, 24)])"
  by (simp add: validate_vpn_networks_def add_service_network_def parse_ipv4_network_def cidr_blocks_def
      cidr_parse_def lit_def parse_ipv4_def parse_octet_def ascii_digit_def decimal_value_def
      cidr_first_def cidr_last_def cidr_size_def push_new_def)

theorem allocated_address_free_and_allowed_witness:
  "case assign_available_ip cidr_blocks (lit ''10.13.0.7/19'') 3 {168624133} of
     Some text \<Rightarrow> (\<exists>a. text = show_ipv4 a \<and> parse_ipv4 text = Some a \<and> a \<notin> {168624133})
               \<and> peer_address_allowed cidr_blocks text (168624128, 19) [(168634368, 24)]
   | None \<Rightarrow> {a. client_host cidr_blocks (168624128, 19) a} \<subseteq> {168624133}"
  by (rule allocated_address_free_and_allowed [OF blocks.cidr_networks_axioms sample_networks])

end
