(* ===== verification/Vpn_Policy.thy ===== *)
theory Vpn_Policy
  imports Vpn_Network "HOL-Library.AList" "HOL-Library.Product_Lexorder"
begin

text \<open>
  From database rows to the per-game network policy of the VPN, from
  \<^verbatim>\<open>src/services/ad/vpn/reconcile.rs\<close> and \<^verbatim>\<open>src/services/ad/vpn/cooldown.rs\<close>: building the policies,
  validating the champion cooldowns, and the quarantine that covers a change of policy. The rows the
  queries return are arguments.
\<close>

section \<open>Policies\<close>

record cooldown_block =
  cb_peer :: ipv4
  cb_target :: vpn_target

record game_vpn_policy =
  gp_game_id :: int
  gp_peers :: "ipv4 list"
  gp_targets :: "vpn_target list"
  gp_cooldown_blocks :: "cooldown_block list"

record desired_peer =
  dp_stable_id :: ustr
  dp_game_id :: int
  dp_participation_id :: int
  dp_public_key :: ustr
  dp_address :: ustr

type_synonym policy_table = "(int \<times> game_vpn_policy) list"

definition empty_policy :: "int \<Rightarrow> game_vpn_policy" where
  "empty_policy game_id = \<lparr> gp_game_id = game_id, gp_peers = [], gp_targets = [], gp_cooldown_blocks = [] \<rparr>"

definition policy_add_peer :: "policy_table \<Rightarrow> desired_peer \<Rightarrow> policy_table" where
  "policy_add_peer policies peer =
    (case parse_ipv4 (dp_address peer) of
       None \<Rightarrow> policies
     | Some address \<Rightarrow>
         let p = (case map_of policies (dp_game_id peer) of Some p \<Rightarrow> p | None \<Rightarrow> empty_policy (dp_game_id peer))
         in AList.update (dp_game_id peer) (p \<lparr> gp_peers := gp_peers p @ [address] \<rparr>) policies)"

definition policy_add_endpoint ::
  "'n ipnet \<Rightarrow> 'n \<Rightarrow> 'n list \<Rightarrow> policy_table \<Rightarrow> int \<times> ustr \<times> int \<Rightarrow> policy_table" where
  "policy_add_endpoint N client_network service_networks policies endpoint =
    (case endpoint of (game_id, host, port) \<Rightarrow>
       case map_of policies game_id of
         None \<Rightarrow> policies
       | Some policy \<Rightarrow>
           (case make_vpn_target N host port client_network service_networks of
              None \<Rightarrow> policies
            | Some target \<Rightarrow>
                if ip_contains N client_network (vt_address target) \<and> vt_address target \<notin> set (gp_peers policy)
                then policies
                else if target \<in> set (gp_targets policy) then policies
                else AList.update game_id (policy \<lparr> gp_targets := gp_targets policy @ [target] \<rparr>) policies))"

definition policy_add_block :: "policy_table \<Rightarrow> int \<times> cooldown_block \<Rightarrow> policy_table" where
  "policy_add_block policies required =
    (case required of (game_id, block) \<Rightarrow>
       case map_of policies game_id of
         None \<Rightarrow> policies
       | Some policy \<Rightarrow>
           if block \<in> set (gp_cooldown_blocks policy) then policies
           else AList.update game_id
                  (policy \<lparr> gp_cooldown_blocks := gp_cooldown_blocks policy @ [block] \<rparr>) policies)"

definition policy_sorted :: "game_vpn_policy \<Rightarrow> game_vpn_policy" where
  "policy_sorted policy = policy \<lparr>
     gp_peers := remdups_adj (sort (gp_peers policy)),
     gp_targets := sort_key (\<lambda>target. (vt_address target, vt_port target)) (gp_targets policy),
     gp_cooldown_blocks :=
       sort_key (\<lambda>block. (cb_peer block, vt_address (cb_target block), vt_port (cb_target block)))
         (gp_cooldown_blocks policy) \<rparr>"

text \<open>A \<open>BTreeMap\<close> is a table of distinct keys whose values are listed by ascending key.\<close>

definition load_policies ::
  "'n ipnet \<Rightarrow> desired_peer list \<Rightarrow> (int \<times> ustr \<times> int) list \<Rightarrow> (int \<times> cooldown_block) list \<Rightarrow> 'n \<Rightarrow> 'n list
    \<Rightarrow> game_vpn_policy list" where
  "load_policies N peers endpoints blocks client_network service_networks =
    (let policies = foldl policy_add_peer [] peers;
         policies = foldl (policy_add_endpoint N client_network service_networks) policies endpoints;
         policies = foldl policy_add_block policies blocks
     in map policy_sorted (map snd (sort_key fst policies)))"

section \<open>Champion cooldowns\<close>

record raw_cooldown_block =
  rb_cycle_id :: int
  rb_participation_id :: int
  rb_game_id :: int
  rb_peer :: "ustr option"
  rb_host :: "ustr option"
  rb_port :: "int option"
  rb_container_id :: "ustr option"
  rb_replacement_container_id :: "ustr option"

record required_cooldown_block =
  rq_cycle_id :: int
  rq_participation_id :: int
  rq_game_id :: int
  rq_block :: cooldown_block

datatype cooldown_error =
    NoActivePeer int int
  | InvalidPeerAddress int int
  | NotReplacementContainer int
  | NoTargetAddress int
  | TargetOutsideVpn int

definition validate_required_block ::
  "'n ipnet \<Rightarrow> 'n \<Rightarrow> 'n list \<Rightarrow> raw_cooldown_block \<Rightarrow> (cooldown_error, required_cooldown_block) result" where
  "validate_required_block N client_network service_networks row =
    (case rb_peer row of
       None \<Rightarrow> Inl (NoActivePeer (rb_participation_id row) (rb_cycle_id row))
     | Some peer_text \<Rightarrow>
         (case (if peer_address_allowed N peer_text client_network service_networks
                then parse_ipv4 peer_text else None) of
            None \<Rightarrow> Inl (InvalidPeerAddress (rb_participation_id row) (rb_cycle_id row))
          | Some peer \<Rightarrow>
              if rb_container_id row \<noteq> rb_replacement_container_id row
                 \<or> rb_container_id row = None \<or> rb_container_id row = Some []
              then Inl (NotReplacementContainer (rb_cycle_id row))
              else (case rb_host row of
                      None \<Rightarrow> Inl (NoTargetAddress (rb_cycle_id row))
                    | Some host \<Rightarrow>
                        (case Option.bind (rb_port row)
                                (\<lambda>port. make_vpn_target N host port client_network service_networks) of
                           None \<Rightarrow> Inl (TargetOutsideVpn (rb_cycle_id row))
                         | Some target \<Rightarrow>
                             Inr \<lparr> rq_cycle_id = rb_cycle_id row, rq_participation_id = rb_participation_id row,
                                   rq_game_id = rb_game_id row,
                                   rq_block = \<lparr> cb_peer = peer, cb_target = target \<rparr> \<rparr>))))"

definition validate_required_blocks ::
  "'n ipnet \<Rightarrow> 'n \<Rightarrow> 'n list \<Rightarrow> raw_cooldown_block list \<Rightarrow> (cooldown_error, required_cooldown_block list) result" where
  "validate_required_blocks N client_network service_networks rows =
    try_fold (\<lambda>blocks row.
      map_sum id (\<lambda>b. blocks @ [b]) (validate_required_block N client_network service_networks row)) [] rows"

definition load_active_blocks :: "required_cooldown_block list \<Rightarrow> (int \<times> cooldown_block) list" where
  "load_active_blocks required = map (\<lambda>r. (rq_game_id r, rq_block r)) required"

section \<open>Changes of the applied state\<close>

record applied_peer =
  ap_game_id :: int
  ap_public_key :: ustr
  ap_address :: ipv4

record applied_state =
  as_fingerprint :: bytes
  as_hub_identity :: bytes
  as_peers :: "applied_peer list"
  as_policies :: "game_vpn_policy list"

definition policy_of :: "int \<Rightarrow> game_vpn_policy list \<Rightarrow> game_vpn_policy option" where
  "policy_of game_id policies = find (\<lambda>policy. gp_game_id policy = game_id) policies"

definition contains_required_cooldowns :: "applied_state \<Rightarrow> required_cooldown_block list \<Rightarrow> bool" where
  "contains_required_cooldowns state required =
    list_all (\<lambda>r.
      list_ex (\<lambda>peer. ap_game_id peer = rq_game_id r \<and> ap_address peer = cb_peer (rq_block r)) (as_peers state)
      \<and> list_ex (\<lambda>policy. gp_game_id policy = rq_game_id r \<and> cb_peer (rq_block r) \<in> set (gp_peers policy)
                        \<and> cb_target (rq_block r) \<in> set (gp_targets policy)
                        \<and> rq_block r \<in> set (gp_cooldown_blocks policy)) (as_policies state)) required"

record transition_quarantine =
  tq_peers :: "ipv4 list"
  tq_blocks :: "cooldown_block list"

definition quarantined_peers :: "applied_state \<Rightarrow> applied_state \<Rightarrow> ipv4 list" where
  "quarantined_peers previous desired =
    concat (map (\<lambda>peer. if peer \<in> set (as_peers desired) then [] else [ap_address peer]) (as_peers previous))
    @ concat (map (\<lambda>old. case policy_of (gp_game_id old) (as_policies desired) of
                           None \<Rightarrow> gp_peers old
                         | Some new \<Rightarrow> filter (\<lambda>peer. peer \<notin> set (gp_peers new)) (gp_peers old))
              (as_policies previous))"

definition quarantined_blocks :: "applied_state \<Rightarrow> applied_state \<Rightarrow> (ipv4 \<times> ipv4 \<times> nat) list" where
  "quarantined_blocks previous desired =
    concat (map (\<lambda>old. case policy_of (gp_game_id old) (as_policies desired) of
                         None \<Rightarrow> []
                       | Some new \<Rightarrow>
                           concat (map (\<lambda>target. map (\<lambda>peer. (peer, vt_address target, vt_port target)) (gp_peers old))
                             (filter (\<lambda>target. target \<notin> set (gp_targets new)) (gp_targets old))))
              (as_policies previous))
    @ concat (map (\<lambda>new.
        concat (map (\<lambda>block.
          case policy_of (gp_game_id new) (as_policies previous) of
            None \<Rightarrow> [(cb_peer block, vt_address (cb_target block), vt_port (cb_target block))]
          | Some old \<Rightarrow> if block \<in> set (gp_cooldown_blocks old) then []
                        else [(cb_peer block, vt_address (cb_target block), vt_port (cb_target block))])
          (gp_cooldown_blocks new))) (as_policies desired))"

text \<open>The two \<open>BTreeSet\<close>s are read out in ascending order.\<close>

definition make_transition_quarantine :: "applied_state \<Rightarrow> applied_state \<Rightarrow> transition_quarantine" where
  "make_transition_quarantine previous desired =
    \<lparr> tq_peers = remdups (sort (quarantined_peers previous desired)),
      tq_blocks = map (\<lambda>(peer, address, port). \<lparr> cb_peer = peer, cb_target = \<lparr> vt_address = address, vt_port = port \<rparr> \<rparr>)
        (remdups (sort (quarantined_blocks previous desired))) \<rparr>"

definition tq_is_empty :: "transition_quarantine \<Rightarrow> bool" where
  "tq_is_empty q \<longleftrightarrow> tq_peers q = [] \<and> tq_blocks q = []"

section \<open>What the policies contain\<close>

text \<open>The addresses, targets and blocks the rows give to a game.\<close>

definition peers_of :: "int \<Rightarrow> desired_peer list \<Rightarrow> ipv4 list" where
  "peers_of game_id peers = List.map_filter (\<lambda>d. if dp_game_id d = game_id then parse_ipv4 (dp_address d) else None) peers"

definition targets_of ::
  "'n ipnet \<Rightarrow> 'n \<Rightarrow> 'n list \<Rightarrow> int \<Rightarrow> ipv4 list \<Rightarrow> (int \<times> ustr \<times> int) list \<Rightarrow> vpn_target list" where
  "targets_of N client services game_id peers endpoints =
    List.map_filter (\<lambda>(g, host, port).
      if g = game_id then
        (case make_vpn_target N host port client services of
           None \<Rightarrow> None
         | Some t \<Rightarrow> if ip_contains N client (vt_address t) \<and> vt_address t \<notin> set peers then None else Some t)
      else None) endpoints"

definition blocks_of :: "int \<Rightarrow> (int \<times> cooldown_block) list \<Rightarrow> cooldown_block list" where
  "blocks_of game_id blocks = map snd (filter (\<lambda>b. fst b = game_id) blocks)"

lemma map_filter_snoc: "List.map_filter f (xs @ [x]) = List.map_filter f xs @ (case f x of None \<Rightarrow> [] | Some y \<Rightarrow> [y])"
  by (simp add: List.map_filter_def split: option.splits)

lemma foldl_peers:
  "map_of (foldl policy_add_peer [] peers) g =
    (if peers_of g peers = [] then None else Some ((empty_policy g) \<lparr> gp_peers := peers_of g peers \<rparr>))"
proof (induction peers arbitrary: g rule: rev_induct)
  case Nil
  then show ?case by (simp add: peers_of_def)
next
  case (snoc d peers)
  show ?case
  proof (cases "parse_ipv4 (dp_address d)")
    case None
    then show ?thesis using snoc by (simp add: policy_add_peer_def peers_of_def map_filter_snoc)
  next
    case (Some a)
    then show ?thesis
      using snoc
      by (auto simp: policy_add_peer_def peers_of_def map_filter_snoc update_conv' empty_policy_def Let_def)
  qed
qed

lemma foldl_endpoints:
  "map_of (foldl (policy_add_endpoint N client services) table endpoints) g =
    map_option (\<lambda>p. p \<lparr> gp_targets := foldl push_new (gp_targets p) (targets_of N client services g (gp_peers p) endpoints) \<rparr>)
      (map_of table g)"
proof (induction endpoints arbitrary: g rule: rev_induct)
  case Nil
  then show ?case by (cases "map_of table g") (auto simp: targets_of_def)
next
  case (snoc e endpoints)
  obtain g' host port where e: "e = (g', host, port)" by (cases e)
  show ?case
  proof (cases "map_of table g'")
    case None
    then show ?thesis
      using snoc by (cases "map_of table g")
        (auto simp: policy_add_endpoint_def targets_of_def map_filter_snoc e split: option.splits)
  next
    case (Some p)
    then show ?thesis
      using snoc by (cases "map_of table g")
        (auto simp: policy_add_endpoint_def targets_of_def map_filter_snoc e update_conv' push_new_def
          split: option.splits)
  qed
qed

lemma foldl_blocks:
  "map_of (foldl policy_add_block table blocks) g =
    map_option (\<lambda>p. p \<lparr> gp_cooldown_blocks := foldl push_new (gp_cooldown_blocks p) (blocks_of g blocks) \<rparr>) (map_of table g)"
proof (induction blocks arbitrary: g rule: rev_induct)
  case Nil
  then show ?case by (cases "map_of table g") (auto simp: blocks_of_def)
next
  case (snoc b blocks)
  then show ?case
    by (cases "map_of table g")
      (auto simp: policy_add_block_def blocks_of_def update_conv' push_new_def split: option.splits prod.splits)
qed

lemma foldl_keys_distinct:
  assumes "distinct (map fst t)"
    and "\<And>t x. distinct (map fst t) \<Longrightarrow> distinct (map fst (f t x))"
  shows "distinct (map fst (foldl f t xs))"
  using assms(1) by (induction xs arbitrary: t) (auto intro: assms(2))

lemma policy_steps_distinct:
  assumes "distinct (map fst t)"
  shows "distinct (map fst (policy_add_peer t d))"
    and "distinct (map fst (policy_add_endpoint N client services t e))"
    and "distinct (map fst (policy_add_block t b))"
  using assms
  by (auto simp: policy_add_peer_def policy_add_endpoint_def policy_add_block_def Let_def
      split: option.splits prod.splits intro: distinct_update)

lemma map_of_load:
  fixes N :: "'n ipnet" and client :: 'n and services :: "'n list"
  defines "table peers endpoints blocks \<equiv>
    foldl policy_add_block (foldl (policy_add_endpoint N client services) (foldl policy_add_peer [] peers) endpoints) blocks"
  shows "distinct (map fst (table peers endpoints blocks))"
    and "map_of (table peers endpoints blocks) g =
      (if peers_of g peers = [] then None
       else Some \<lparr> gp_game_id = g, gp_peers = peers_of g peers,
              gp_targets = foldl push_new [] (targets_of N client services g (peers_of g peers) endpoints),
              gp_cooldown_blocks = foldl push_new [] (blocks_of g blocks) \<rparr>)"
proof -
  show "distinct (map fst (table peers endpoints blocks))"
    unfolding table_def by (intro foldl_keys_distinct policy_steps_distinct) auto
  show "map_of (table peers endpoints blocks) g =
      (if peers_of g peers = [] then None
       else Some \<lparr> gp_game_id = g, gp_peers = peers_of g peers,
              gp_targets = foldl push_new [] (targets_of N client services g (peers_of g peers) endpoints),
              gp_cooldown_blocks = foldl push_new [] (blocks_of g blocks) \<rparr>)"
    unfolding table_def by (simp add: foldl_blocks foldl_endpoints foldl_peers empty_policy_def)
qed

lemma set_load_policies:
  "p \<in> set (load_policies N peers endpoints blocks client services) \<longleftrightarrow>
    (\<exists>g. peers_of g peers \<noteq> [] \<and>
       p = policy_sorted \<lparr> gp_game_id = g, gp_peers = peers_of g peers,
              gp_targets = foldl push_new [] (targets_of N client services g (peers_of g peers) endpoints),
              gp_cooldown_blocks = foldl push_new [] (blocks_of g blocks) \<rparr>)"
proof -
  let ?t = "foldl policy_add_block (foldl (policy_add_endpoint N client services) (foldl policy_add_peer [] peers) endpoints) blocks"
  note t = map_of_load [of N client services peers endpoints blocks]
  have "p \<in> set (load_policies N peers endpoints blocks client services)
      \<longleftrightarrow> (\<exists>g q. map_of ?t g = Some q \<and> p = policy_sorted q)"
    using t(1) by (force simp: load_policies_def Let_def map_of_eq_Some_iff)
  then show ?thesis unfolding t(2) by (auto split: if_splits)
qed

lemma ids_load_policies:
  "sorted_wrt (<) (map gp_game_id (load_policies N peers endpoints blocks client services))"
proof -
  let ?t = "foldl policy_add_block (foldl (policy_add_endpoint N client services) (foldl policy_add_peer [] peers) endpoints) blocks"
  note t = map_of_load [of N client services peers endpoints blocks]
  have "gp_game_id q = g" if "(g, q) \<in> set ?t" for g q
  proof -
    have "map_of ?t g = Some q" using t(1) that by simp
    then show ?thesis unfolding t(2) by (auto split: if_splits)
  qed
  then have "map gp_game_id (map policy_sorted (map snd (sort_key fst ?t))) = map fst (sort_key fst ?t)"
    by (force simp: policy_sorted_def)
  moreover have "distinct (map fst (sort_key fst ?t))"
    using t(1) by (simp add: distinct_map)
  ultimately show ?thesis
    unfolding load_policies_def Let_def by (simp only: sorted_distinct_less sorted_sort_key)
qed

lemma set_map_filter: "y \<in> set (List.map_filter f xs) \<longleftrightarrow> (\<exists>x \<in> set xs. f x = Some y)"
  by (induction xs) (auto simp: List.map_filter_def)

lemma set_peers_of:
  "set (peers_of g peers) = {a. \<exists>d \<in> set peers. dp_game_id d = g \<and> parse_ipv4 (dp_address d) = Some a}"
  by (auto simp: peers_of_def set_map_filter split: if_splits)

lemma set_targets_of:
  "set (targets_of N client services g peers endpoints) =
    {t. \<exists>host port. (g, host, port) \<in> set endpoints \<and> make_vpn_target N host port client services = Some t
        \<and> (ip_contains N client (vt_address t) \<longrightarrow> vt_address t \<in> set peers)}"
  (is "?A = ?B")
proof (intro set_eqI iffI)
  fix t assume "t \<in> ?A"
  then show "t \<in> ?B" by (auto simp: targets_of_def set_map_filter split: if_splits option.splits) blast+
next
  fix t assume "t \<in> ?B"
  then obtain host port where "(g, host, port) \<in> set endpoints" "make_vpn_target N host port client services = Some t"
    "ip_contains N client (vt_address t) \<longrightarrow> vt_address t \<in> set peers" by auto
  then show "t \<in> ?A" unfolding targets_of_def set_map_filter by (intro bexI [of _ "(g, host, port)"]) auto
qed

lemma set_blocks_of: "set (blocks_of g blocks) = {b. (g, b) \<in> set blocks}"
  by (force simp: blocks_of_def)

text \<open>
  C10. The network policy is exactly what the rows say. The policies are listed by strictly
  ascending game and there is one for each game with a peer of valid address. Each lists, without
  repetition, the peers of that game, the endpoints of that game that are valid targets, and the
  cooldowns of that game; an endpoint in the client network is a target only when it is a peer of
  the same game, so that a game never opens an address of another game's team.
\<close>

theorem load_policies_exact:
  "sorted_wrt (<) (map gp_game_id (load_policies N peers endpoints blocks client services))
   \<and> gp_game_id ` set (load_policies N peers endpoints blocks client services)
     = {g. \<exists>d \<in> set peers. dp_game_id d = g \<and> parse_ipv4 (dp_address d) \<noteq> None}
   \<and> (\<forall>p \<in> set (load_policies N peers endpoints blocks client services).
        sorted_wrt (<) (gp_peers p) \<and> distinct (gp_targets p) \<and> distinct (gp_cooldown_blocks p)
        \<and> set (gp_peers p) = {a. \<exists>d \<in> set peers. dp_game_id d = gp_game_id p \<and> parse_ipv4 (dp_address d) = Some a}
        \<and> set (gp_targets p) =
           {t. \<exists>host port. (gp_game_id p, host, port) \<in> set endpoints
               \<and> make_vpn_target N host port client services = Some t
               \<and> (ip_contains N client (vt_address t) \<longrightarrow> vt_address t \<in> set (gp_peers p))}
        \<and> set (gp_cooldown_blocks p) = {b. (gp_game_id p, b) \<in> set blocks})"
proof (intro conjI ballI)
  show "sorted_wrt (<) (map gp_game_id (load_policies N peers endpoints blocks client services))"
    by (rule ids_load_policies)
  have "gp_game_id ` set (load_policies N peers endpoints blocks client services) = {g. peers_of g peers \<noteq> []}"
    by (force simp: set_load_policies policy_sorted_def)
  also have "\<dots> = {g. set (peers_of g peers) \<noteq> {}}" by simp
  finally show "gp_game_id ` set (load_policies N peers endpoints blocks client services)
     = {g. \<exists>d \<in> set peers. dp_game_id d = g \<and> parse_ipv4 (dp_address d) \<noteq> None}"
    unfolding set_peers_of by auto
next
  fix p assume "p \<in> set (load_policies N peers endpoints blocks client services)"
  then obtain g where p: "p = policy_sorted \<lparr> gp_game_id = g, gp_peers = peers_of g peers,
              gp_targets = foldl push_new [] (targets_of N client services g (peers_of g peers) endpoints),
              gp_cooldown_blocks = foldl push_new [] (blocks_of g blocks) \<rparr>"
    unfolding set_load_policies by auto
  show "sorted_wrt (<) (gp_peers p)"
    unfolding p by (simp add: policy_sorted_def strict_sorted_iff distinct_remdups_adj_sorted)
  show "distinct (gp_targets p)" "distinct (gp_cooldown_blocks p)"
    unfolding p by (simp_all add: policy_sorted_def distinct_foldl_push_new)
  show "set (gp_peers p) = {a. \<exists>d \<in> set peers. dp_game_id d = gp_game_id p \<and> parse_ipv4 (dp_address d) = Some a}"
    unfolding p by (simp add: policy_sorted_def set_peers_of)
  show "set (gp_targets p) =
           {t. \<exists>host port. (gp_game_id p, host, port) \<in> set endpoints
               \<and> make_vpn_target N host port client services = Some t
               \<and> (ip_contains N client (vt_address t) \<longrightarrow> vt_address t \<in> set (gp_peers p))}"
    unfolding p by (simp add: policy_sorted_def set_targets_of)
  show "set (gp_cooldown_blocks p) = {b. (gp_game_id p, b) \<in> set blocks}"
    unfolding p by (simp add: policy_sorted_def set_blocks_of)
qed

definition sample_peer :: desired_peer where
  "sample_peer = \<lparr> dp_stable_id = lit ''team:1'', dp_game_id = 7, dp_participation_id = 3, dp_public_key = lit ''k'',
     dp_address = lit ''10.13.0.5'' \<rparr>"

definition sample_target :: vpn_target where
  "sample_target = \<lparr> vt_address = 168634377, vt_port = 8080 \<rparr>"

definition sample_policy :: game_vpn_policy where
  "sample_policy = \<lparr> gp_game_id = 7, gp_peers = [168624133], gp_targets = [sample_target], gp_cooldown_blocks = [] \<rparr>"

lemma sample_load:
  "load_policies cidr_blocks [sample_peer] [(7, lit ''10.13.40.9'', 8080), (7, lit ''10.13.0.6'', 80), (8, lit ''10.13.40.9'', 80)]
     [] (168624128, 19) [(168634368, 24)] = [sample_policy]"
  by (simp add: load_policies_def policy_add_peer_def policy_add_endpoint_def sample_peer_def empty_policy_def
      policy_sorted_def sample_policy_def sample_target_def make_vpn_target_def client_host_def service_host_def
      hub_of_def sat_succ_def port_u16_def cidr_blocks_def lit_def parse_ipv4_def parse_octet_def ascii_digit_def
      decimal_value_def cidr_first_def cidr_last_def cidr_size_def Let_def)

theorem load_policies_exact_witness:
  "sample_policy \<in> set (load_policies cidr_blocks [sample_peer]
      [(7, lit ''10.13.40.9'', 8080), (7, lit ''10.13.0.6'', 80), (8, lit ''10.13.40.9'', 80)]
      [] (168624128, 19) [(168634368, 24)])
   \<and> sorted_wrt (<) (gp_peers sample_policy) \<and> set (gp_cooldown_blocks sample_policy) = {}"
  using load_policies_exact [of cidr_blocks "[sample_peer]"
      "[(7, lit ''10.13.40.9'', 8080), (7, lit ''10.13.0.6'', 80), (8, lit ''10.13.40.9'', 80)]"
      "[]" "(168624128, 19)" "[(168634368, 24)]"]
  unfolding sample_load by simp

section \<open>Quarantine\<close>

text \<open>The connections a policy opens.\<close>

definition grants :: "game_vpn_policy \<Rightarrow> ipv4 \<Rightarrow> vpn_target \<Rightarrow> bool" where
  "grants policy peer target \<longleftrightarrow>
    peer \<in> set (gp_peers policy) \<and> target \<in> set (gp_targets policy)
    \<and> \<lparr> cb_peer = peer, cb_target = target \<rparr> \<notin> set (gp_cooldown_blocks policy)"

lemma policy_of_Some:
  "policy_of g ps = Some p \<Longrightarrow> p \<in> set ps \<and> gp_game_id p = g"
  by (auto simp: policy_of_def find_Some_iff)

lemma policy_of_distinct:
  assumes "distinct (map gp_game_id ps)" and "p \<in> set ps"
  shows "policy_of (gp_game_id p) ps = Some p"
proof -
  from assms(2) have "policy_of (gp_game_id p) ps \<noteq> None"
    by (auto simp: policy_of_def find_None_iff)
  then obtain q where "policy_of (gp_game_id p) ps = Some q" by blast
  with policy_of_Some [OF this] assms show ?thesis
    by (metis (mono_tags, lifting) distinct_map inj_onD)
qed

lemma tq_block_iff:
  "\<lparr> cb_peer = a, cb_target = t \<rparr> \<in> set (tq_blocks (make_transition_quarantine previous desired)) \<longleftrightarrow>
    (a, vt_address t, vt_port t) \<in> set (quarantined_blocks previous desired)"
  by (cases t) (force simp: make_transition_quarantine_def)

lemma tq_peer_iff:
  "a \<in> set (tq_peers (make_transition_quarantine previous desired)) \<longleftrightarrow> a \<in> set (quarantined_peers previous desired)"
  by (simp add: make_transition_quarantine_def)

lemma quarantined_blockI:
  assumes "old \<in> set (as_policies previous)" "policy_of (gp_game_id old) (as_policies desired) = Some new"
    and "a \<in> set (gp_peers old)" "t \<in> set (gp_targets old)" "t \<notin> set (gp_targets new)"
  shows "(a, vt_address t, vt_port t) \<in> set (quarantined_blocks previous desired)"
  using assms unfolding quarantined_blocks_def set_append
  by (intro UnI1) (auto intro!: bexI [of _ old] exI [of _ t])

lemma quarantined_cooldownI:
  assumes "new \<in> set (as_policies desired)" "policy_of (gp_game_id new) (as_policies previous) = Some old"
    and "\<lparr> cb_peer = a, cb_target = t \<rparr> \<in> set (gp_cooldown_blocks new)"
      "\<lparr> cb_peer = a, cb_target = t \<rparr> \<notin> set (gp_cooldown_blocks old)"
  shows "(a, vt_address t, vt_port t) \<in> set (quarantined_blocks previous desired)"
  using assms unfolding quarantined_blocks_def set_append
  by (intro UnI2) (auto intro!: bexI [of _ new] bexI [of _ "\<lparr> cb_peer = a, cb_target = t \<rparr>"])

lemma quarantine_self:
  assumes "distinct (map gp_game_id (as_policies s))"
  shows "tq_is_empty (make_transition_quarantine s s)"
proof -
  have "policy_of (gp_game_id p) (as_policies s) = Some p" if "p \<in> set (as_policies s)" for p
    using policy_of_distinct [OF assms that] .
  then have "set (quarantined_peers s s) = {}" "set (quarantined_blocks s s) = {}"
    unfolding quarantined_peers_def quarantined_blocks_def by auto
  then show ?thesis by (simp add: tq_is_empty_def make_transition_quarantine_def)
qed

lemma lost_grant_quarantined:
  assumes "distinct (map gp_game_id (as_policies previous))"
    and old: "old \<in> set (as_policies previous)" and g: "grants old a t"
    and lost: "\<forall>new \<in> set (as_policies desired). gp_game_id new = gp_game_id old \<longrightarrow> \<not> grants new a t"
  shows "a \<in> set (quarantined_peers previous desired)
    \<or> (a, vt_address t, vt_port t) \<in> set (quarantined_blocks previous desired)"
proof (cases "policy_of (gp_game_id old) (as_policies desired)")
  case None
  then have "a \<in> set (quarantined_peers previous desired)"
    using old g unfolding quarantined_peers_def grants_def by (auto intro!: bexI [of _ old])
  then show ?thesis by simp
next
  case (Some new)
  note new = policy_of_Some [OF Some]
  show ?thesis
  proof (cases "a \<in> set (gp_peers new) \<and> t \<in> set (gp_targets new)")
    case True
    then have "\<lparr> cb_peer = a, cb_target = t \<rparr> \<in> set (gp_cooldown_blocks new)"
      using lost new unfolding grants_def by auto
    moreover have "policy_of (gp_game_id new) (as_policies previous) = Some old"
      using policy_of_distinct [OF assms(1) old] new by simp
    ultimately show ?thesis using quarantined_cooldownI new g unfolding grants_def by blast
  next
    case False
    then show ?thesis
      using quarantined_blockI [OF old Some, of a t] old g Some
      unfolding grants_def quarantined_peers_def by (auto intro!: bexI [of _ old])
  qed
qed

text \<open>
  A change of policy is covered by its quarantine. Every connection that a game's old policy
  opens and its new policy does not, because the game, the peer or the target is gone or a
  cooldown was added, is blocked by a quarantined peer or a quarantined peer and target; so is every
  peer whose key, address or game changed. A change to the same state quarantines nothing.
\<close>

theorem transition_quarantine_covers_every_loss:
  assumes "distinct (map gp_game_id (as_policies previous))"
    and "q = make_transition_quarantine previous desired"
  shows "(\<forall>old \<in> set (as_policies previous). \<forall>a t. grants old a t
        \<longrightarrow> (\<forall>new \<in> set (as_policies desired). gp_game_id new = gp_game_id old \<longrightarrow> \<not> grants new a t)
        \<longrightarrow> a \<in> set (tq_peers q) \<or> \<lparr> cb_peer = a, cb_target = t \<rparr> \<in> set (tq_blocks q))
    \<and> (\<forall>peer \<in> set (as_peers previous) - set (as_peers desired). ap_address peer \<in> set (tq_peers q))
    \<and> (desired = previous \<longrightarrow> tq_is_empty q)"
proof (intro conjI ballI allI impI)
  fix old a t
  assume "old \<in> set (as_policies previous)" and "grants old a t"
    and "\<forall>new \<in> set (as_policies desired). gp_game_id new = gp_game_id old \<longrightarrow> \<not> grants new a t"
  then show "a \<in> set (tq_peers q) \<or> \<lparr> cb_peer = a, cb_target = t \<rparr> \<in> set (tq_blocks q)"
    unfolding assms(2) tq_peer_iff tq_block_iff by (rule lost_grant_quarantined [OF assms(1)])
next
  fix peer assume "peer \<in> set (as_peers previous) - set (as_peers desired)"
  then show "ap_address peer \<in> set (tq_peers q)"
    unfolding assms(2) tq_peer_iff quarantined_peers_def by (auto intro!: bexI [of _ peer])
next
  assume "desired = previous"
  then show "tq_is_empty q" using quarantine_self [OF assms(1)] assms(2) by simp
qed

definition sample_state :: applied_state where
  "sample_state = \<lparr> as_fingerprint = [], as_hub_identity = [],
     as_peers = [\<lparr> ap_game_id = 7, ap_public_key = lit ''k'', ap_address = 168624133 \<rparr>], as_policies = [sample_policy] \<rparr>"

theorem transition_quarantine_covers_every_loss_witness:
  "168624133 \<in> set (tq_peers (make_transition_quarantine sample_state (sample_state \<lparr> as_policies := [] \<rparr>)))
   \<or> \<lparr> cb_peer = 168624133, cb_target = sample_target \<rparr>
       \<in> set (tq_blocks (make_transition_quarantine sample_state (sample_state \<lparr> as_policies := [] \<rparr>)))"
  using transition_quarantine_covers_every_loss [of sample_state _ "sample_state \<lparr> as_policies := [] \<rparr>", OF _ refl]
  by (simp add: sample_state_def sample_policy_def grants_def)

end
