(* ===== verification/Vpn_Rules.thy ===== *)
theory Vpn_Rules
  imports Vpn_Policy
begin

text \<open>
  The iptables rules of the VPN boundary, from \<^verbatim>\<open>src/services/ad/vpn/firewall_rules.rs\<close>,
  \<^verbatim>\<open>src/services/ad/vpn/firewall_atomic.rs\<close> and \<^verbatim>\<open>src/services/ad/vpn/firewall.rs\<close>: the arguments of
  each rule as the code passes them, and which packets the planned chains accept. How iptables reads
  its arguments is the locale \<open>packet_filter\<close>, which states the behaviour that the manual of iptables
  and of its \<open>conntrack\<close> and \<open>set\<close> matches documents.
\<close>

section \<open>Names\<close>

definition IFNAME :: ustr where "IFNAME = lit ''wg0''"
definition FORWARD_DISPATCH_CHAIN :: ustr where "FORWARD_DISPATCH_CHAIN = lit ''RSCTF_VPN_DISPATCH''"
definition FORWARD_CHAIN :: ustr where "FORWARD_CHAIN = lit ''RSCTF_VPN_FORWARD''"
definition INPUT_CHAIN :: ustr where "INPUT_CHAIN = lit ''RSCTF_VPN_INPUT''"
definition NAT_CHAIN :: ustr where "NAT_CHAIN = lit ''RSCTF_VPN_NAT''"
definition LOCK_INPUT_CHAIN :: ustr where "LOCK_INPUT_CHAIN = lit ''RSCTF_VPN_LOCK_IN''"
definition LOCK_FORWARD_CHAIN :: ustr where "LOCK_FORWARD_CHAIN = lit ''RSCTF_VPN_LOCK_FWD''"
definition QUARANTINE_SET :: ustr where "QUARANTINE_SET = lit ''rsv_quarantine''"
definition TRANSITION_BLOCK_SET :: ustr where "TRANSITION_BLOCK_SET = lit ''rsv_transition''"
definition REQUIRED_SET :: ustr where "REQUIRED_SET = lit ''rsv_capture_required''"
definition LIVE_SET :: ustr where "LIVE_SET = lit ''rsv_capture_live''"

lemmas chain_names = FORWARD_DISPATCH_CHAIN_def FORWARD_CHAIN_def INPUT_CHAIN_def NAT_CHAIN_def
  LOCK_INPUT_CHAIN_def LOCK_FORWARD_CHAIN_def

lemmas set_names = QUARANTINE_SET_def TRANSITION_BLOCK_SET_def REQUIRED_SET_def LIVE_SET_def

record 'n service_route =
  sr_network :: 'n
  sr_interface :: ustr
  sr_directly_connected :: bool
  sr_local_address :: "ipv4 option"

record policy_sets =
  ps_peers :: ustr
  ps_forward_targets :: ustr
  ps_local_targets :: ustr
  ps_nat_targets :: ustr
  ps_cooldown_blocks :: ustr

type_synonym rule = "ustr list"

definition TARGET_PROTOCOLS :: "ustr list" where
  "TARGET_PROTOCOLS = [lit ''tcp'', lit ''udp'']"

section \<open>Rules\<close>

abbreviation args :: "string list \<Rightarrow> ustr list" where
  "args \<equiv> map lit"

definition transition_block_rule :: "ustr \<Rightarrow> rule" where
  "transition_block_rule protocol =
    [lit ''-i'', IFNAME, lit ''-p'', protocol] @ args [''-m'', ''set'', ''--match-set'']
    @ [TRANSITION_BLOCK_SET] @ args [''src,dst,dst'', ''-j'', ''DROP'']"

definition capture_gate :: "string \<Rightarrow> string \<Rightarrow> ustr \<Rightarrow> rule" where
  "capture_gate interface endpoint_direction protocol =
    [lit interface, IFNAME, lit ''-p'', protocol] @ args [''-m'', ''set'', ''--match-set'']
    @ [REQUIRED_SET, lit endpoint_direction] @ args [''-m'', ''set'', ''!'', ''--match-set'']
    @ [LIVE_SET, lit endpoint_direction] @ args [''-j'', ''DROP'']"

definition quarantine_rule :: rule where
  "quarantine_rule =
    [lit ''-i'', IFNAME] @ args [''-m'', ''set'', ''--match-set''] @ [QUARANTINE_SET] @ args [''src'', ''-j'', ''DROP'']"

definition cooldown_rule :: "policy_sets \<Rightarrow> ustr \<Rightarrow> rule" where
  "cooldown_rule game protocol =
    [lit ''-i'', IFNAME, lit ''-p'', protocol] @ args [''-m'', ''set'', ''--match-set'']
    @ [ps_cooldown_blocks game] @ args [''src,dst,dst'', ''-j'', ''DROP'']"

definition request_rule :: "policy_sets \<Rightarrow> ustr \<Rightarrow> ustr \<Rightarrow> rule" where
  "request_rule game targets protocol =
    [lit ''-i'', IFNAME, lit ''-p'', protocol] @ args [''-m'', ''set'', ''--match-set''] @ [ps_peers game, lit ''src'']
    @ args [''-m'', ''set'', ''--match-set''] @ [targets, lit ''dst,dst'']
    @ args [''-m'', ''conntrack'', ''--ctstate'', ''NEW,ESTABLISHED'', ''-j'', ''ACCEPT'']"

definition reply_rule :: "policy_sets \<Rightarrow> ustr \<Rightarrow> rule" where
  "reply_rule game protocol =
    [lit ''-o'', IFNAME, lit ''-p'', protocol] @ args [''-m'', ''set'', ''--match-set'']
    @ [ps_forward_targets game, lit ''src,src''] @ args [''-m'', ''set'', ''--match-set''] @ [ps_peers game, lit ''dst'']
    @ args [''-m'', ''conntrack'', ''--ctstate'', ''ESTABLISHED,RELATED'', ''-j'', ''ACCEPT'']"

definition same_origin_forward :: "ustr \<Rightarrow> same_origin_access \<Rightarrow> rule list" where
  "same_origin_forward all_peers access =
    [[lit ''-i'', IFNAME] @ args [''-p'', ''tcp'', ''-m'', ''set'', ''--match-set''] @ [all_peers, lit ''src'', lit ''-d'',
       show_ipv4 (so_ingress access)] @ args [''--dport'', ''443'', ''-m'', ''conntrack'', ''--ctstate'', ''NEW,ESTABLISHED'',
       ''-j'', ''ACCEPT''],
     [lit ''-o'', IFNAME] @ args [''-p'', ''tcp'', ''-s''] @ [show_ipv4 (so_ingress access)] @ args [''--sport'', ''443'',
       ''-m'', ''set'', ''--match-set''] @ [all_peers] @ args [''dst'', ''-m'', ''conntrack'', ''--ctstate'',
       ''ESTABLISHED,RELATED'', ''-j'', ''ACCEPT'']]"

definition forwarding_rule_plan :: "ustr \<Rightarrow> policy_sets list \<Rightarrow> same_origin_access option \<Rightarrow> rule list" where
  "forwarding_rule_plan all_peers sets same_origin =
    [args [''-m'', ''conntrack'', ''--ctstate'', ''INVALID'', ''-j'', ''DROP''], quarantine_rule]
    @ map transition_block_rule TARGET_PROTOCOLS
    @ concat (map (\<lambda>protocol. [capture_gate ''-i'' ''dst,dst'' protocol, capture_gate ''-o'' ''src,src'' protocol])
        TARGET_PROTOCOLS)
    @ (case same_origin of None \<Rightarrow> [] | Some access \<Rightarrow> same_origin_forward all_peers access)
    @ concat (map (\<lambda>game. concat (map (\<lambda>protocol.
        [cooldown_rule game protocol, request_rule game (ps_forward_targets game) protocol, reply_rule game protocol])
        TARGET_PROTOCOLS)) sets)
    @ [args [''-j'', ''DROP'']]"

definition dns_rule :: "ustr \<Rightarrow> same_origin_access \<Rightarrow> ustr \<Rightarrow> rule" where
  "dns_rule all_peers access protocol =
    [lit ''-i'', IFNAME, lit ''-p'', protocol] @ args [''-m'', ''set'', ''--match-set''] @ [all_peers, lit ''src'', lit ''-d'',
      show_ipv4 (so_dns access)] @ args [''--dport'', ''53'', ''-j'', ''ACCEPT'']"

definition established_rule :: "ustr \<Rightarrow> rule" where
  "established_rule interface =
    [lit ''-i'', interface] @ args [''-m'', ''conntrack'', ''--ctstate'', ''ESTABLISHED,RELATED'', ''-j'', ''ACCEPT'']"

text \<open>The interfaces of directly connected routes, each once.\<close>

definition direct_interfaces :: "'n service_route list \<Rightarrow> ustr list" where
  "direct_interfaces routes = foldl push_new [] (map sr_interface (filter sr_directly_connected routes))"

definition input_rule_plan ::
  "ustr \<Rightarrow> policy_sets list \<Rightarrow> 'n service_route list \<Rightarrow> bool \<Rightarrow> same_origin_access option \<Rightarrow> rule list" where
  "input_rule_plan all_peers sets routes guard_service_interfaces same_origin =
    [quarantine_rule, transition_block_rule (lit ''tcp''), transition_block_rule (lit ''udp''),
     capture_gate ''-i'' ''dst,dst'' (lit ''tcp''), capture_gate ''-i'' ''dst,dst'' (lit ''udp''),
     [lit ''-i'', IFNAME] @ args [''-m'', ''set'', ''--match-set''] @ [all_peers, lit ''src'']
       @ args [''-m'', ''conntrack'', ''--ctstate'', ''ESTABLISHED,RELATED'', ''-j'', ''ACCEPT'']]
    @ (case same_origin of None \<Rightarrow> [] | Some access \<Rightarrow> map (dns_rule all_peers access) [lit ''udp'', lit ''tcp''])
    @ concat (map (\<lambda>game. concat (map (\<lambda>protocol.
        [cooldown_rule game protocol, request_rule game (ps_local_targets game) protocol]) TARGET_PROTOCOLS)) sets)
    @ (if guard_service_interfaces then map established_rule (direct_interfaces routes) else [])
    @ [args [''-j'', ''DROP'']]"

definition nat_rule :: "policy_sets \<Rightarrow> ustr \<Rightarrow> rule" where
  "nat_rule game protocol =
    [lit ''-p'', protocol] @ args [''-m'', ''set'', ''--match-set''] @ [ps_peers game, lit ''src'']
    @ args [''-m'', ''set'', ''--match-set''] @ [ps_nat_targets game, lit ''dst,dst'']
    @ args [''!'', ''-o''] @ [IFNAME] @ args [''-j'', ''MASQUERADE'']"

definition nat_rule_plan :: "policy_sets list \<Rightarrow> rule list" where
  "nat_rule_plan sets =
    concat (map (\<lambda>game. map (nat_rule game) TARGET_PROTOCOLS) sets) @ [args [''-j'', ''RETURN'']]"

definition dispatch_rule_plan :: "'n service_route list \<Rightarrow> bool \<Rightarrow> rule list" where
  "dispatch_rule_plan routes guard_service_interfaces =
    [[lit ''-i'', IFNAME, lit ''-j'', FORWARD_CHAIN], [lit ''-o'', IFNAME, lit ''-j'', FORWARD_CHAIN]]
    @ (if guard_service_interfaces
       then map (\<lambda>interface. [lit ''-i'', interface, lit ''-j'', FORWARD_CHAIN]) (direct_interfaces routes) else [])
    @ [args [''-j'', ''RETURN'']]"

section \<open>How the kernel reads a chain\<close>

datatype ct_state = CtNew | CtEstablished | CtRelated | CtInvalid | CtUntracked

fun ct_name :: "ct_state \<Rightarrow> ustr" where
  "ct_name CtNew = lit ''NEW''"
| "ct_name CtEstablished = lit ''ESTABLISHED''"
| "ct_name CtRelated = lit ''RELATED''"
| "ct_name CtInvalid = lit ''INVALID''"
| "ct_name CtUntracked = lit ''UNTRACKED''"

record packet =
  pk_in :: ustr
  pk_out :: ustr
  pk_proto :: ustr
  pk_src :: ipv4
  pk_dst :: ipv4
  pk_sport :: nat
  pk_dport :: nat
  pk_ct :: ct_state

datatype verdict = Accepted | Dropped

text \<open>
  The member of an ipset that a packet is looked up as: the addresses and, in second place, the port
  with its protocol, in the directions of the match.
\<close>

definition ip_of_direction :: "packet \<Rightarrow> ustr \<Rightarrow> ustr" where
  "ip_of_direction p d = show_ipv4 (if d = lit ''src'' then pk_src p else pk_dst p)"

definition port_of_direction :: "packet \<Rightarrow> ustr \<Rightarrow> ustr" where
  "port_of_direction p d = pk_proto p @ 58 # dec_digits (if d = lit ''src'' then pk_sport p else pk_dport p)"

definition set_entry :: "ustr \<Rightarrow> packet \<Rightarrow> ustr" where
  "set_entry directions p =
    (case str_split 44 directions of
       [d] \<Rightarrow> ip_of_direction p d
     | [d, e] \<Rightarrow> ip_of_direction p d @ 44 # port_of_direction p e
     | [d, e, f] \<Rightarrow> ip_of_direction p d @ 44 # port_of_direction p e @ 44 # ip_of_direction p f
     | _ \<Rightarrow> [])"

text \<open>
  \<open>reads S r p\<close> tells whether the match part \<open>r\<close> of a rule matches the packet \<open>p\<close> when \<open>S\<close> gives the members of
  the ipsets, and \<open>walk S call rules p\<close> is the verdict of a chain when \<open>call\<close> gives those of the chains it calls.
\<close>

locale packet_filter =
  fixes reads :: "(ustr \<Rightarrow> ustr \<Rightarrow> bool) \<Rightarrow> ustr list \<Rightarrow> packet \<Rightarrow> bool"
    and walk :: "(ustr \<Rightarrow> ustr \<Rightarrow> bool) \<Rightarrow> (ustr \<Rightarrow> packet \<Rightarrow> verdict option) \<Rightarrow> rule list \<Rightarrow> packet \<Rightarrow> verdict option"
  assumes reads_nil: "reads S [] p"
    and reads_in: "reads S (lit ''-i'' # d # r) p \<longleftrightarrow> pk_in p = d \<and> reads S r p"
    and reads_out: "reads S (lit ''-o'' # d # r) p \<longleftrightarrow> pk_out p = d \<and> reads S r p"
    and reads_not_out: "reads S (lit ''!'' # lit ''-o'' # d # r) p \<longleftrightarrow> pk_out p \<noteq> d \<and> reads S r p"
    and reads_proto: "reads S (lit ''-p'' # t # r) p \<longleftrightarrow> pk_proto p = t \<and> reads S r p"
    and reads_src: "reads S (lit ''-s'' # show_ipv4 a # r) p \<longleftrightarrow> pk_src p = a \<and> reads S r p"
    and reads_dst: "reads S (lit ''-d'' # show_ipv4 a # r) p \<longleftrightarrow> pk_dst p = a \<and> reads S r p"
    and reads_sport: "reads S (lit ''--sport'' # dec_digits k # r) p \<longleftrightarrow> pk_sport p = k \<and> reads S r p"
    and reads_dport: "reads S (lit ''--dport'' # dec_digits k # r) p \<longleftrightarrow> pk_dport p = k \<and> reads S r p"
    and reads_ct: "reads S (lit ''-m'' # lit ''conntrack'' # lit ''--ctstate'' # c # r) p
        \<longleftrightarrow> ct_name (pk_ct p) \<in> set (str_split 44 c) \<and> reads S r p"
    and reads_set: "reads S (lit ''-m'' # lit ''set'' # lit ''--match-set'' # n # d # r) p
        \<longleftrightarrow> S n (set_entry d p) \<and> reads S r p"
    and reads_not_set: "reads S (lit ''-m'' # lit ''set'' # lit ''!'' # lit ''--match-set'' # n # d # r) p
        \<longleftrightarrow> \<not> S n (set_entry d p) \<and> reads S r p"
    and walk_nil: "walk S call [] p = None"
    and walk_accept: "walk S call ((m @ [lit ''-j'', lit ''ACCEPT'']) # rs) p
        = (if reads S m p then Some Accepted else walk S call rs p)"
    and walk_drop: "walk S call ((m @ [lit ''-j'', lit ''DROP'']) # rs) p
        = (if reads S m p then Some Dropped else walk S call rs p)"
    and walk_return: "walk S call ((m @ [lit ''-j'', lit ''RETURN'']) # rs) p
        = (if reads S m p then None else walk S call rs p)"
    and walk_call: "c \<notin> {lit ''ACCEPT'', lit ''DROP'', lit ''RETURN'', lit ''MASQUERADE''}
        \<Longrightarrow> walk S call ((m @ [lit ''-j'', c]) # rs) p
          = (if reads S m p then (case call c p of Some v \<Rightarrow> Some v | None \<Rightarrow> walk S call rs p) else walk S call rs p)"

text \<open>The members that the rules look up.\<close>

definition endpoint_text :: "ipv4 \<Rightarrow> ustr \<Rightarrow> nat \<Rightarrow> ustr" where
  "endpoint_text a protocol port = show_ipv4 a @ 44 # protocol @ 58 # dec_digits port"

definition triple_text :: "ipv4 \<Rightarrow> ustr \<Rightarrow> nat \<Rightarrow> ipv4 \<Rightarrow> ustr" where
  "triple_text peer protocol port a = show_ipv4 peer @ 44 # protocol @ 58 # dec_digits port @ 44 # show_ipv4 a"

lemma set_entries:
  "set_entry (lit ''src'') p = show_ipv4 (pk_src p)"
  "set_entry (lit ''dst'') p = show_ipv4 (pk_dst p)"
  "set_entry (lit ''src,src'') p = endpoint_text (pk_src p) (pk_proto p) (pk_sport p)"
  "set_entry (lit ''dst,dst'') p = endpoint_text (pk_dst p) (pk_proto p) (pk_dport p)"
  "set_entry (lit ''src,dst,dst'') p = triple_text (pk_src p) (pk_proto p) (pk_dport p) (pk_dst p)"
  by (simp_all add: set_entry_def ip_of_direction_def port_of_direction_def endpoint_text_def triple_text_def lit_def)

lemma ct_lists:
  "ct_name c \<in> set (str_split 44 (lit ''INVALID'')) \<longleftrightarrow> c = CtInvalid"
  "ct_name c \<in> set (str_split 44 (lit ''NEW,ESTABLISHED'')) \<longleftrightarrow> c = CtNew \<or> c = CtEstablished"
  "ct_name c \<in> set (str_split 44 (lit ''ESTABLISHED,RELATED'')) \<longleftrightarrow> c = CtEstablished \<or> c = CtRelated"
  by (cases c; simp add: lit_def)+

lemma port_texts: "lit ''443'' = dec_digits 443" "lit ''53'' = dec_digits 53"
  by (simp_all add: lit_def dec_digits.simps)

section \<open>What the planned chains accept\<close>

text \<open>
  The conditions of the rules, over the members \<open>S\<close> of the ipsets. \<open>denied\<close> collects the rules that
  come before every permission of both chains.
\<close>

definition ported :: "packet \<Rightarrow> bool" where
  "ported p \<longleftrightarrow> pk_proto p = lit ''tcp'' \<or> pk_proto p = lit ''udp''"

definition denied :: "(ustr \<Rightarrow> ustr \<Rightarrow> bool) \<Rightarrow> packet \<Rightarrow> bool" where
  "denied S p \<longleftrightarrow> pk_in p = IFNAME \<and>
    (S QUARANTINE_SET (show_ipv4 (pk_src p))
     \<or> ported p \<and> (S TRANSITION_BLOCK_SET (triple_text (pk_src p) (pk_proto p) (pk_dport p) (pk_dst p))
         \<or> S REQUIRED_SET (endpoint_text (pk_dst p) (pk_proto p) (pk_dport p))
           \<and> \<not> S LIVE_SET (endpoint_text (pk_dst p) (pk_proto p) (pk_dport p))))"

definition uncaptured_reply :: "(ustr \<Rightarrow> ustr \<Rightarrow> bool) \<Rightarrow> packet \<Rightarrow> bool" where
  "uncaptured_reply S p \<longleftrightarrow> pk_out p = IFNAME \<and> ported p
    \<and> S REQUIRED_SET (endpoint_text (pk_src p) (pk_proto p) (pk_sport p))
    \<and> \<not> S LIVE_SET (endpoint_text (pk_src p) (pk_proto p) (pk_sport p))"

definition web_access :: "(ustr \<Rightarrow> ustr \<Rightarrow> bool) \<Rightarrow> ustr \<Rightarrow> same_origin_access \<Rightarrow> packet \<Rightarrow> bool" where
  "web_access S all_peers access p \<longleftrightarrow> pk_proto p = lit ''tcp'' \<and>
    (pk_in p = IFNAME \<and> S all_peers (show_ipv4 (pk_src p)) \<and> pk_dst p = so_ingress access \<and> pk_dport p = 443
        \<and> pk_ct p \<in> {CtNew, CtEstablished}
     \<or> pk_out p = IFNAME \<and> S all_peers (show_ipv4 (pk_dst p)) \<and> pk_src p = so_ingress access \<and> pk_sport p = 443
        \<and> pk_ct p \<in> {CtEstablished, CtRelated})"

definition cooled_down :: "(ustr \<Rightarrow> ustr \<Rightarrow> bool) \<Rightarrow> policy_sets \<Rightarrow> packet \<Rightarrow> bool" where
  "cooled_down S game p \<longleftrightarrow> pk_in p = IFNAME
    \<and> S (ps_cooldown_blocks game) (triple_text (pk_src p) (pk_proto p) (pk_dport p) (pk_dst p))"

definition request_to :: "(ustr \<Rightarrow> ustr \<Rightarrow> bool) \<Rightarrow> policy_sets \<Rightarrow> ustr \<Rightarrow> packet \<Rightarrow> bool" where
  "request_to S game targets p \<longleftrightarrow> pk_in p = IFNAME \<and> S (ps_peers game) (show_ipv4 (pk_src p))
    \<and> S targets (endpoint_text (pk_dst p) (pk_proto p) (pk_dport p)) \<and> pk_ct p \<in> {CtNew, CtEstablished}"

definition reply_from :: "(ustr \<Rightarrow> ustr \<Rightarrow> bool) \<Rightarrow> policy_sets \<Rightarrow> packet \<Rightarrow> bool" where
  "reply_from S game p \<longleftrightarrow> pk_out p = IFNAME
    \<and> S (ps_forward_targets game) (endpoint_text (pk_src p) (pk_proto p) (pk_sport p))
    \<and> S (ps_peers game) (show_ipv4 (pk_dst p)) \<and> pk_ct p \<in> {CtEstablished, CtRelated}"

text \<open>The games in order: a cooldown of a game drops before its permission accepts.\<close>

fun first_verdict :: "('g \<Rightarrow> bool) \<Rightarrow> ('g \<Rightarrow> bool) \<Rightarrow> 'g list \<Rightarrow> verdict option" where
  "first_verdict drops accepts [] = None"
| "first_verdict drops accepts (g # gs) =
    (if drops g then Some Dropped else if accepts g then Some Accepted else first_verdict drops accepts gs)"

lemma first_verdict_Accepted:
  "first_verdict drops accepts gs = Some Accepted \<longleftrightarrow>
    (\<exists>i < length gs. accepts (gs ! i) \<and> (\<forall>j \<le> i. \<not> drops (gs ! j)))"
proof (induction gs)
  case Nil
  then show ?case by simp
next
  case (Cons g gs)
  show ?case
  proof (cases "\<not> drops g \<and> \<not> accepts g")
    case True
    have "(\<exists>i < length (g # gs). accepts ((g # gs) ! i) \<and> (\<forall>j \<le> i. \<not> drops ((g # gs) ! j)))
        \<longleftrightarrow> (\<exists>i < length gs. accepts (gs ! i) \<and> (\<forall>j \<le> i. \<not> drops (gs ! j)))" (is "?L \<longleftrightarrow> ?R")
    proof
      assume ?L
      then obtain i where i: "i < length (g # gs)" "accepts ((g # gs) ! i)" "\<forall>j \<le> i. \<not> drops ((g # gs) ! j)" by blast
      then obtain k where k: "i = Suc k" using True by (cases i) auto
      have "\<not> drops (gs ! j)" if "j \<le> k" for j using i(3) that unfolding k by (metis Suc_le_mono nth_Cons_Suc)
      then show ?R using i k by auto
    next
      assume ?R
      then obtain i where i: "i < length gs" "accepts (gs ! i)" "\<forall>j \<le> i. \<not> drops (gs ! j)" by blast
      then have "\<not> drops ((g # gs) ! j)" if "j \<le> Suc i" for j using True that by (cases j) auto
      then show ?L using i by (intro exI [of _ "Suc i"]) auto
    qed
    then show ?thesis using True Cons by simp
  next
    case False
    then show ?thesis by (auto intro: exI [of _ 0])
  qed
qed

definition forward_game_verdict :: "(ustr \<Rightarrow> ustr \<Rightarrow> bool) \<Rightarrow> policy_sets list \<Rightarrow> packet \<Rightarrow> verdict option" where
  "forward_game_verdict S sets p =
    (if ported p
     then first_verdict (\<lambda>g. cooled_down S g p) (\<lambda>g. request_to S g (ps_forward_targets g) p \<or> reply_from S g p) sets
     else None)"

definition local_game_verdict :: "(ustr \<Rightarrow> ustr \<Rightarrow> bool) \<Rightarrow> policy_sets list \<Rightarrow> packet \<Rightarrow> verdict option" where
  "local_game_verdict S sets p =
    (if ported p then first_verdict (\<lambda>g. cooled_down S g p) (\<lambda>g. request_to S g (ps_local_targets g) p) sets else None)"

definition dns_access :: "(ustr \<Rightarrow> ustr \<Rightarrow> bool) \<Rightarrow> ustr \<Rightarrow> same_origin_access \<Rightarrow> packet \<Rightarrow> bool" where
  "dns_access S all_peers access p \<longleftrightarrow> ported p \<and> pk_in p = IFNAME \<and> S all_peers (show_ipv4 (pk_src p))
    \<and> pk_dst p = so_dns access \<and> pk_dport p = 53"

context packet_filter
begin

lemmas reads_rules = reads_nil reads_in reads_out reads_not_out reads_proto reads_src reads_dst reads_sport
  reads_dport reads_ct reads_set reads_not_set

text \<open>One step of a chain for each shape of rule.\<close>

lemma walk_invalid:
  "walk S call ([lit ''-m'', lit ''conntrack'', lit ''--ctstate'', lit ''INVALID'', lit ''-j'', lit ''DROP''] # rs) p
    = (if pk_ct p = CtInvalid then Some Dropped else walk S call rs p)"
  using walk_drop [of S call "args [''-m'', ''conntrack'', ''--ctstate'', ''INVALID'']" rs p]
  by (simp add: reads_rules ct_lists)

lemma walk_final_drop: "walk S call [[lit ''-j'', lit ''DROP'']] p = Some Dropped"
  using walk_drop [of S call "[]" "[]" p] by (simp add: reads_rules)

lemma walk_final_return: "walk S call [[lit ''-j'', lit ''RETURN'']] p = None"
  using walk_return [of S call "[]" "[]" p] by (simp add: reads_rules)

lemma walk_quarantine:
  "walk S call (quarantine_rule # rs) p
    = (if pk_in p = IFNAME \<and> S QUARANTINE_SET (show_ipv4 (pk_src p)) then Some Dropped else walk S call rs p)"
  using walk_drop [of S call "[lit ''-i'', IFNAME] @ args [''-m'', ''set'', ''--match-set''] @ [QUARANTINE_SET, lit ''src'']" rs p]
  by (simp add: reads_rules set_entries quarantine_rule_def)

lemma walk_transition:
  "walk S call (transition_block_rule protocol # rs) p
    = (if pk_in p = IFNAME \<and> pk_proto p = protocol
          \<and> S TRANSITION_BLOCK_SET (triple_text (pk_src p) (pk_proto p) (pk_dport p) (pk_dst p))
       then Some Dropped else walk S call rs p)"
  using walk_drop [of S call "[lit ''-i'', IFNAME, lit ''-p'', protocol] @ args [''-m'', ''set'', ''--match-set'']
    @ [TRANSITION_BLOCK_SET, lit ''src,dst,dst'']" rs p]
  by (simp add: reads_rules set_entries transition_block_rule_def)

lemma walk_capture:
  assumes "(interface, d) = (''-i'', ''dst,dst'') \<or> (interface, d) = (''-o'', ''src,src'')"
  shows "walk S call (capture_gate interface d protocol # rs) p
    = (if reads S [lit interface, IFNAME] p \<and> pk_proto p = protocol \<and> S REQUIRED_SET (set_entry (lit d) p)
          \<and> \<not> S LIVE_SET (set_entry (lit d) p) then Some Dropped else walk S call rs p)"
proof -
  let ?m = "[lit interface, IFNAME, lit ''-p'', protocol] @ args [''-m'', ''set'', ''--match-set'']
    @ [REQUIRED_SET, lit d] @ args [''-m'', ''set'', ''!'', ''--match-set''] @ [LIVE_SET, lit d]"
  have "reads S ?m p \<longleftrightarrow> reads S [lit interface, IFNAME] p \<and> pk_proto p = protocol
      \<and> S REQUIRED_SET (set_entry (lit d) p) \<and> \<not> S LIVE_SET (set_entry (lit d) p)"
    using assms by (auto simp: reads_rules)
  then show ?thesis using walk_drop [of S call ?m rs p] by (simp add: capture_gate_def)
qed

lemma walk_cooldown:
  "walk S call (cooldown_rule game protocol # rs) p
    = (if pk_proto p = protocol \<and> cooled_down S game p then Some Dropped else walk S call rs p)"
  using walk_drop [of S call "[lit ''-i'', IFNAME, lit ''-p'', protocol] @ args [''-m'', ''set'', ''--match-set'']
    @ [ps_cooldown_blocks game, lit ''src,dst,dst'']" rs p]
  by (auto simp: reads_rules set_entries cooldown_rule_def cooled_down_def)

lemma walk_request:
  "walk S call (request_rule game targets protocol # rs) p
    = (if pk_proto p = protocol \<and> request_to S game targets p then Some Accepted else walk S call rs p)"
  using walk_accept [of S call "[lit ''-i'', IFNAME, lit ''-p'', protocol] @ args [''-m'', ''set'', ''--match-set'']
    @ [ps_peers game, lit ''src''] @ args [''-m'', ''set'', ''--match-set''] @ [targets, lit ''dst,dst'']
    @ args [''-m'', ''conntrack'', ''--ctstate'', ''NEW,ESTABLISHED'']" rs p]
  by (auto simp: reads_rules set_entries ct_lists request_rule_def request_to_def)

lemma walk_reply:
  "walk S call (reply_rule game protocol # rs) p
    = (if pk_proto p = protocol \<and> reply_from S game p then Some Accepted else walk S call rs p)"
  using walk_accept [of S call "[lit ''-o'', IFNAME, lit ''-p'', protocol] @ args [''-m'', ''set'', ''--match-set'']
    @ [ps_forward_targets game, lit ''src,src''] @ args [''-m'', ''set'', ''--match-set''] @ [ps_peers game, lit ''dst'']
    @ args [''-m'', ''conntrack'', ''--ctstate'', ''ESTABLISHED,RELATED'']" rs p]
  by (auto simp: reads_rules set_entries ct_lists reply_rule_def reply_from_def)

lemma walk_web:
  "walk S call (same_origin_forward all_peers access @ rs) p
    = (if web_access S all_peers access p then Some Accepted else walk S call rs p)"
proof -
  let ?m = "[lit ''-i'', IFNAME] @ args [''-p'', ''tcp'', ''-m'', ''set'', ''--match-set''] @ [all_peers, lit ''src'', lit ''-d'',
       show_ipv4 (so_ingress access), lit ''--dport'', lit ''443''] @ args [''-m'', ''conntrack'', ''--ctstate'', ''NEW,ESTABLISHED'']"
  let ?n = "[lit ''-o'', IFNAME] @ args [''-p'', ''tcp'', ''-s''] @ [show_ipv4 (so_ingress access), lit ''--sport'', lit ''443'']
       @ args [''-m'', ''set'', ''--match-set''] @ [all_peers, lit ''dst''] @ args [''-m'', ''conntrack'', ''--ctstate'', ''ESTABLISHED,RELATED'']"
  have "same_origin_forward all_peers access @ rs
      = (?m @ [lit ''-j'', lit ''ACCEPT'']) # (?n @ [lit ''-j'', lit ''ACCEPT'']) # rs"
    by (simp add: same_origin_forward_def)
  then show ?thesis
    unfolding web_access_def
    by (auto simp only: walk_accept) (auto simp: port_texts reads_rules set_entries ct_lists)
qed

lemma walk_forward_games:
  "walk S call (concat (map (\<lambda>game. concat (map (\<lambda>protocol.
        [cooldown_rule game protocol, request_rule game (ps_forward_targets game) protocol, reply_rule game protocol])
        TARGET_PROTOCOLS)) sets) @ rs) p
    = (case forward_game_verdict S sets p of Some v \<Rightarrow> Some v | None \<Rightarrow> walk S call rs p)"
proof (induction sets)
  case Nil
  then show ?case by (simp add: forward_game_verdict_def)
next
  case (Cons g gs)
  then show ?case
    by (auto simp: TARGET_PROTOCOLS_def walk_cooldown walk_request walk_reply forward_game_verdict_def ported_def)
qed

lemma walk_local_games:
  "walk S call (concat (map (\<lambda>game. concat (map (\<lambda>protocol.
        [cooldown_rule game protocol, request_rule game (ps_local_targets game) protocol]) TARGET_PROTOCOLS)) sets) @ rs) p
    = (case local_game_verdict S sets p of Some v \<Rightarrow> Some v | None \<Rightarrow> walk S call rs p)"
proof (induction sets)
  case Nil
  then show ?case by (simp add: local_game_verdict_def)
next
  case (Cons g gs)
  then show ?case
    by (auto simp: TARGET_PROTOCOLS_def walk_cooldown walk_request local_game_verdict_def ported_def)
qed

lemma walk_dns:
  "walk S call (map (dns_rule all_peers access) [lit ''udp'', lit ''tcp''] @ rs) p
    = (if dns_access S all_peers access p then Some Accepted else walk S call rs p)"
proof -
  have "walk S call (dns_rule all_peers access protocol # rs) p
    = (if pk_proto p = protocol \<and> dns_access S all_peers access p then Some Accepted else walk S call rs p)"
    if "protocol = lit ''udp'' \<or> protocol = lit ''tcp''" for protocol rs
    using that walk_accept [of S call "[lit ''-i'', IFNAME, lit ''-p'', protocol] @ args [''-m'', ''set'', ''--match-set'']
      @ [all_peers, lit ''src'', lit ''-d'', show_ipv4 (so_dns access), lit ''--dport'', dec_digits 53]" rs p]
    by (auto simp: reads_rules set_entries port_texts dns_rule_def dns_access_def ported_def)
  then show ?thesis by (auto simp: dns_access_def ported_def)
qed

lemma walk_established_one:
  "walk S call (established_rule i # rs) p
    = (if pk_in p = i \<and> pk_ct p \<in> {CtEstablished, CtRelated} then Some Accepted else walk S call rs p)"
  using walk_accept [of S call "[lit ''-i'', i] @ args [''-m'', ''conntrack'', ''--ctstate'', ''ESTABLISHED,RELATED'']" rs p]
  by (auto simp: established_rule_def reads_rules ct_lists)

lemma walk_established:
  "walk S call (map established_rule interfaces @ rs) p
    = (if pk_in p \<in> set interfaces \<and> pk_ct p \<in> {CtEstablished, CtRelated} then Some Accepted else walk S call rs p)"
  by (induction interfaces) (auto simp: walk_established_one)

lemma walk_capture_in:
  "walk S call (capture_gate ''-i'' ''dst,dst'' protocol # rs) p
    = (if pk_in p = IFNAME \<and> pk_proto p = protocol \<and> S REQUIRED_SET (endpoint_text (pk_dst p) (pk_proto p) (pk_dport p))
          \<and> \<not> S LIVE_SET (endpoint_text (pk_dst p) (pk_proto p) (pk_dport p)) then Some Dropped else walk S call rs p)"
  by (simp add: walk_capture reads_rules set_entries)

lemma walk_capture_out:
  "walk S call (capture_gate ''-o'' ''src,src'' protocol # rs) p
    = (if pk_out p = IFNAME \<and> pk_proto p = protocol \<and> S REQUIRED_SET (endpoint_text (pk_src p) (pk_proto p) (pk_sport p))
          \<and> \<not> S LIVE_SET (endpoint_text (pk_src p) (pk_proto p) (pk_sport p)) then Some Dropped else walk S call rs p)"
  by (simp add: walk_capture reads_rules set_entries)

lemmas walk_gates = walk_invalid walk_quarantine walk_transition walk_capture_in walk_capture_out

lemma walk_forward_gates:
  "walk S call ([args [''-m'', ''conntrack'', ''--ctstate'', ''INVALID'', ''-j'', ''DROP''], quarantine_rule]
      @ map transition_block_rule TARGET_PROTOCOLS
      @ concat (map (\<lambda>protocol. [capture_gate ''-i'' ''dst,dst'' protocol, capture_gate ''-o'' ''src,src'' protocol])
        TARGET_PROTOCOLS) @ rs) p
    = (if pk_ct p = CtInvalid \<or> denied S p \<or> uncaptured_reply S p then Some Dropped else walk S call rs p)"
  unfolding TARGET_PROTOCOLS_def denied_def uncaptured_reply_def ported_def
  by (cases "pk_proto p = lit ''tcp''"; cases "pk_proto p = lit ''udp''") (auto simp: walk_gates)

lemma walk_input_gates:
  "walk S call (quarantine_rule # transition_block_rule (lit ''tcp'') # transition_block_rule (lit ''udp'')
      # capture_gate ''-i'' ''dst,dst'' (lit ''tcp'') # capture_gate ''-i'' ''dst,dst'' (lit ''udp'') # rs) p
    = (if denied S p then Some Dropped else walk S call rs p)"
  unfolding denied_def ported_def
  by (cases "pk_proto p = lit ''tcp''"; cases "pk_proto p = lit ''udp''") (auto simp: walk_gates)

lemma forwarding_verdict:
  "walk S call (forwarding_rule_plan all_peers sets same_origin) p =
    Some (if pk_ct p \<noteq> CtInvalid \<and> \<not> denied S p \<and> \<not> uncaptured_reply S p
             \<and> ((\<exists>access. same_origin = Some access \<and> web_access S all_peers access p)
                \<or> forward_game_verdict S sets p = Some Accepted)
          then Accepted else Dropped)"
proof -
  let ?tail = "concat (map (\<lambda>game. concat (map (\<lambda>protocol.
        [cooldown_rule game protocol, request_rule game (ps_forward_targets game) protocol, reply_rule game protocol])
        TARGET_PROTOCOLS)) sets) @ [args [''-j'', ''DROP'']]"
  have tail: "walk S call ?tail p = Some (case forward_game_verdict S sets p of Some v \<Rightarrow> v | None \<Rightarrow> Dropped)"
    by (simp add: walk_forward_games walk_final_drop split: option.splits)
  have web: "walk S call ((case same_origin of None \<Rightarrow> [] | Some access \<Rightarrow> same_origin_forward all_peers access) @ ?tail) p
      = (if \<exists>access. same_origin = Some access \<and> web_access S all_peers access p then Some Accepted else walk S call ?tail p)"
    by (cases same_origin) (simp_all add: walk_web)
  have "walk S call (forwarding_rule_plan all_peers sets same_origin) p =
      (if pk_ct p = CtInvalid \<or> denied S p \<or> uncaptured_reply S p then Some Dropped
       else walk S call ((case same_origin of None \<Rightarrow> [] | Some access \<Rightarrow> same_origin_forward all_peers access) @ ?tail) p)"
    unfolding forwarding_rule_plan_def by (rule walk_forward_gates)
  moreover have "v = Dropped \<longleftrightarrow> v \<noteq> Accepted" for v by (cases v) auto
  ultimately show ?thesis unfolding web tail by (auto split: option.splits)
qed

lemma input_verdict:
  "walk S call (input_rule_plan all_peers sets routes guarded same_origin) p =
    Some (if denied S p then Dropped
          else if pk_in p = IFNAME \<and> S all_peers (show_ipv4 (pk_src p)) \<and> pk_ct p \<in> {CtEstablished, CtRelated}
                  \<or> (\<exists>access. same_origin = Some access \<and> dns_access S all_peers access p) then Accepted
          else case local_game_verdict S sets p of
                 Some v \<Rightarrow> v
               | None \<Rightarrow> if guarded \<and> pk_in p \<in> set (direct_interfaces routes) \<and> pk_ct p \<in> {CtEstablished, CtRelated}
                         then Accepted else Dropped)"
proof -
  let ?guard = "(if guarded then map established_rule (direct_interfaces routes) else []) @ [args [''-j'', ''DROP'']]"
  let ?games = "concat (map (\<lambda>game. concat (map (\<lambda>protocol.
        [cooldown_rule game protocol, request_rule game (ps_local_targets game) protocol]) TARGET_PROTOCOLS)) sets)"
  let ?dns = "case same_origin of None \<Rightarrow> [] | Some access \<Rightarrow> map (dns_rule all_peers access) [lit ''udp'', lit ''tcp'']"
  let ?est = "[lit ''-i'', IFNAME] @ args [''-m'', ''set'', ''--match-set''] @ [all_peers, lit ''src'']
       @ args [''-m'', ''conntrack'', ''--ctstate'', ''ESTABLISHED,RELATED'', ''-j'', ''ACCEPT'']"
  have guard: "walk S call ?guard p = Some (if guarded \<and> pk_in p \<in> set (direct_interfaces routes)
      \<and> pk_ct p \<in> {CtEstablished, CtRelated} then Accepted else Dropped)"
    by (simp add: walk_established walk_final_drop)
  have dns: "walk S call (?dns @ rs) p = (if \<exists>access. same_origin = Some access \<and> dns_access S all_peers access p
      then Some Accepted else walk S call rs p)" for rs
    by (cases same_origin) (simp_all only: walk_dns option.case append_Nil option.inject, simp_all)
  have est: "walk S call (?est # rs) p = (if pk_in p = IFNAME \<and> S all_peers (show_ipv4 (pk_src p))
      \<and> pk_ct p \<in> {CtEstablished, CtRelated} then Some Accepted else walk S call rs p)" for rs
    using walk_accept [of S call "[lit ''-i'', IFNAME] @ args [''-m'', ''set'', ''--match-set''] @ [all_peers, lit ''src'']
       @ args [''-m'', ''conntrack'', ''--ctstate'', ''ESTABLISHED,RELATED'']" rs p]
    by (auto simp: reads_rules set_entries ct_lists)
  have "walk S call (input_rule_plan all_peers sets routes guarded same_origin) p =
      (if denied S p then Some Dropped else walk S call (?est # ?dns @ ?games @ ?guard) p)"
    unfolding input_rule_plan_def append_Cons append_Nil by (rule walk_input_gates)
  then show ?thesis
    unfolding est dns walk_local_games guard by (cases "local_game_verdict S sets p") auto
qed

end

section \<open>A reader of rules\<close>

text \<open>
  The documented reading of the arguments as a function: options are read from left to right, each
  must hold, and a chain is walked to the first rule that decides.
\<close>

fun ipt_reads :: "(ustr \<Rightarrow> ustr \<Rightarrow> bool) \<Rightarrow> ustr list \<Rightarrow> packet \<Rightarrow> bool" where
  "ipt_reads S [] p = True"
| "ipt_reads S [x] p = False"
| "ipt_reads S [x, y] p =
    (if x = lit ''-i'' then pk_in p = y
     else if x = lit ''-o'' then pk_out p = y
     else if x = lit ''-p'' then pk_proto p = y
     else if x = lit ''-s'' then parse_ipv4 y = Some (pk_src p)
     else if x = lit ''-d'' then parse_ipv4 y = Some (pk_dst p)
     else if x = lit ''--sport'' then decimal_value y = pk_sport p
     else x = lit ''--dport'' \<and> decimal_value y = pk_dport p)"
| "ipt_reads S (x # y # z # r) p =
    (if x = lit ''-i'' then pk_in p = y \<and> ipt_reads S (z # r) p
     else if x = lit ''-o'' then pk_out p = y \<and> ipt_reads S (z # r) p
     else if x = lit ''-p'' then pk_proto p = y \<and> ipt_reads S (z # r) p
     else if x = lit ''-s'' then parse_ipv4 y = Some (pk_src p) \<and> ipt_reads S (z # r) p
     else if x = lit ''-d'' then parse_ipv4 y = Some (pk_dst p) \<and> ipt_reads S (z # r) p
     else if x = lit ''--sport'' then decimal_value y = pk_sport p \<and> ipt_reads S (z # r) p
     else if x = lit ''--dport'' then decimal_value y = pk_dport p \<and> ipt_reads S (z # r) p
     else if x = lit ''!'' then y = lit ''-o'' \<and> pk_out p \<noteq> z \<and> ipt_reads S r p
     else if x = lit ''-m'' \<and> y = lit ''conntrack'' \<and> z = lit ''--ctstate'' then
       (case r of c # r' \<Rightarrow> ct_name (pk_ct p) \<in> set (str_split 44 c) \<and> ipt_reads S r' p | [] \<Rightarrow> False)
     else if x = lit ''-m'' \<and> y = lit ''set'' \<and> z = lit ''--match-set'' then
       (case r of n # d # r' \<Rightarrow> S n (set_entry d p) \<and> ipt_reads S r' p | _ \<Rightarrow> False)
     else if x = lit ''-m'' \<and> y = lit ''set'' \<and> z = lit ''!'' then
       (case r of k # n # d # r' \<Rightarrow> k = lit ''--match-set'' \<and> \<not> S n (set_entry d p) \<and> ipt_reads S r' p | _ \<Rightarrow> False)
     else False)"

fun ipt_walk ::
  "(ustr \<Rightarrow> ustr \<Rightarrow> bool) \<Rightarrow> (ustr \<Rightarrow> packet \<Rightarrow> verdict option) \<Rightarrow> rule list \<Rightarrow> packet \<Rightarrow> verdict option" where
  "ipt_walk S call [] p = None"
| "ipt_walk S call (r # rs) p =
    (case rev r of
       t # j # m \<Rightarrow>
         if j = lit ''-j'' \<and> ipt_reads S (rev m) p then
           if t = lit ''ACCEPT'' then Some Accepted
           else if t = lit ''DROP'' then Some Dropped
           else if t = lit ''RETURN'' \<or> t = lit ''MASQUERADE'' then None
           else (case call t p of Some v \<Rightarrow> Some v | None \<Rightarrow> ipt_walk S call rs p)
         else ipt_walk S call rs p
     | _ \<Rightarrow> ipt_walk S call rs p)"

lemma ipt_reads_option:
  assumes "x \<in> {lit ''-i'', lit ''-o'', lit ''-p'', lit ''-s'', lit ''-d'', lit ''--sport'', lit ''--dport''}"
  shows "ipt_reads S (x # y # r) p \<longleftrightarrow> ipt_reads S [x, y] p \<and> ipt_reads S r p"
  using assms by (cases r) auto

interpretation ipt: packet_filter ipt_reads ipt_walk
proof unfold_locales
  fix S :: "ustr \<Rightarrow> ustr \<Rightarrow> bool" and p d t r a and k :: nat
  show "ipt_reads S [] p" by simp
  show "ipt_reads S (lit ''-i'' # d # r) p \<longleftrightarrow> pk_in p = d \<and> ipt_reads S r p"
    "ipt_reads S (lit ''-o'' # d # r) p \<longleftrightarrow> pk_out p = d \<and> ipt_reads S r p"
    "ipt_reads S (lit ''-p'' # t # r) p \<longleftrightarrow> pk_proto p = t \<and> ipt_reads S r p"
    "ipt_reads S (lit ''-s'' # show_ipv4 a # r) p \<longleftrightarrow> pk_src p = a \<and> ipt_reads S r p"
    "ipt_reads S (lit ''-d'' # show_ipv4 a # r) p \<longleftrightarrow> pk_dst p = a \<and> ipt_reads S r p"
    "ipt_reads S (lit ''--sport'' # dec_digits k # r) p \<longleftrightarrow> pk_sport p = k \<and> ipt_reads S r p"
    "ipt_reads S (lit ''--dport'' # dec_digits k # r) p \<longleftrightarrow> pk_dport p = k \<and> ipt_reads S r p"
    by (auto simp add: ipt_reads_option simp del: ipt_reads.simps(4))
  show "ipt_reads S (lit ''!'' # lit ''-o'' # d # r) p \<longleftrightarrow> pk_out p \<noteq> d \<and> ipt_reads S r p" by simp
next
  fix S :: "ustr \<Rightarrow> ustr \<Rightarrow> bool" and p c n d r
  show "ipt_reads S (lit ''-m'' # lit ''conntrack'' # lit ''--ctstate'' # c # r) p
        \<longleftrightarrow> ct_name (pk_ct p) \<in> set (str_split 44 c) \<and> ipt_reads S r p" by simp
  show "ipt_reads S (lit ''-m'' # lit ''set'' # lit ''--match-set'' # n # d # r) p
        \<longleftrightarrow> S n (set_entry d p) \<and> ipt_reads S r p" by simp
  show "ipt_reads S (lit ''-m'' # lit ''set'' # lit ''!'' # lit ''--match-set'' # n # d # r) p
        \<longleftrightarrow> \<not> S n (set_entry d p) \<and> ipt_reads S r p" by simp
qed auto

end
