(* ===== verification/Vpn_Sets.thy ===== *)
theory Vpn_Sets
  imports Vpn_Rules
begin

text \<open>
  The ipsets behind the rules, from \<^verbatim>\<open>src/services/ad/vpn/firewall_atomic.rs\<close>: the restore scripts
  the code writes, line by line, and what the sets contain once a script is loaded. What \<open>ipset restore\<close> does with a line is the
  locale \<open>ip_sets\<close>.
\<close>

section \<open>Scripts\<close>

datatype ipset_line =
    CreateSet ustr string
  | CreateTimed ustr string nat
  | AddEntry ustr ustr
  | AddTimed ustr ustr nat
  | FlushSet ustr
  | SwapSets ustr ustr

type_synonym ipset_table = "ustr \<rightharpoonup> ustr set"

record ipset_tool =
  it_restore :: "bool \<Rightarrow> ipset_line list \<Rightarrow> ipset_table \<Rightarrow> bool \<times> ipset_table"
  it_destroy :: "ustr \<Rightarrow> ipset_table \<Rightarrow> ipset_table"

text \<open>The text of a line, as \<open>writeln!\<close> writes it.\<close>

fun line_text :: "ipset_line \<Rightarrow> ustr" where
  "line_text (CreateSet name kind) = lit ''create '' @ name @ 32 # lit kind @ lit '' family inet maxelem 131072'' @ [10]"
| "line_text (CreateTimed name kind seconds) =
    lit ''create '' @ name @ 32 # lit kind @ lit '' family inet timeout '' @ dec_digits seconds @ lit '' maxelem 131072'' @ [10]"
| "line_text (AddEntry name entry) = lit ''add '' @ name @ 32 # entry @ [10]"
| "line_text (AddTimed name entry seconds) = lit ''add '' @ name @ 32 # entry @ lit '' timeout '' @ dec_digits seconds @ [10]"
| "line_text (FlushSet name) = lit ''flush '' @ name @ [10]"
| "line_text (SwapSets a b) = lit ''swap '' @ a @ 32 # b @ [10]"

definition ensure_transition_lines :: "ipset_line list" where
  "ensure_transition_lines = [CreateSet QUARANTINE_SET ''hash:ip'', CreateSet TRANSITION_BLOCK_SET ''hash:ip,port,ip'']"

definition block_lines :: "ustr \<Rightarrow> cooldown_block \<Rightarrow> ipset_line list" where
  "block_lines name block =
    map (\<lambda>protocol. AddEntry name
      (triple_text (cb_peer block) protocol (vt_port (cb_target block)) (vt_address (cb_target block)))) TARGET_PROTOCOLS"

definition quarantine_lines :: "ipv4 list \<Rightarrow> cooldown_block list \<Rightarrow> ipset_line list" where
  "quarantine_lines peers blocks =
    map (\<lambda>peer. AddEntry QUARANTINE_SET (show_ipv4 peer)) peers @ concat (map (block_lines TRANSITION_BLOCK_SET) blocks)"

definition ensure_transition_sets :: "ipset_tool \<Rightarrow> ipset_table \<Rightarrow> bool \<times> ipset_table" where
  "ensure_transition_sets T k = it_restore T True ensure_transition_lines k"

definition install_quarantine :: "ipset_tool \<Rightarrow> ipv4 list \<Rightarrow> cooldown_block list \<Rightarrow> ipset_table \<Rightarrow> bool \<times> ipset_table" where
  "install_quarantine T peers blocks k =
    (case ensure_transition_sets T k of
       (False, k1) \<Rightarrow> (False, k1)
     | (True, k1) \<Rightarrow> it_restore T True (quarantine_lines peers blocks) k1)"

definition clear_transition_sets :: "ipset_tool \<Rightarrow> ipset_table \<Rightarrow> bool \<times> ipset_table" where
  "clear_transition_sets T k =
    (case ensure_transition_sets T k of
       (False, k1) \<Rightarrow> (False, k1)
     | (True, k1) \<Rightarrow> it_restore T True [FlushSet QUARANTINE_SET, FlushSet TRANSITION_BLOCK_SET] k1)"

section \<open>Preparing a generation\<close>

definition hex_nibble :: "nat \<Rightarrow> nat" where
  "hex_nibble n = (if n < 10 then 48 + n else 87 + n)"

text \<open>\<open>{:08x}\<close> of the low half of the clock mixed with the counter.\<close>

definition next_generation :: "64 word \<Rightarrow> 64 word \<Rightarrow> ustr" where
  "next_generation elapsed sequence =
    (let w = ucast (xor elapsed (word_rotl 17 sequence)) :: 32 word
     in map (\<lambda>i. hex_nibble (unat w div 16 ^ i mod 16)) (rev [0..<8]))"

definition policy_set_name :: "string \<Rightarrow> int \<Rightarrow> ustr \<Rightarrow> ustr" where
  "policy_set_name kind game_id generation =
    lit ''rsv_'' @ lit kind @ lit ''_'' @ dec_digits (nat \<bar>game_id\<bar>) @ lit ''_'' @ generation"

definition sets_of_policy :: "ustr \<Rightarrow> game_vpn_policy \<Rightarrow> policy_sets" where
  "sets_of_policy generation policy =
    \<lparr> ps_peers = policy_set_name ''p'' (gp_game_id policy) generation,
      ps_forward_targets = policy_set_name ''f'' (gp_game_id policy) generation,
      ps_local_targets = policy_set_name ''l'' (gp_game_id policy) generation,
      ps_nat_targets = policy_set_name ''n'' (gp_game_id policy) generation,
      ps_cooldown_blocks = policy_set_name ''c'' (gp_game_id policy) generation \<rparr>"

definition set_names_of :: "policy_sets \<Rightarrow> ustr list" where
  "set_names_of sets =
    [ps_peers sets, ps_forward_targets sets, ps_local_targets sets, ps_nat_targets sets, ps_cooldown_blocks sets]"

definition endpoint_lines :: "ustr \<Rightarrow> vpn_target \<Rightarrow> ipset_line list" where
  "endpoint_lines name target =
    map (\<lambda>protocol. AddEntry name (endpoint_text (vt_address target) protocol (vt_port target))) TARGET_PROTOCOLS"

definition target_lines :: "'n ipnet \<Rightarrow> 'n \<Rightarrow> 'n service_route list \<Rightarrow> policy_sets \<Rightarrow> vpn_target \<Rightarrow> ipset_line list" where
  "target_lines N client routes sets target =
    (if ip_contains N client (vt_address target) then endpoint_lines (ps_forward_targets sets) target
     else case find (\<lambda>route. ip_contains N (sr_network route) (vt_address target)) routes of
            None \<Rightarrow> []
          | Some route \<Rightarrow>
              if sr_local_address route = Some (vt_address target) then endpoint_lines (ps_local_targets sets) target
              else endpoint_lines (ps_nat_targets sets) target @ endpoint_lines (ps_forward_targets sets) target)"

definition policy_lines ::
  "'n ipnet \<Rightarrow> 'n \<Rightarrow> 'n service_route list \<Rightarrow> ustr \<Rightarrow> game_vpn_policy \<Rightarrow> policy_sets \<Rightarrow> ipset_line list" where
  "policy_lines N client routes all_peers policy sets =
    [CreateSet (ps_peers sets) ''hash:ip'', CreateSet (ps_forward_targets sets) ''hash:ip,port'',
     CreateSet (ps_local_targets sets) ''hash:ip,port'', CreateSet (ps_nat_targets sets) ''hash:ip,port'',
     CreateSet (ps_cooldown_blocks sets) ''hash:ip,port,ip'']
    @ concat (map (\<lambda>peer. [AddEntry (ps_peers sets) (show_ipv4 peer), AddEntry all_peers (show_ipv4 peer)]) (gp_peers policy))
    @ concat (map (target_lines N client routes sets) (gp_targets policy))
    @ concat (map (block_lines (ps_cooldown_blocks sets)) (gp_cooldown_blocks policy))"

definition prepare_lines ::
  "'n ipnet \<Rightarrow> 'n \<Rightarrow> 'n service_route list \<Rightarrow> game_vpn_policy list \<Rightarrow> ustr \<Rightarrow> ipset_line list" where
  "prepare_lines N client routes policies generation =
    CreateSet (lit ''rsv_a_'' @ generation) ''hash:ip''
    # concat (map (\<lambda>policy. policy_lines N client routes (lit ''rsv_a_'' @ generation) policy (sets_of_policy generation policy))
        policies)"

record prepared_policy =
  pp_all_peers :: ustr
  pp_sets :: "policy_sets list"
  pp_names :: "ustr list"
  pp_live :: bool

definition prepare ::
  "'n ipnet \<Rightarrow> ipset_tool \<Rightarrow> 'n \<Rightarrow> 'n service_route list \<Rightarrow> game_vpn_policy list \<Rightarrow> ustr \<Rightarrow> ipset_table
    \<Rightarrow> prepared_policy option \<times> ipset_table" where
  "prepare N T client routes policies generation k =
    (let all_peers = lit ''rsv_a_'' @ generation;
         sets = map (sets_of_policy generation) policies;
         names = remdups (all_peers # concat (map set_names_of sets))
     in case it_restore T False (prepare_lines N client routes policies generation) k of
          (False, k1) \<Rightarrow> (None, fold (it_destroy T) names k1)
        | (True, k1) \<Rightarrow> (Some \<lparr> pp_all_peers = all_peers, pp_sets = sets, pp_names = names, pp_live = False \<rparr>, k1))"

definition str_starts_with :: "ustr \<Rightarrow> ustr \<Rightarrow> bool" where
  "str_starts_with s pre = (take (length pre) s = pre)"

definition owned_policy_set :: "ustr \<Rightarrow> bool" where
  "owned_policy_set name =
    list_ex (\<lambda>pre. str_starts_with name (lit pre)) [''rsv_a_'', ''rsv_p_'', ''rsv_f_'', ''rsv_l_'', ''rsv_n_'', ''rsv_c_'']"

text \<open>\<open>listed\<close> is the output of \<open>ipset list -name\<close>, or nothing when the command failed.\<close>

definition cleanup_stale :: "ipset_tool \<Rightarrow> ustr list option \<Rightarrow> prepared_policy \<Rightarrow> ipset_table \<Rightarrow> ipset_table" where
  "cleanup_stale T listed policy k =
    (case listed of
       None \<Rightarrow> k
     | Some names \<Rightarrow>
         fold (it_destroy T) (filter (\<lambda>name. owned_policy_set name \<and> name \<notin> set (pp_names policy)) names) k)"

definition drop_policy :: "ipset_tool \<Rightarrow> ustr list option \<Rightarrow> prepared_policy \<Rightarrow> ipset_table \<Rightarrow> ipset_table" where
  "drop_policy T listed policy k =
    (if pp_live policy then k else fold (it_destroy T) (pp_names policy) (cleanup_stale T listed policy k))"

section \<open>How the kernel loads a script\<close>

locale ip_sets =
  fixes T :: ipset_tool
  assumes restore_nil: "it_restore T x [] k = (True, k)"
    and restore_create: "it_restore T x (CreateSet n t # ls) k = (True, k')
        \<Longrightarrow> n \<notin> dom k \<and> it_restore T x ls (k(n \<mapsto> {})) = (True, k') \<or> x \<and> n \<in> dom k \<and> it_restore T x ls k = (True, k')"
    and restore_create_timed: "it_restore T x (CreateTimed n t s # ls) k = (True, k')
        \<Longrightarrow> n \<notin> dom k \<and> it_restore T x ls (k(n \<mapsto> {})) = (True, k') \<or> x \<and> n \<in> dom k \<and> it_restore T x ls k = (True, k')"
    and restore_add: "it_restore T x (AddEntry n e # ls) k = (True, k')
        \<Longrightarrow> \<exists>es. k n = Some es \<and> (e \<in> es \<longrightarrow> x) \<and> it_restore T x ls (k(n \<mapsto> insert e es)) = (True, k')"
    and restore_add_timed: "it_restore T x (AddTimed n e s # ls) k = (True, k')
        \<Longrightarrow> \<exists>es. k n = Some es \<and> (e \<in> es \<longrightarrow> x) \<and> it_restore T x ls (k(n \<mapsto> insert e es)) = (True, k')"
    and restore_flush: "it_restore T x (FlushSet n # ls) k = (True, k')
        \<Longrightarrow> n \<in> dom k \<and> it_restore T x ls (k(n \<mapsto> {})) = (True, k')"
    and restore_swap: "it_restore T x (SwapSets a b # ls) k = (True, k')
        \<Longrightarrow> a \<in> dom k \<and> b \<in> dom k \<and> it_restore T x ls (k(a := k b, b := k a)) = (True, k')"

text \<open>The sets that a script creates and the entries it adds, in order.\<close>

fun created_sets :: "ipset_line list \<Rightarrow> ustr list" where
  "created_sets [] = []"
| "created_sets (CreateSet n t # ls) = n # created_sets ls"
| "created_sets (l # ls) = created_sets ls"

fun added_entries :: "ipset_line list \<Rightarrow> (ustr \<times> ustr) list" where
  "added_entries [] = []"
| "added_entries (AddEntry n e # ls) = (n, e) # added_entries ls"
| "added_entries (l # ls) = added_entries ls"

definition builds_only :: "ipset_line list \<Rightarrow> bool" where
  "builds_only ls \<longleftrightarrow> (\<forall>l \<in> set ls. (\<exists>n t. l = CreateSet n t) \<or> (\<exists>n e. l = AddEntry n e))"

definition members :: "ipset_table \<Rightarrow> ustr \<Rightarrow> ustr \<Rightarrow> bool" where
  "members k n e = (case k n of None \<Rightarrow> False | Some es \<Rightarrow> e \<in> es)"

lemma script_append [simp]:
  "created_sets (xs @ ys) = created_sets xs @ created_sets ys"
  "added_entries (xs @ ys) = added_entries xs @ added_entries ys"
  by (induction xs rule: created_sets.induct) auto

lemma script_concat:
  "created_sets (concat xss) = concat (map created_sets xss)"
  "added_entries (concat xss) = concat (map added_entries xss)"
  by (induction xss) auto

text \<open>
  What a script of creations and additions has done when it loaded without \<open>-exist\<close>: it created new
  sets, added each entry once, and left exactly the added entries in the new sets.
\<close>

definition built :: "ipset_table \<Rightarrow> ipset_line list \<Rightarrow> ipset_table \<Rightarrow> bool" where
  "built k ls k' \<longleftrightarrow>
    distinct (created_sets ls) \<and> set (created_sets ls) \<inter> dom k = {}
    \<and> distinct (added_entries ls) \<and> (\<forall>(n, e) \<in> set (added_entries ls). \<not> members k n e)
    \<and> (\<forall>n \<in> dom k \<union> set (created_sets ls).
         k' n = Some ({e. members k n e} \<union> {e. (n, e) \<in> set (added_entries ls)}))"

lemma members_update [simp]: "members (k(n \<mapsto> es)) m e = (if m = n then e \<in> es else members k m e)"
  by (simp add: members_def)

lemma built_create:
  assumes "n \<notin> dom k" and "built (k(n \<mapsto> {})) ls k'"
  shows "built k (CreateSet n t # ls) k'"
  unfolding built_def
proof (intro conjI ballI)
  note b = assms(2) [unfolded built_def]
  show "distinct (created_sets (CreateSet n t # ls))" using b by auto
  show "set (created_sets (CreateSet n t # ls)) \<inter> dom k = {}" using b assms(1) by auto
  show "distinct (added_entries (CreateSet n t # ls))" using b by auto
  have none: "\<not> members k n e" for e using assms(1) by (simp add: members_def domIff)
  show "case x of (m, e) \<Rightarrow> \<not> members k m e" if "x \<in> set (added_entries (CreateSet n t # ls))" for x
    using b that none by (force split: if_splits)
  show "k' m = Some ({e. members k m e} \<union> {e. (m, e) \<in> set (added_entries (CreateSet n t # ls))})"
    if "m \<in> dom k \<union> set (created_sets (CreateSet n t # ls))" for m
  proof -
    have "m \<in> dom (k(n \<mapsto> {})) \<union> set (created_sets ls)" using that by auto
    with b have "k' m = Some ({e. members (k(n \<mapsto> {})) m e} \<union> {e. (m, e) \<in> set (added_entries ls)})" by blast
    then show ?thesis using none by (auto split: if_splits)
  qed
qed

lemma built_add:
  assumes "k n = Some es" and "e \<notin> es" and "built (k(n \<mapsto> insert e es)) ls k'"
  shows "built k (AddEntry n e # ls) k'"
  unfolding built_def
proof (intro conjI ballI)
  note b = assms(3) [unfolded built_def]
  have mem: "members k n e' \<longleftrightarrow> e' \<in> es" for e' using assms(1) by (simp add: members_def)
  show "distinct (created_sets (AddEntry n e # ls))" "set (created_sets (AddEntry n e # ls)) \<inter> dom k = {}"
    using b by auto
  show "distinct (added_entries (AddEntry n e # ls))" using b by auto
  show "case x of (m, e) \<Rightarrow> \<not> members k m e" if "x \<in> set (added_entries (AddEntry n e # ls))" for x
    using b that mem assms(2) by (force split: if_splits)
  show "k' m = Some ({e. members k m e} \<union> {e'. (m, e') \<in> set (added_entries (AddEntry n e # ls))})"
    if "m \<in> dom k \<union> set (created_sets (AddEntry n e # ls))" for m
  proof -
    have "m \<in> dom (k(n \<mapsto> insert e es)) \<union> set (created_sets ls)" using that by auto
    with b have "k' m = Some ({e'. members (k(n \<mapsto> insert e es)) m e'} \<union> {e. (m, e) \<in> set (added_entries ls)})"
      by blast
    then show ?thesis using mem by (auto split: if_splits)
  qed
qed

context ip_sets
begin

lemma restore_builds:
  "it_restore T False ls k = (True, k') \<Longrightarrow> builds_only ls \<Longrightarrow> built k ls k'"
proof (induction ls arbitrary: k)
  case Nil
  then show ?case using restore_nil [of False k] by (auto simp: built_def members_def)
next
  case (Cons l ls)
  then have rest: "builds_only ls" by (simp add: builds_only_def)
  from Cons.prems(2) consider n u where "l = CreateSet n u" | n e where "l = AddEntry n e"
    by (auto simp: builds_only_def)
  then show ?case
  proof cases
    case 1
    with restore_create [of False n u ls k k'] Cons.prems(1)
    have "n \<notin> dom k" "it_restore T False ls (k(n \<mapsto> {})) = (True, k')" by auto
    then show ?thesis unfolding 1 using Cons.IH [OF _ rest] by (intro built_create) auto
  next
    case 2
    with restore_add [of False n e ls k k'] Cons.prems(1) obtain es where "k n = Some es" "e \<notin> es"
      "it_restore T False ls (k(n \<mapsto> insert e es)) = (True, k')" by blast
    then show ?thesis unfolding 2 using Cons.IH [OF _ rest] by (intro built_add) auto
  qed
qed

end

section \<open>Entries and names\<close>

lemma separator_inject:
  "c \<notin> set xs \<Longrightarrow> c \<notin> set us \<Longrightarrow> xs @ c # ys = us @ c # vs \<longleftrightarrow> xs = us \<and> ys = vs"
proof (induction xs arbitrary: us)
  case Nil
  then show ?case by (cases us) auto
next
  case (Cons x xs)
  then show ?case by (cases us) auto
qed

lemma show_ipv4_free: "44 \<notin> set (show_ipv4 a)" "58 \<notin> set (show_ipv4 a)"
  using show_ipv4_chars [of 44 a] show_ipv4_chars [of 58 a] by (auto simp: ascii_digit_def)

lemma dec_digits_free: "44 \<notin> set (dec_digits n)" "58 \<notin> set (dec_digits n)"
  using dec_digits_ascii [of 44 n] dec_digits_ascii [of 58 n] by (auto simp: ascii_digit_def)

lemma protocol_free: "q \<in> set TARGET_PROTOCOLS \<Longrightarrow> 44 \<notin> set q \<and> 58 \<notin> set q"
  by (auto simp: TARGET_PROTOCOLS_def lit_def)

lemma endpoint_text_inject:
  assumes "q \<in> set TARGET_PROTOCOLS" "q' \<in> set TARGET_PROTOCOLS"
  shows "endpoint_text a q n = endpoint_text a' q' n' \<longleftrightarrow> a = a' \<and> q = q' \<and> n = n'"
  using protocol_free [OF assms(1)] protocol_free [OF assms(2)]
  by (simp add: endpoint_text_def separator_inject show_ipv4_free)

lemma triple_text_inject:
  assumes "q \<in> set TARGET_PROTOCOLS" "q' \<in> set TARGET_PROTOCOLS"
  shows "triple_text p q n a = triple_text p' q' n' a' \<longleftrightarrow> p = p' \<and> q = q' \<and> n = n' \<and> a = a'"
  using protocol_free [OF assms(1)] protocol_free [OF assms(2)]
  by (simp add: triple_text_def separator_inject show_ipv4_free dec_digits_free)

lemma ported_iff: "ported p \<longleftrightarrow> pk_proto p \<in> set TARGET_PROTOCOLS"
  by (auto simp: ported_def TARGET_PROTOCOLS_def)

text \<open>Every generated name fits the 31 characters that the kernel allows.\<close>

lemma length_policy_set_name:
  assumes "length kind = 1" and "i32_min \<le> game_id" and "game_id \<le> i32_max"
  shows "length (policy_set_name kind game_id (next_generation elapsed sequence)) \<le> 25"
proof -
  have "length (dec_digits (nat \<bar>game_id\<bar>)) \<le> 10" using assms(2,3) by (intro dec_digits_length) auto
  then show ?thesis using assms(1) by (simp add: policy_set_name_def next_generation_def lit_def Let_def)
qed

section \<open>What a prepared generation contains\<close>

datatype target_path = ClientPath | LocalPath | RoutedPath | NoPath

text \<open>Where the address of a target is reached: in the tunnel, at this host, behind a route, or not at all.\<close>

definition path_of :: "'n ipnet \<Rightarrow> 'n \<Rightarrow> 'n service_route list \<Rightarrow> ipv4 \<Rightarrow> target_path" where
  "path_of N client routes a =
    (if ip_contains N client a then ClientPath
     else case find (\<lambda>route. ip_contains N (sr_network route) a) routes of
            None \<Rightarrow> NoPath
          | Some route \<Rightarrow> if sr_local_address route = Some a then LocalPath else RoutedPath)"

fun path_sets :: "policy_sets \<Rightarrow> target_path \<Rightarrow> ustr set" where
  "path_sets s ClientPath = {ps_forward_targets s}"
| "path_sets s LocalPath = {ps_local_targets s}"
| "path_sets s RoutedPath = {ps_nat_targets s, ps_forward_targets s}"
| "path_sets s NoPath = {}"

lemma builds_only_simps [simp]:
  "builds_only []" "builds_only (CreateSet n u # ls) \<longleftrightarrow> builds_only ls" "builds_only (AddEntry n e # ls) \<longleftrightarrow> builds_only ls"
  "builds_only (xs @ ys) \<longleftrightarrow> builds_only xs \<and> builds_only ys"
  by (auto simp: builds_only_def)

lemma builds_only_concat: "builds_only (concat xss) \<longleftrightarrow> (\<forall>xs \<in> set xss. builds_only xs)"
  by (auto simp: builds_only_def)

lemma endpoint_lines_simps [simp]:
  "builds_only (endpoint_lines n t)" "created_sets (endpoint_lines n t) = []"
  "set (added_entries (endpoint_lines n t)) = {(n, endpoint_text (vt_address t) q (vt_port t)) | q. q \<in> set TARGET_PROTOCOLS}"
  by (auto simp: endpoint_lines_def builds_only_def TARGET_PROTOCOLS_def)

lemma block_lines_simps [simp]:
  "builds_only (block_lines n b)" "created_sets (block_lines n b) = []"
  "set (added_entries (block_lines n b)) =
    {(n, triple_text (cb_peer b) q (vt_port (cb_target b)) (vt_address (cb_target b))) | q. q \<in> set TARGET_PROTOCOLS}"
  by (auto simp: block_lines_def builds_only_def TARGET_PROTOCOLS_def)

lemma target_lines_simps [simp]:
  "builds_only (target_lines N client routes s t)" "created_sets (target_lines N client routes s t) = []"
  "set (added_entries (target_lines N client routes s t)) =
    {(n, endpoint_text (vt_address t) q (vt_port t)) | n q.
       q \<in> set TARGET_PROTOCOLS \<and> n \<in> path_sets s (path_of N client routes (vt_address t))}"
  by (auto simp: target_lines_def path_of_def split: option.splits)

lemma policy_lines_created:
  "builds_only (policy_lines N client routes a p s)" "created_sets (policy_lines N client routes a p s) = set_names_of s"
  by (auto simp: policy_lines_def builds_only_concat set_names_of_def script_concat)

lemma policy_lines_added:
  "(n, e) \<in> set (added_entries (policy_lines N client routes a p s)) \<longleftrightarrow>
    (\<exists>peer \<in> set (gp_peers p). e = show_ipv4 peer \<and> (n = ps_peers s \<or> n = a))
    \<or> (\<exists>t \<in> set (gp_targets p). \<exists>q \<in> set TARGET_PROTOCOLS. e = endpoint_text (vt_address t) q (vt_port t)
          \<and> n \<in> path_sets s (path_of N client routes (vt_address t)))
    \<or> (\<exists>b \<in> set (gp_cooldown_blocks p). \<exists>q \<in> set TARGET_PROTOCOLS. n = ps_cooldown_blocks s
          \<and> e = triple_text (cb_peer b) q (vt_port (cb_target b)) (vt_address (cb_target b)))"
  by (auto simp: policy_lines_def script_concat)

lemma prepare_lines_created:
  "builds_only (prepare_lines N client routes policies g)"
  "created_sets (prepare_lines N client routes policies g)
    = (lit ''rsv_a_'' @ g) # concat (map (\<lambda>p. set_names_of (sets_of_policy g p)) policies)"
proof -
  show "builds_only (prepare_lines N client routes policies g)"
    by (simp add: prepare_lines_def builds_only_concat policy_lines_created)
  show "created_sets (prepare_lines N client routes policies g)
    = (lit ''rsv_a_'' @ g) # concat (map (\<lambda>p. set_names_of (sets_of_policy g p)) policies)"
    by (simp add: prepare_lines_def script_concat policy_lines_created o_def)
qed

lemma prepare_lines_added:
  "set (added_entries (prepare_lines N client routes policies g))
    = (\<Union>p \<in> set policies. set (added_entries (policy_lines N client routes (lit ''rsv_a_'' @ g) p (sets_of_policy g p))))"
  by (simp add: prepare_lines_def script_concat)

lemma distinct_concat_disjoint:
  assumes "distinct (concat (map f xs))" and "x \<in> set xs" "y \<in> set xs" and "n \<in> set (f x)" "n \<in> set (f y)"
  shows "x = y"
  using assms
proof (induction xs)
  case (Cons z zs)
  have "set (f z) \<inter> set (concat (map f zs)) = {}" using Cons.prems(1) by simp
  then show ?case using Cons by auto
qed simp

abbreviation target_of :: "packet \<Rightarrow> vpn_target" where
  "target_of p \<equiv> \<lparr> vt_address = pk_dst p, vt_port = pk_dport p \<rparr>"

abbreviation block_of :: "packet \<Rightarrow> cooldown_block" where
  "block_of p \<equiv> \<lparr> cb_peer = pk_src p, cb_target = target_of p \<rparr>"

locale loaded_generation =
  fixes N :: "'n ipnet" and client :: 'n and routes :: "'n service_route list" and policies :: "game_vpn_policy list"
    and g :: ustr and k' :: ipset_table
  assumes new_names: "distinct (created_sets (prepare_lines N client routes policies g))"
    and new_entries: "distinct (added_entries (prepare_lines N client routes policies g))"
    and contents: "n \<in> set (created_sets (prepare_lines N client routes policies g))
      \<Longrightarrow> k' n = Some {e. (n, e) \<in> set (added_entries (prepare_lines N client routes policies g))}"
begin

abbreviation "sets_of \<equiv> sets_of_policy g"
abbreviation "all_peers \<equiv> lit ''rsv_a_'' @ g"

lemma names_distinct: "distinct (all_peers # concat (map (\<lambda>p. set_names_of (sets_of p)) policies))"
  using new_names by (simp add: prepare_lines_created)

lemma members_created:
  assumes "n \<in> set (all_peers # concat (map (\<lambda>p. set_names_of (sets_of p)) policies))"
  shows "members k' n e \<longleftrightarrow> (n, e) \<in> set (added_entries (prepare_lines N client routes policies g))"
  using contents assms unfolding prepare_lines_created members_def by simp

lemma members_of_policy:
  assumes p: "p \<in> set policies" and n: "n \<in> set (set_names_of (sets_of p))"
  shows "members k' n e \<longleftrightarrow> (n, e) \<in> set (added_entries (policy_lines N client routes all_peers p (sets_of p)))"
proof -
  have n': "n \<in> set (concat (map (\<lambda>p. set_names_of (sets_of p)) policies))" using p n by auto
  then have "members k' n e \<longleftrightarrow> (n, e) \<in> set (added_entries (prepare_lines N client routes policies g))"
    by (intro members_created) simp
  also have "\<dots> \<longleftrightarrow> (\<exists>q \<in> set policies. (n, e) \<in> set (added_entries (policy_lines N client routes all_peers q (sets_of q))))"
    by (simp add: prepare_lines_added)
  also have "\<dots> \<longleftrightarrow> (n, e) \<in> set (added_entries (policy_lines N client routes all_peers p (sets_of p)))"
  proof
    assume "\<exists>q \<in> set policies. (n, e) \<in> set (added_entries (policy_lines N client routes all_peers q (sets_of q)))"
    then obtain q where q: "q \<in> set policies" "(n, e) \<in> set (added_entries (policy_lines N client routes all_peers q (sets_of q)))"
      by blast
    have "path_sets s x \<subseteq> set (set_names_of s)" for s x by (cases x) (auto simp: set_names_of_def)
    then have "n = all_peers \<or> n \<in> set (set_names_of (sets_of q))"
      using q(2) unfolding policy_lines_added by (auto simp: set_names_of_def)
    moreover have "n \<noteq> all_peers" using names_distinct n' by (metis distinct.simps(2))
    ultimately have "n \<in> set (set_names_of (sets_of q))" by blast
    moreover have "distinct (concat (map (\<lambda>p. set_names_of (sets_of p)) policies))" using names_distinct by simp
    ultimately have "p = q"
      using distinct_concat_disjoint [of "\<lambda>p. set_names_of (sets_of p)" policies p q n] p q(1) n by simp
    then show "(n, e) \<in> set (added_entries (policy_lines N client routes all_peers p (sets_of p)))" using q(2) by simp
  qed (use p in blast)
  finally show ?thesis .
qed

lemma policy_names_distinct:
  assumes "p \<in> set policies"
  shows "distinct (set_names_of (sets_of p))" and "all_peers \<notin> set (set_names_of (sets_of p))"
proof -
  have "distinct (concat (map (\<lambda>p. set_names_of (sets_of p)) ps)) \<Longrightarrow> p \<in> set ps \<Longrightarrow> distinct (set_names_of (sets_of p))" for ps
    by (induction ps) auto
  moreover have "distinct (concat (map (\<lambda>p. set_names_of (sets_of p)) policies))" using names_distinct by simp
  ultimately show "distinct (set_names_of (sets_of p))" using assms by blast
  show "all_peers \<notin> set (set_names_of (sets_of p))" using names_distinct assms by auto
qed

lemma path_sets_iff:
  assumes "p \<in> set policies"
  shows "ps_forward_targets (sets_of p) \<in> path_sets (sets_of p) x \<longleftrightarrow> x = ClientPath \<or> x = RoutedPath"
    "ps_local_targets (sets_of p) \<in> path_sets (sets_of p) x \<longleftrightarrow> x = LocalPath"
    "ps_nat_targets (sets_of p) \<in> path_sets (sets_of p) x \<longleftrightarrow> x = RoutedPath"
    "ps_peers (sets_of p) \<notin> path_sets (sets_of p) x" "ps_cooldown_blocks (sets_of p) \<notin> path_sets (sets_of p) x"
  using policy_names_distinct(1) [OF assms] by (cases x; auto simp: set_names_of_def)+

lemma members_peers:
  assumes "p \<in> set policies"
  shows "members k' (ps_peers (sets_of p)) (show_ipv4 a) \<longleftrightarrow> a \<in> set (gp_peers p)"
proof -
  have "ps_peers (sets_of p) \<noteq> ps_cooldown_blocks (sets_of p)"
    using policy_names_distinct(1) [OF assms] by (simp add: set_names_of_def)
  then show ?thesis
    using path_sets_iff [OF assms]
    by (subst members_of_policy [OF assms]) (auto simp: set_names_of_def policy_lines_added)
qed

lemma members_endpoints:
  assumes "p \<in> set policies" and "q \<in> set TARGET_PROTOCOLS"
    and n: "n \<in> {ps_forward_targets (sets_of p), ps_local_targets (sets_of p), ps_nat_targets (sets_of p)}"
  shows "members k' n (endpoint_text a q port) \<longleftrightarrow>
    \<lparr> vt_address = a, vt_port = port \<rparr> \<in> set (gp_targets p) \<and> n \<in> path_sets (sets_of p) (path_of N client routes a)"
proof -
  have neq: "n \<noteq> ps_peers (sets_of p)" "n \<noteq> ps_cooldown_blocks (sets_of p)" "n \<noteq> all_peers"
    using policy_names_distinct [OF assms(1)] n by (auto simp: set_names_of_def)
  have "members k' n (endpoint_text a q port) \<longleftrightarrow>
      (\<exists>t \<in> set (gp_targets p). \<exists>q' \<in> set TARGET_PROTOCOLS. endpoint_text a q port = endpoint_text (vt_address t) q' (vt_port t)
          \<and> n \<in> path_sets (sets_of p) (path_of N client routes (vt_address t)))"
    using n neq by (subst members_of_policy [OF assms(1)]) (auto simp: set_names_of_def policy_lines_added)
  also have "\<dots> \<longleftrightarrow> (\<exists>t \<in> set (gp_targets p). vt_address t = a \<and> vt_port t = port
          \<and> n \<in> path_sets (sets_of p) (path_of N client routes a))"
    using assms(2) by (auto simp: endpoint_text_inject)
  also have "\<dots> \<longleftrightarrow> \<lparr> vt_address = a, vt_port = port \<rparr> \<in> set (gp_targets p)
      \<and> n \<in> path_sets (sets_of p) (path_of N client routes a)"
    by (metis (full_types) vpn_target.surjective vpn_target.select_convs(1,2) old.unit.exhaust)
  finally show ?thesis .
qed

lemma members_cooldown:
  assumes "p \<in> set policies" and "q \<in> set TARGET_PROTOCOLS"
  shows "members k' (ps_cooldown_blocks (sets_of p)) (triple_text peer q port a) \<longleftrightarrow>
    \<lparr> cb_peer = peer, cb_target = \<lparr> vt_address = a, vt_port = port \<rparr> \<rparr> \<in> set (gp_cooldown_blocks p)"
proof -
  have neq: "ps_cooldown_blocks (sets_of p) \<noteq> ps_peers (sets_of p)" "ps_cooldown_blocks (sets_of p) \<noteq> all_peers"
    using policy_names_distinct [OF assms(1)] by (auto simp: set_names_of_def)
  have "members k' (ps_cooldown_blocks (sets_of p)) (triple_text peer q port a) \<longleftrightarrow>
      (\<exists>b \<in> set (gp_cooldown_blocks p). \<exists>q' \<in> set TARGET_PROTOCOLS.
         triple_text peer q port a = triple_text (cb_peer b) q' (vt_port (cb_target b)) (vt_address (cb_target b)))"
    using neq path_sets_iff [OF assms(1)]
    by (subst members_of_policy [OF assms(1)]) (auto simp: set_names_of_def policy_lines_added)
  also have "\<dots> \<longleftrightarrow> (\<exists>b \<in> set (gp_cooldown_blocks p). cb_peer b = peer \<and> vt_port (cb_target b) = port \<and> vt_address (cb_target b) = a)"
    using assms(2) by (auto simp: triple_text_inject)
  also have "\<dots> \<longleftrightarrow> \<lparr> cb_peer = peer, cb_target = \<lparr> vt_address = a, vt_port = port \<rparr> \<rparr> \<in> set (gp_cooldown_blocks p)"
    by (metis (full_types) vpn_target.surjective vpn_target.select_convs(1,2) cooldown_block.surjective
        cooldown_block.select_convs(1,2) old.unit.exhaust)
  finally show ?thesis .
qed

text \<open>No address is a peer in two games: the second addition to the common set would have been refused.\<close>

lemma peers_of_one_game:
  assumes "p \<in> set policies" "q \<in> set policies" and "a \<in> set (gp_peers p)" "a \<in> set (gp_peers q)"
  shows "p = q"
proof -
  have d: "distinct (concat (map (\<lambda>p. added_entries (policy_lines N client routes all_peers p (sets_of p))) policies))"
    using new_entries by (simp add: prepare_lines_def script_concat o_def)
  have "(all_peers, show_ipv4 a) \<in> set (added_entries (policy_lines N client routes all_peers r (sets_of r)))"
    if "a \<in> set (gp_peers r)" for r using that by (auto simp: policy_lines_added)
  with assms show ?thesis by (intro distinct_concat_disjoint [OF d]) auto
qed

lemma members_all_peers:
  "members k' all_peers (show_ipv4 a) \<longleftrightarrow> (\<exists>p \<in> set policies. a \<in> set (gp_peers p))"
proof -
  have "\<not> all_peers \<in> path_sets (sets_of p) x \<and> all_peers \<noteq> ps_cooldown_blocks (sets_of p)" if "p \<in> set policies" for p x
    using policy_names_distinct(2) [OF that] by (cases x) (auto simp: set_names_of_def)
  then show ?thesis
    by (subst members_created) (auto simp: prepare_lines_added policy_lines_added)
qed

text \<open>The conditions of the rules in terms of the policies.\<close>

lemma request_iff:
  assumes "p \<in> set policies" "ported x"
    and n: "n \<in> {ps_forward_targets (sets_of p), ps_local_targets (sets_of p)}"
  shows "request_to (members k') (sets_of p) n x \<longleftrightarrow>
    pk_in x = IFNAME \<and> pk_ct x \<in> {CtNew, CtEstablished} \<and> pk_src x \<in> set (gp_peers p) \<and> target_of x \<in> set (gp_targets p)
    \<and> n \<in> path_sets (sets_of p) (path_of N client routes (pk_dst x))"
proof -
  have "pk_proto x \<in> set TARGET_PROTOCOLS" using assms(2) by (simp add: ported_iff)
  then show ?thesis
    using members_endpoints [OF assms(1)] n by (auto simp: request_to_def members_peers [OF assms(1)])
qed

lemma cooled_iff:
  assumes "p \<in> set policies" "ported x"
  shows "cooled_down (members k') (sets_of p) x \<longleftrightarrow>
    pk_in x = IFNAME \<and> \<lparr> cb_peer = pk_src x, cb_target = target_of x \<rparr> \<in> set (gp_cooldown_blocks p)"
  using members_cooldown [OF assms(1)] assms(2) by (simp add: cooled_down_def ported_iff)

lemma first_verdict_policies:
  assumes "ported x" "pk_in x = IFNAME" "pk_ct x = CtNew"
    and n: "(field, paths) = (ps_forward_targets, {ClientPath, RoutedPath}) \<or> (field, paths) = (ps_local_targets, {LocalPath})"
    and new: "\<And>p. p \<in> set policies \<Longrightarrow> accepts (sets_of p) \<longleftrightarrow> request_to (members k') (sets_of p) (field (sets_of p)) x"
  shows "first_verdict (\<lambda>s. cooled_down (members k') s x) accepts (map sets_of policies) = Some Accepted \<longleftrightarrow>
    path_of N client routes (pk_dst x) \<in> paths
    \<and> (\<exists>i < length policies. grants (policies ! i) (pk_src x) (target_of x)
         \<and> (\<forall>j < i. \<lparr> cb_peer = pk_src x, cb_target = target_of x \<rparr> \<notin> set (gp_cooldown_blocks (policies ! j))))"
proof -
  have acc: "accepts (sets_of (policies ! i)) \<longleftrightarrow> pk_src x \<in> set (gp_peers (policies ! i))
      \<and> target_of x \<in> set (gp_targets (policies ! i)) \<and> path_of N client routes (pk_dst x) \<in> paths"
    if "i < length policies" for i
  proof -
    have p: "policies ! i \<in> set policies" using that by simp
    then have "accepts (sets_of (policies ! i)) \<longleftrightarrow> pk_src x \<in> set (gp_peers (policies ! i))
        \<and> target_of x \<in> set (gp_targets (policies ! i))
        \<and> field (sets_of (policies ! i)) \<in> path_sets (sets_of (policies ! i)) (path_of N client routes (pk_dst x))"
      using new [OF p] request_iff [OF p assms(1)] n assms(2,3) by auto
    then show ?thesis using n path_sets_iff [OF p] by auto
  qed
  have cool: "cooled_down (members k') (sets_of (policies ! i)) x
      \<longleftrightarrow> \<lparr> cb_peer = pk_src x, cb_target = target_of x \<rparr> \<in> set (gp_cooldown_blocks (policies ! i))"
    if "i < length policies" for i using cooled_iff [of "policies ! i"] that assms(1,2) by simp
  have one: "accepts (map sets_of policies ! i) \<and> (\<forall>j \<le> i. \<not> cooled_down (members k') (map sets_of policies ! j) x) \<longleftrightarrow>
      path_of N client routes (pk_dst x) \<in> paths \<and> grants (policies ! i) (pk_src x) (target_of x)
      \<and> (\<forall>j < i. \<lparr> cb_peer = pk_src x, cb_target = target_of x \<rparr> \<notin> set (gp_cooldown_blocks (policies ! j)))"
    if i: "i < length policies" for i
  proof -
    have "(\<forall>j \<le> i. \<not> cooled_down (members k') (map sets_of policies ! j) x) \<longleftrightarrow>
        (\<forall>j \<le> i. \<lparr> cb_peer = pk_src x, cb_target = target_of x \<rparr> \<notin> set (gp_cooldown_blocks (policies ! j)))"
      using cool i by auto
    then show ?thesis using acc [OF i] i by (auto simp: grants_def le_less)
  qed
  then show ?thesis unfolding first_verdict_Accepted length_map by blast
qed

end

context ip_sets
begin

lemma prepare_loads:
  assumes "prepare N T client routes policies g k = (Some prepared, k')"
    and "\<And>n. n \<in> set (pp_names prepared) \<Longrightarrow> k'' n = k' n"
  shows "loaded_generation N client routes policies g k''"
    and "pp_all_peers prepared = lit ''rsv_a_'' @ g" and "pp_sets prepared = map (sets_of_policy g) policies"
proof -
  let ?ls = "prepare_lines N client routes policies g"
  from assms(1) have r: "it_restore T False ?ls k = (True, k')"
    and p: "prepared = \<lparr> pp_all_peers = lit ''rsv_a_'' @ g, pp_sets = map (sets_of_policy g) policies,
        pp_names = remdups ((lit ''rsv_a_'' @ g) # concat (map set_names_of (map (sets_of_policy g) policies))), pp_live = False \<rparr>"
    unfolding prepare_def Let_def by (auto split: prod.splits bool.splits)
  show "pp_all_peers prepared = lit ''rsv_a_'' @ g" "pp_sets prepared = map (sets_of_policy g) policies"
    by (simp_all add: p)
  have names: "set (pp_names prepared) = set (created_sets ?ls)"
    unfolding p prepare_lines_created by (auto simp: o_def)
  have b: "built k ?ls k'" by (rule restore_builds [OF r prepare_lines_created(1)])
  show "loaded_generation N client routes policies g k''"
  proof
    show "distinct (created_sets ?ls)" "distinct (added_entries ?ls)" using b by (auto simp: built_def)
    fix n assume n: "n \<in> set (created_sets ?ls)"
    have "k' n = Some ({e. members k n e} \<union> {e. (n, e) \<in> set (added_entries ?ls)})" and "n \<notin> dom k"
      using b n unfolding built_def by blast+
    then show "k'' n = Some {e. (n, e) \<in> set (added_entries ?ls)}"
      using assms(2) [of n] n names by (auto simp: members_def domIff)
  qed
qed

lemma restore_additions:
  "it_restore T True ls k = (True, k') \<Longrightarrow> (\<forall>l \<in> set ls. \<exists>n e. l = AddEntry n e)
    \<Longrightarrow> (n, e) \<in> set (added_entries ls) \<or> members k n e \<Longrightarrow> members k' n e"
proof (induction ls arbitrary: k)
  case Nil
  then show ?case using restore_nil [of True k] by simp
next
  case (Cons l ls)
  then obtain m d where l: "l = AddEntry m d" by auto
  with restore_add [of True m d ls k k'] Cons.prems(1) obtain es
    where es: "k m = Some es" "it_restore T True ls (k(m \<mapsto> insert d es)) = (True, k')" by blast
  have "(n, e) \<in> set (added_entries ls) \<or> members (k(m \<mapsto> insert d es)) n e"
    using Cons.prems(3) es(1) by (auto simp: l members_def)
  moreover have "\<forall>l \<in> set ls. \<exists>n e. l = AddEntry n e" using Cons.prems(2) by simp
  ultimately show ?case using Cons.IH [OF es(2)] by blast
qed

lemma quarantine_installed:
  assumes "install_quarantine T peers blocks k = (True, k')"
  shows "a \<in> set peers \<Longrightarrow> members k' QUARANTINE_SET (show_ipv4 a)"
    and "b \<in> set blocks \<Longrightarrow> q \<in> set TARGET_PROTOCOLS \<Longrightarrow>
      members k' TRANSITION_BLOCK_SET (triple_text (cb_peer b) q (vt_port (cb_target b)) (vt_address (cb_target b)))"
proof -
  from assms obtain k1 where r: "it_restore T True (quarantine_lines peers blocks) k1 = (True, k')"
    unfolding install_quarantine_def by (auto split: prod.splits bool.splits)
  have only: "\<forall>l \<in> set (quarantine_lines peers blocks). \<exists>n e. l = AddEntry n e"
    by (auto simp: quarantine_lines_def block_lines_def)
  have peer_lines: "added_entries (map (\<lambda>peer. AddEntry QUARANTINE_SET (show_ipv4 peer)) peers)
      = map (\<lambda>peer. (QUARANTINE_SET, show_ipv4 peer)) peers" by (induction peers) auto
  show "members k' QUARANTINE_SET (show_ipv4 a)" if "a \<in> set peers"
    using that by (intro restore_additions [OF r only]) (simp add: quarantine_lines_def peer_lines)
  show "members k' TRANSITION_BLOCK_SET (triple_text (cb_peer b) q (vt_port (cb_target b)) (vt_address (cb_target b)))"
    if "b \<in> set blocks" "q \<in> set TARGET_PROTOCOLS"
    using that by (intro restore_additions [OF r only]) (auto simp: quarantine_lines_def script_concat)
qed

end

section \<open>A loader of scripts\<close>

text \<open>The documented effect of each line as a function.\<close>

fun load_script :: "bool \<Rightarrow> ipset_line list \<Rightarrow> ipset_table \<Rightarrow> bool \<times> ipset_table" where
  "load_script x [] k = (True, k)"
| "load_script x (l # ls) k =
    (case l of
       CreateSet n t \<Rightarrow> if n \<notin> dom k then load_script x ls (k(n \<mapsto> {})) else if x then load_script x ls k else (False, k)
     | CreateTimed n t s \<Rightarrow> if n \<notin> dom k then load_script x ls (k(n \<mapsto> {})) else if x then load_script x ls k else (False, k)
     | AddEntry n e \<Rightarrow>
         (case k n of
            None \<Rightarrow> (False, k)
          | Some es \<Rightarrow> if e \<in> es \<and> \<not> x then (False, k) else load_script x ls (k(n \<mapsto> insert e es)))
     | AddTimed n e s \<Rightarrow>
         (case k n of
            None \<Rightarrow> (False, k)
          | Some es \<Rightarrow> if e \<in> es \<and> \<not> x then (False, k) else load_script x ls (k(n \<mapsto> insert e es)))
     | FlushSet n \<Rightarrow> if n \<in> dom k then load_script x ls (k(n \<mapsto> {})) else (False, k)
     | SwapSets a b \<Rightarrow> if a \<in> dom k \<and> b \<in> dom k then load_script x ls (k(a := k b, b := k a)) else (False, k))"

definition script_loader :: ipset_tool where
  "script_loader = \<lparr> it_restore = load_script, it_destroy = (\<lambda>n k. k(n := None)) \<rparr>"

interpretation loader: ip_sets script_loader
  by unfold_locales (auto simp: script_loader_def split: if_splits option.splits)

end
