(* ===== verification/Vpn_Boundary.thy ===== *)
theory Vpn_Boundary
  imports Vpn_Sets
begin

text \<open>
  What the VPN boundary lets through: the rules of \<open>Vpn_Rules\<close> over the sets that \<open>Vpn_Sets\<close> loads, for
  the policies of \<open>Vpn_Policy\<close>. The reader of rules, the loader of scripts and the networks are
  arbitrary ones that behave as documented.
\<close>

text \<open>The first policy that opens the packet's connection, with no cooldown in an earlier one.\<close>

definition opened :: "game_vpn_policy list \<Rightarrow> packet \<Rightarrow> bool" where
  "opened policies p \<longleftrightarrow>
    (\<exists>i < length policies. grants (policies ! i) (pk_src p) (target_of p)
       \<and> (\<forall>j < i. block_of p \<notin> set (gp_cooldown_blocks (policies ! j))))"

context loaded_generation
begin

lemma forward_game_new:
  assumes "pk_ct x = CtNew" "pk_in x = IFNAME"
  shows "forward_game_verdict (members k') (map sets_of policies) x = Some Accepted \<longleftrightarrow>
    ported x \<and> path_of N client routes (pk_dst x) \<in> {ClientPath, RoutedPath} \<and> opened policies x"
proof (cases "ported x")
  case True
  have "reply_from (members k') s x \<longleftrightarrow> False" for s using assms(1) by (simp add: reply_from_def)
  then show ?thesis
    unfolding forward_game_verdict_def opened_def
    using True first_verdict_policies [OF True assms(2,1), where field = ps_forward_targets and paths = "{ClientPath, RoutedPath}"]
    by simp
next
  case False
  then show ?thesis by (simp add: forward_game_verdict_def)
qed

lemma local_game_new:
  assumes "pk_ct x = CtNew" "pk_in x = IFNAME"
  shows "local_game_verdict (members k') (map sets_of policies) x = Some Accepted \<longleftrightarrow>
    ported x \<and> path_of N client routes (pk_dst x) = LocalPath \<and> opened policies x"
proof (cases "ported x")
  case True
  then show ?thesis
    unfolding local_game_verdict_def opened_def
    using first_verdict_policies [OF True assms(2,1), where field = ps_local_targets and paths = "{LocalPath}"]
    by simp
next
  case False
  then show ?thesis by (simp add: local_game_verdict_def)
qed

text \<open>A cooldown closes its connection: the peer belongs to no other game.\<close>

lemma cooled_not_opened:
  assumes "p \<in> set policies" "pk_src x \<in> set (gp_peers p)" "block_of x \<in> set (gp_cooldown_blocks p)"
  shows "\<not> opened policies x"
proof
  assume "opened policies x"
  then obtain q where "q \<in> set policies" "grants q (pk_src x) (target_of x)"
    unfolding opened_def using nth_mem by blast
  moreover from this have "p = q" using peers_of_one_game assms(1,2) by (auto simp: grants_def)
  ultimately show False using assms(3) by (simp add: grants_def)
qed

end

section \<open>Connections\<close>

lemma forward_new_verdict:
  assumes "packet_filter reads walk" and "ip_sets T"
    and "prepare N T client routes policies g k = (Some prepared, k')"
    and "\<forall>n \<in> set (pp_names prepared). k'' n = k' n"
    and "pk_ct p = CtNew" and "pk_in p = IFNAME"
  shows "walk (members k'') call (forwarding_rule_plan (pp_all_peers prepared) (pp_sets prepared) same_origin) p =
    Some (if \<not> denied (members k'') p \<and> \<not> uncaptured_reply (members k'') p
             \<and> ((\<exists>access policy. same_origin = Some access \<and> policy \<in> set policies \<and> pk_src p \<in> set (gp_peers policy)
                     \<and> pk_proto p = lit ''tcp'' \<and> pk_dst p = so_ingress access \<and> pk_dport p = 443)
                \<or> ported p \<and> path_of N client routes (pk_dst p) \<in> {ClientPath, RoutedPath} \<and> opened policies p)
          then Accepted else Dropped)"
proof -
  note loads = ip_sets.prepare_loads [OF assms(2,3), of k'']
  have gen: "loaded_generation N client routes policies g k''" using loads(1) assms(4) by blast
  have "web_access (members k'') (lit ''rsv_a_'' @ g) access p \<longleftrightarrow> pk_proto p = lit ''tcp'' \<and> pk_dst p = so_ingress access
      \<and> pk_dport p = 443 \<and> (\<exists>policy \<in> set policies. pk_src p \<in> set (gp_peers policy))" for access
    using assms(5,6) by (auto simp: web_access_def loaded_generation.members_all_peers [OF gen])
  then show ?thesis
    using loads(2,3) assms(4,5)
    by (auto simp: packet_filter.forwarding_verdict [OF assms(1)] loaded_generation.forward_game_new [OF gen assms(5,6)])
qed

text \<open>
  C5. What the tunnel can reach. Once a generation is prepared and as long as its sets stay as
  loaded, a new connection from the tunnel is forwarded exactly when it is not quarantined, blocked
  for a transition or uncaptured, and either goes from a peer to port 443 of the platform's ingress or is a
  TCP or UDP connection that a policy grants and no cooldown closes, to a target in the tunnel or
  behind a service route. Every other packet is dropped; the verdict never falls through.
\<close>

theorem tunnel_forwards_exactly_the_policy:
  assumes "packet_filter reads walk" and "ip_sets T"
    and "prepare N T client routes policies g k = (Some prepared, k')"
    and "\<forall>n \<in> set (pp_names prepared). k'' n = k' n"
    and "pk_ct p = CtNew" and "pk_in p = IFNAME"
  shows "walk (members k'') call (forwarding_rule_plan (pp_all_peers prepared) (pp_sets prepared) same_origin) p =
    Some (if \<not> denied (members k'') p \<and> \<not> uncaptured_reply (members k'') p
             \<and> ((\<exists>access policy. same_origin = Some access \<and> policy \<in> set policies \<and> pk_src p \<in> set (gp_peers policy)
                     \<and> pk_proto p = lit ''tcp'' \<and> pk_dst p = so_ingress access \<and> pk_dport p = 443)
                \<or> ported p \<and> path_of N client routes (pk_dst p) \<in> {ClientPath, RoutedPath} \<and> opened policies p)
          then Accepted else Dropped)"
  by (rule forward_new_verdict [OF assms])

definition sample_route :: "(ipv4 \<times> nat) service_route" where
  "sample_route = \<lparr> sr_network = (168634368, 24), sr_interface = lit ''eth1'', sr_directly_connected = True,
     sr_local_address = Some 168634370 \<rparr>"

definition sample_generation :: "prepared_policy option \<times> ipset_table" where
  "sample_generation =
    prepare cidr_blocks script_loader (168624128, 19) [sample_route] [sample_policy] (lit ''deadbeef'') Map.empty"

lemma sample_generation_loads:
  "prepare cidr_blocks script_loader (168624128, 19) [sample_route] [sample_policy] (lit ''deadbeef'') Map.empty
    = (Some (the (fst sample_generation)), snd sample_generation)"
proof -
  have "fst (load_script False (prepare_lines cidr_blocks (168624128, 19) [sample_route] [sample_policy] (lit ''deadbeef''))
      Map.empty)"
    by (simp add: prepare_lines_def policy_lines_def target_lines_def endpoint_lines_def sets_of_policy_def
        policy_set_name_def sample_policy_def sample_target_def sample_route_def cidr_blocks_def cidr_first_def
        cidr_last_def cidr_size_def TARGET_PROTOCOLS_def lit_def dec_digits.simps endpoint_text_def show_ipv4_def octet_def)
  then show ?thesis
    by (auto simp: sample_generation_def prepare_def Let_def script_loader_def split: prod.splits bool.splits)
qed

interpretation sample: loaded_generation cidr_blocks "(168624128, 19)" "[sample_route]" "[sample_policy]" "lit ''deadbeef''"
  "snd sample_generation"
  by (rule loader.prepare_loads(1) [OF sample_generation_loads refl])

definition sample_packet :: packet where
  "sample_packet = \<lparr> pk_in = IFNAME, pk_out = lit ''eth1'', pk_proto = lit ''tcp'', pk_src = 168624133, pk_dst = 168634377,
     pk_sport = 50000, pk_dport = 8080, pk_ct = CtNew \<rparr>"

lemma sample_packet_new: "pk_ct sample_packet = CtNew" "pk_in sample_packet = IFNAME"
  by (simp_all add: sample_packet_def)

theorem tunnel_forwards_exactly_the_policy_witness:
  "ipt_walk (members (snd sample_generation)) (\<lambda>_ _. None)
     (forwarding_rule_plan (pp_all_peers (the (fst sample_generation))) (pp_sets (the (fst sample_generation))) None) sample_packet =
    Some (if \<not> denied (members (snd sample_generation)) sample_packet
             \<and> \<not> uncaptured_reply (members (snd sample_generation)) sample_packet
             \<and> ported sample_packet
             \<and> path_of cidr_blocks (168624128, 19) [sample_route] (pk_dst sample_packet) \<in> {ClientPath, RoutedPath}
             \<and> opened [sample_policy] sample_packet
          then Accepted else Dropped)"
  using tunnel_forwards_exactly_the_policy [OF ipt.packet_filter_axioms loader.ip_sets_axioms sample_generation_loads
      _ sample_packet_new, of "snd sample_generation" "\<lambda>_ _. None" None] by simp

lemma input_new_verdict:
  assumes "packet_filter reads walk" and "ip_sets T"
    and "prepare N T client routes policies g k = (Some prepared, k')"
    and "\<forall>n \<in> set (pp_names prepared). k'' n = k' n"
    and "pk_ct p = CtNew" and "pk_in p = IFNAME"
  shows "walk (members k'') call (input_rule_plan (pp_all_peers prepared) (pp_sets prepared) routes guarded same_origin) p =
    Some (if \<not> denied (members k'') p
             \<and> ((\<exists>access policy. same_origin = Some access \<and> policy \<in> set policies \<and> pk_src p \<in> set (gp_peers policy)
                     \<and> ported p \<and> pk_dst p = so_dns access \<and> pk_dport p = 53)
                \<or> ported p \<and> path_of N client routes (pk_dst p) = LocalPath \<and> opened policies p)
          then Accepted else Dropped)"
proof -
  note loads = ip_sets.prepare_loads [OF assms(2,3), of k'']
  have gen: "loaded_generation N client routes policies g k''" using loads(1) assms(4) by blast
  have dns: "dns_access (members k'') (lit ''rsv_a_'' @ g) access p \<longleftrightarrow> ported p \<and> pk_dst p = so_dns access
      \<and> pk_dport p = 53 \<and> (\<exists>policy \<in> set policies. pk_src p \<in> set (gp_peers policy))" for access
    using assms(6) by (auto simp: dns_access_def loaded_generation.members_all_peers [OF gen])
  have "v = Dropped \<longleftrightarrow> v \<noteq> Accepted" for v by (cases v) auto
  then have "(case local_game_verdict (members k'') (map (sets_of_policy g) policies) p of Some v \<Rightarrow> v | None \<Rightarrow> Dropped)
      = (if ported p \<and> path_of N client routes (pk_dst p) = LocalPath \<and> opened policies p then Accepted else Dropped)"
    unfolding loaded_generation.local_game_new [OF gen assms(5,6), symmetric] by (auto split: option.splits)
  then show ?thesis
    using loads(2,3) assms(4,5) by (auto simp: packet_filter.input_verdict [OF assms(1)] dns)
qed

text \<open>
  C6. What the tunnel can reach on the host itself. A new connection from the tunnel to the host is
  accepted exactly when it is not quarantined, blocked or uncaptured, and is either a DNS query of a peer
  to the hub or a connection that a policy grants to a target at the host's own service address. The
  application, its database and every other local port stay closed, whatever the routes and interfaces.
\<close>

theorem tunnel_reaches_only_local_targets:
  assumes "packet_filter reads walk" and "ip_sets T"
    and "prepare N T client routes policies g k = (Some prepared, k')"
    and "\<forall>n \<in> set (pp_names prepared). k'' n = k' n"
    and "pk_ct p = CtNew" and "pk_in p = IFNAME"
  shows "walk (members k'') call (input_rule_plan (pp_all_peers prepared) (pp_sets prepared) routes guarded same_origin) p =
    Some (if \<not> denied (members k'') p
             \<and> ((\<exists>access policy. same_origin = Some access \<and> policy \<in> set policies \<and> pk_src p \<in> set (gp_peers policy)
                     \<and> ported p \<and> pk_dst p = so_dns access \<and> pk_dport p = 53)
                \<or> ported p \<and> path_of N client routes (pk_dst p) = LocalPath \<and> opened policies p)
          then Accepted else Dropped)"
  by (rule input_new_verdict [OF assms])

theorem tunnel_reaches_only_local_targets_witness:
  "ipt_walk (members (snd sample_generation)) (\<lambda>_ _. None)
     (input_rule_plan (pp_all_peers (the (fst sample_generation))) (pp_sets (the (fst sample_generation))) [sample_route] True None)
     sample_packet =
    Some (if \<not> denied (members (snd sample_generation)) sample_packet \<and> ported sample_packet
             \<and> path_of cidr_blocks (168624128, 19) [sample_route] (pk_dst sample_packet) = LocalPath
             \<and> opened [sample_policy] sample_packet
          then Accepted else Dropped)"
  using tunnel_reaches_only_local_targets [OF ipt.packet_filter_axioms loader.ip_sets_axioms sample_generation_loads
      _ sample_packet_new, of "snd sample_generation" "\<lambda>_ _. None" True None] by simp

text \<open>
  C7. A champion's cooldown is enforced. While a policy holds the cooldown of one of its peers for a
  target, a new connection of that peer to that target is dropped on both paths, forwarded or local, also
  when another game's policy grants it: the sets load only when no address is a peer of two games. Only
  the platform's own ingress and DNS remain reachable.
\<close>

theorem cooldown_drops_new_connections:
  assumes "packet_filter reads walk" and "ip_sets T"
    and "prepare N T client routes policies g k = (Some prepared, k')"
    and "\<forall>n \<in> set (pp_names prepared). k'' n = k' n"
    and "pk_ct p = CtNew" and "pk_in p = IFNAME"
    and "policy \<in> set policies" and "pk_src p \<in> set (gp_peers policy)" and "block_of p \<in> set (gp_cooldown_blocks policy)"
    and "\<forall>access. same_origin = Some access \<longrightarrow> (pk_dst p, pk_dport p) \<notin> {(so_ingress access, 443), (so_dns access, 53)}"
  shows "walk (members k'') call (forwarding_rule_plan (pp_all_peers prepared) (pp_sets prepared) same_origin) p = Some Dropped
    \<and> walk (members k'') call (input_rule_plan (pp_all_peers prepared) (pp_sets prepared) routes guarded same_origin) p = Some Dropped"
proof -
  have gen: "loaded_generation N client routes policies g k''"
    using ip_sets.prepare_loads(1) [OF assms(2,3), of k''] assms(4) by blast
  have "\<not> opened policies p" by (rule loaded_generation.cooled_not_opened [OF gen assms(7-9)])
  then show ?thesis
    using assms(10) by (auto simp: forward_new_verdict [OF assms(1-6)] input_new_verdict [OF assms(1-6)])
qed

definition sample_cooled :: game_vpn_policy where
  "sample_cooled = sample_policy \<lparr> gp_cooldown_blocks := [\<lparr> cb_peer = 168624133, cb_target = sample_target \<rparr>] \<rparr>"

definition sample_cooled_generation :: "prepared_policy option \<times> ipset_table" where
  "sample_cooled_generation =
    prepare cidr_blocks script_loader (168624128, 19) [sample_route] [sample_cooled] (lit ''deadbeef'') Map.empty"

lemma sample_cooled_generation_loads:
  "prepare cidr_blocks script_loader (168624128, 19) [sample_route] [sample_cooled] (lit ''deadbeef'') Map.empty
    = (Some (the (fst sample_cooled_generation)), snd sample_cooled_generation)"
proof -
  have "fst (load_script False (prepare_lines cidr_blocks (168624128, 19) [sample_route] [sample_cooled] (lit ''deadbeef''))
      Map.empty)"
    by (simp add: prepare_lines_def policy_lines_def target_lines_def endpoint_lines_def block_lines_def sets_of_policy_def
        policy_set_name_def sample_cooled_def sample_policy_def sample_target_def sample_route_def cidr_blocks_def cidr_first_def
        cidr_last_def cidr_size_def TARGET_PROTOCOLS_def lit_def dec_digits.simps endpoint_text_def triple_text_def
        show_ipv4_def octet_def)
  then show ?thesis
    by (auto simp: sample_cooled_generation_def prepare_def Let_def script_loader_def split: prod.splits bool.splits)
qed

theorem cooldown_drops_new_connections_witness:
  "ipt_walk (members (snd sample_cooled_generation)) (\<lambda>_ _. None)
     (forwarding_rule_plan (pp_all_peers (the (fst sample_cooled_generation))) (pp_sets (the (fst sample_cooled_generation))) None)
     sample_packet = Some Dropped"
  using cooldown_drops_new_connections [OF ipt.packet_filter_axioms loader.ip_sets_axioms sample_cooled_generation_loads
      _ sample_packet_new, of "snd sample_cooled_generation" sample_cooled None "\<lambda>_ _. None"]
  by (simp add: sample_cooled_def sample_policy_def sample_packet_def sample_target_def)

section \<open>Transitions\<close>

text \<open>
  C9. No window during a change of policy. Once the quarantine of a transition is installed, a
  packet from the tunnel on a connection that the old policy of a game opened and its new one does not is
  dropped on both paths, whichever generation of sets and rules the chains hold at that moment: the old
  one, the new one or any other.
\<close>

theorem transition_leaves_no_window:
  assumes "packet_filter reads walk" and "ip_sets T"
    and "distinct (map gp_game_id (as_policies previous))"
    and "q = make_transition_quarantine previous desired"
    and "install_quarantine T (tq_peers q) (tq_blocks q) k = (True, k')"
    and "old \<in> set (as_policies previous)" and "grants old (pk_src p) (target_of p)"
    and "\<forall>new \<in> set (as_policies desired). gp_game_id new = gp_game_id old \<longrightarrow> \<not> grants new (pk_src p) (target_of p)"
    and "pk_in p = IFNAME" and "ported p"
  shows "walk (members k') call (forwarding_rule_plan all_peers sets same_origin) p = Some Dropped
    \<and> walk (members k') call (input_rule_plan all_peers sets routes guarded same_origin) p = Some Dropped"
proof -
  have "pk_src p \<in> set (tq_peers q) \<or> block_of p \<in> set (tq_blocks q)"
    using lost_grant_quarantined [OF assms(3,6-8)] unfolding assms(4) tq_peer_iff tq_block_iff by simp
  then have "members k' QUARANTINE_SET (show_ipv4 (pk_src p))
      \<or> members k' TRANSITION_BLOCK_SET (triple_text (pk_src p) (pk_proto p) (pk_dport p) (pk_dst p))"
    using ip_sets.quarantine_installed [OF assms(2,5)] assms(10) by (fastforce simp: ported_iff)
  then have "denied (members k') p" using assms(9,10) by (auto simp: denied_def)
  then show ?thesis
    by (simp add: packet_filter.forwarding_verdict [OF assms(1)] packet_filter.input_verdict [OF assms(1)])
qed

theorem transition_leaves_no_window_witness:
  "ipt_walk (members (snd (install_quarantine script_loader [168624133] [] Map.empty))) (\<lambda>_ _. None)
     (forwarding_rule_plan [] [] None) sample_packet = Some Dropped"
proof -
  let ?q = "make_transition_quarantine sample_state (sample_state \<lparr> as_policies := [] \<rparr>)"
  have q: "tq_peers ?q = [168624133]" "tq_blocks ?q = []"
    by (simp_all add: make_transition_quarantine_def quarantined_peers_def quarantined_blocks_def sample_state_def
        sample_policy_def policy_of_def)
  have "install_quarantine script_loader (tq_peers ?q) (tq_blocks ?q) Map.empty
      = (True, snd (install_quarantine script_loader [168624133] [] Map.empty))"
    unfolding q
    by (simp add: install_quarantine_def ensure_transition_sets_def ensure_transition_lines_def quarantine_lines_def
        script_loader_def set_names)
  note installed = this
  have "grants sample_policy (pk_src sample_packet) (target_of sample_packet)" "ported sample_packet"
    by (simp_all add: sample_policy_def sample_packet_def sample_target_def grants_def ported_def)
  then show ?thesis
    using transition_leaves_no_window [OF ipt.packet_filter_axioms loader.ip_sets_axioms _ refl installed,
        of sample_policy sample_packet "\<lambda>_ _. None" "[]" "[]" None "[sample_route]" True] sample_packet_new
    by (simp add: sample_state_def)
qed

end
