(* ===== verification/Vpn_Capture.thy ===== *)
theory Vpn_Capture
  imports Vpn_Sets
begin

text \<open>
  The capture gate, from \<^verbatim>\<open>src/services/ad/vpn/capture_policy.rs\<close>: endpoints whose traffic must be captured
  are open only while a capture owner keeps them live. The rows of the query are arguments; the state is the one
  right after the script, before entries time out.
\<close>

section \<open>Scripts of the gate\<close>

definition KERNEL_LIVE_TIMEOUT_SECONDS :: nat where "KERNEL_LIVE_TIMEOUT_SECONDS = 15"
definition REQUIRED_STAGE_SET :: ustr where "REQUIRED_STAGE_SET = lit ''rsv_capture_req_stage''"
definition LIVE_STAGE_SET :: ustr where "LIVE_STAGE_SET = lit ''rsv_capture_live_stage''"

record endpoint_row =
  er_host :: ustr
  er_port :: int
  er_live :: bool

definition capture_endpoint :: "((ipv4 \<times> nat) \<times> bool) list \<Rightarrow> endpoint_row \<Rightarrow> ((ipv4 \<times> nat) \<times> bool) list" where
  "capture_endpoint endpoints row =
    (case parse_ipv4 (str_trim (er_host row)) of
       None \<Rightarrow> endpoints
     | Some host \<Rightarrow>
         (case port_u16 (er_port row) of
            None \<Rightarrow> endpoints
          | Some port \<Rightarrow>
              AList.update (host, port)
                (case map_of endpoints (host, port) of Some live \<Rightarrow> live \<or> er_live row | None \<Rightarrow> er_live row) endpoints))"

definition capture_lines :: "(ipv4 \<times> nat) \<times> bool \<Rightarrow> ipset_line list" where
  "capture_lines endpoint =
    (case endpoint of ((host, port), live) \<Rightarrow>
       concat (map (\<lambda>protocol.
         AddEntry REQUIRED_STAGE_SET (endpoint_text host protocol port)
         # (if live then [AddTimed LIVE_STAGE_SET (endpoint_text host protocol port) KERNEL_LIVE_TIMEOUT_SECONDS] else []))
         TARGET_PROTOCOLS))"

definition capture_set_script :: "endpoint_row list \<Rightarrow> ipset_line list" where
  "capture_set_script rows =
    [CreateSet REQUIRED_SET ''hash:ip,port'', CreateSet REQUIRED_STAGE_SET ''hash:ip,port'',
     CreateTimed LIVE_SET ''hash:ip,port'' KERNEL_LIVE_TIMEOUT_SECONDS,
     CreateTimed LIVE_STAGE_SET ''hash:ip,port'' KERNEL_LIVE_TIMEOUT_SECONDS,
     FlushSet REQUIRED_STAGE_SET, FlushSet LIVE_STAGE_SET]
    @ concat (map capture_lines (sort_key fst (foldl capture_endpoint [] rows)))
    @ [SwapSets LIVE_STAGE_SET LIVE_SET, SwapSets REQUIRED_STAGE_SET REQUIRED_SET,
       FlushSet REQUIRED_STAGE_SET, FlushSet LIVE_STAGE_SET]"

definition empty_live_set_script :: "ipset_line list" where
  "empty_live_set_script =
    [CreateTimed LIVE_SET ''hash:ip,port'' KERNEL_LIVE_TIMEOUT_SECONDS,
     CreateTimed LIVE_STAGE_SET ''hash:ip,port'' KERNEL_LIVE_TIMEOUT_SECONDS,
     FlushSet LIVE_STAGE_SET, SwapSets LIVE_STAGE_SET LIVE_SET, FlushSet LIVE_STAGE_SET]"


section \<open>What a refresh leaves behind\<close>

fun staged :: "ipset_line list \<Rightarrow> (ustr \<times> ustr) list" where
  "staged [] = []"
| "staged (AddEntry n e # ls) = (n, e) # staged ls"
| "staged (AddTimed n e s # ls) = (n, e) # staged ls"
| "staged (l # ls) = staged ls"

definition adds_only :: "ipset_line list \<Rightarrow> bool" where
  "adds_only ls \<longleftrightarrow> (\<forall>l \<in> set ls. (\<exists>n e. l = AddEntry n e) \<or> (\<exists>n e s. l = AddTimed n e s))"

lemma staged_append [simp]: "staged (xs @ ys) = staged xs @ staged ys"
  by (induction xs rule: staged.induct) auto

lemma staged_concat: "staged (concat xss) = concat (map staged xss)"
  by (induction xss) auto

context ip_sets
begin

lemma restore_staged:
  "it_restore T True (ls @ rest) k = (True, k') \<Longrightarrow> adds_only ls
    \<Longrightarrow> \<exists>k1. it_restore T True rest k1 = (True, k') \<and> (\<forall>n. k1 n = map_option (\<lambda>es. es \<union> {e. (n, e) \<in> set (staged ls)}) (k n))"
proof (induction ls arbitrary: k)
  case Nil
  then show ?case by (intro exI [of _ k]) (auto simp: option.map_ident)
next
  case (Cons l ls)
  from Cons.prems(2) obtain m d where l: "staged (l # ls) = (m, d) # staged ls"
    and cases: "l = AddEntry m d \<or> (\<exists>s. l = AddTimed m d s)" by (auto simp: adds_only_def)
  have "\<exists>es. k m = Some es \<and> it_restore T True (ls @ rest) (k(m \<mapsto> insert d es)) = (True, k')"
    using cases
  proof (elim disjE exE)
    assume "l = AddEntry m d"
    with Cons.prems(1) have "it_restore T True (AddEntry m d # ls @ rest) k = (True, k')" by simp
    from restore_add [OF this] show ?thesis by blast
  next
    fix s assume "l = AddTimed m d s"
    with Cons.prems(1) have "it_restore T True (AddTimed m d s # ls @ rest) k = (True, k')" by simp
    from restore_add_timed [OF this] show ?thesis by blast
  qed
  then obtain es where es: "k m = Some es" "it_restore T True (ls @ rest) (k(m \<mapsto> insert d es)) = (True, k')"
    by blast
  have "adds_only ls" using Cons.prems(2) by (simp add: adds_only_def)
  from Cons.IH [OF es(2) this] obtain k1 where k1: "it_restore T True rest k1 = (True, k')"
    "\<And>n. k1 n = map_option (\<lambda>es. es \<union> {e. (n, e) \<in> set (staged ls)}) ((k(m \<mapsto> insert d es)) n)" by blast
  have "k1 n = map_option (\<lambda>es. es \<union> {e. (n, e) \<in> set (staged (l # ls))}) (k n)" for n
    using es(1) unfolding k1(2) l by (cases "n = m"; cases "k n") auto
  then show ?case using k1(1) by blast
qed

lemma restore_create_exist:
  assumes "it_restore T True (l # ls) k = (True, k')" and "l = CreateSet n u \<or> l = CreateTimed n u s"
  obtains k1 where "it_restore T True ls k1 = (True, k')" and "n \<in> dom k1" and "\<And>m. m \<noteq> n \<Longrightarrow> k1 m = k m"
    and "n \<in> dom k \<Longrightarrow> k1 n = k n"
proof -
  from assms have "n \<notin> dom k \<and> it_restore T True ls (k(n \<mapsto> {})) = (True, k') \<or> n \<in> dom k \<and> it_restore T True ls k = (True, k')"
    using restore_create [of True n u ls k k'] restore_create_timed [of True n u s ls k k'] by blast
  then show thesis
  proof
    assume "n \<notin> dom k \<and> it_restore T True ls (k(n \<mapsto> {})) = (True, k')"
    then show thesis by (intro that [of "k(n \<mapsto> {})"]) auto
  next
    assume "n \<in> dom k \<and> it_restore T True ls k = (True, k')"
    then show thesis by (intro that [of k]) auto
  qed
qed

lemma capture_script_result:
  assumes "it_restore T True
      ([CreateSet REQUIRED_SET u, CreateSet REQUIRED_STAGE_SET u, CreateTimed LIVE_SET u s, CreateTimed LIVE_STAGE_SET u s,
        FlushSet REQUIRED_STAGE_SET, FlushSet LIVE_STAGE_SET] @ ls
       @ [SwapSets LIVE_STAGE_SET LIVE_SET, SwapSets REQUIRED_STAGE_SET REQUIRED_SET,
          FlushSet REQUIRED_STAGE_SET, FlushSet LIVE_STAGE_SET]) k = (True, k')"
    and "adds_only ls"
  shows "k' REQUIRED_SET = Some {e. (REQUIRED_STAGE_SET, e) \<in> set (staged ls)}"
    and "k' LIVE_SET = Some {e. (LIVE_STAGE_SET, e) \<in> set (staged ls)}"
proof -
  have names: "distinct [REQUIRED_SET, REQUIRED_STAGE_SET, LIVE_SET, LIVE_STAGE_SET]"
    by (simp add: REQUIRED_SET_def REQUIRED_STAGE_SET_def LIVE_SET_def LIVE_STAGE_SET_def)
  let ?swaps = "[SwapSets LIVE_STAGE_SET LIVE_SET, SwapSets REQUIRED_STAGE_SET REQUIRED_SET,
          FlushSet REQUIRED_STAGE_SET, FlushSet LIVE_STAGE_SET]"
  from assms(1) obtain k1 where k1: "it_restore T True
      ([CreateSet REQUIRED_STAGE_SET u, CreateTimed LIVE_SET u s, CreateTimed LIVE_STAGE_SET u s,
        FlushSet REQUIRED_STAGE_SET, FlushSet LIVE_STAGE_SET] @ ls @ ?swaps) k1 = (True, k')"
    unfolding append_Cons by (rule restore_create_exist) auto
  from k1 obtain k2 where k2: "it_restore T True ([CreateTimed LIVE_SET u s, CreateTimed LIVE_STAGE_SET u s,
        FlushSet REQUIRED_STAGE_SET, FlushSet LIVE_STAGE_SET] @ ls @ ?swaps) k2 = (True, k')"
    unfolding append_Cons by (rule restore_create_exist) auto
  from k2 obtain k3 where k3: "it_restore T True ([CreateTimed LIVE_STAGE_SET u s,
        FlushSet REQUIRED_STAGE_SET, FlushSet LIVE_STAGE_SET] @ ls @ ?swaps) k3 = (True, k')"
    unfolding append_Cons by (rule restore_create_exist) auto
  from k3 obtain k4 where k4: "it_restore T True ([FlushSet REQUIRED_STAGE_SET, FlushSet LIVE_STAGE_SET] @ ls @ ?swaps) k4 = (True, k')"
    unfolding append_Cons by (rule restore_create_exist) auto
  define k5 where "k5 = k4(REQUIRED_STAGE_SET \<mapsto> {}, LIVE_STAGE_SET \<mapsto> {})"
  have "it_restore T True (ls @ ?swaps) k5 = (True, k')"
    using restore_flush [of True REQUIRED_STAGE_SET "FlushSet LIVE_STAGE_SET # ls @ ?swaps" k4 k'] k4
      restore_flush [of True LIVE_STAGE_SET "ls @ ?swaps" "k4(REQUIRED_STAGE_SET \<mapsto> {})" k']
    unfolding k5_def by simp
  from restore_staged [OF this assms(2)] obtain k6 where k6: "it_restore T True ?swaps k6 = (True, k')"
    and e6: "\<And>n. k6 n = map_option (\<lambda>es. es \<union> {e. (n, e) \<in> set (staged ls)}) (k5 n)" by blast
  define k7 where "k7 = k6(LIVE_STAGE_SET := k6 LIVE_SET, LIVE_SET := k6 LIVE_STAGE_SET)"
  define k8 where "k8 = k7(REQUIRED_STAGE_SET := k7 REQUIRED_SET, REQUIRED_SET := k7 REQUIRED_STAGE_SET)"
  have k8: "it_restore T True [FlushSet REQUIRED_STAGE_SET, FlushSet LIVE_STAGE_SET] k8 = (True, k')"
    using restore_swap [OF k6] restore_swap [of True REQUIRED_STAGE_SET REQUIRED_SET _ k7 k'] unfolding k7_def k8_def by blast
  have "k' = k8(REQUIRED_STAGE_SET \<mapsto> {}, LIVE_STAGE_SET \<mapsto> {})"
    using restore_flush [OF k8] restore_flush [of True LIVE_STAGE_SET "[]" "k8(REQUIRED_STAGE_SET \<mapsto> {})" k']
      restore_nil [of True "k8(REQUIRED_STAGE_SET \<mapsto> {}, LIVE_STAGE_SET \<mapsto> {})"] by simp
  then show "k' REQUIRED_SET = Some {e. (REQUIRED_STAGE_SET, e) \<in> set (staged ls)}"
    "k' LIVE_SET = Some {e. (LIVE_STAGE_SET, e) \<in> set (staged ls)}"
    using names by (auto simp: k8_def k7_def e6 k5_def)
qed

lemma fence_script_result:
  assumes "it_restore T True
      [CreateTimed LIVE_SET u s, CreateTimed LIVE_STAGE_SET u s, FlushSet LIVE_STAGE_SET, SwapSets LIVE_STAGE_SET LIVE_SET,
       FlushSet LIVE_STAGE_SET] k = (True, k')"
  shows "k' LIVE_SET = Some {}" and "n \<notin> {LIVE_SET, LIVE_STAGE_SET} \<Longrightarrow> k' n = k n"
proof -
  have names: "LIVE_SET \<noteq> LIVE_STAGE_SET" by (simp add: LIVE_SET_def LIVE_STAGE_SET_def)
  from assms obtain k1 where k1: "it_restore T True
      [CreateTimed LIVE_STAGE_SET u s, FlushSet LIVE_STAGE_SET, SwapSets LIVE_STAGE_SET LIVE_SET, FlushSet LIVE_STAGE_SET] k1 = (True, k')"
    and e1: "\<And>m. m \<noteq> LIVE_SET \<Longrightarrow> k1 m = k m"
    by (rule restore_create_exist) auto
  from k1 obtain k2 where k2: "it_restore T True
      [FlushSet LIVE_STAGE_SET, SwapSets LIVE_STAGE_SET LIVE_SET, FlushSet LIVE_STAGE_SET] k2 = (True, k')"
    and e2: "\<And>m. m \<noteq> LIVE_STAGE_SET \<Longrightarrow> k2 m = k1 m"
    by (rule restore_create_exist) auto
  define k3 where "k3 = k2(LIVE_STAGE_SET \<mapsto> {})"
  define k4 where "k4 = k3(LIVE_STAGE_SET := k3 LIVE_SET, LIVE_SET := k3 LIVE_STAGE_SET)"
  have k4: "it_restore T True [FlushSet LIVE_STAGE_SET] k4 = (True, k')"
    using restore_flush [OF k2] restore_swap [of True LIVE_STAGE_SET LIVE_SET "[FlushSet LIVE_STAGE_SET]" k3 k']
    unfolding k3_def k4_def by blast
  have "k' = k4(LIVE_STAGE_SET \<mapsto> {})"
    using restore_flush [OF k4] restore_nil [of True "k4(LIVE_STAGE_SET \<mapsto> {})"] by simp
  then show "k' LIVE_SET = Some {}" and "n \<notin> {LIVE_SET, LIVE_STAGE_SET} \<Longrightarrow> k' n = k n"
    using names e1 e2 by (auto simp: k4_def k3_def)
qed

end

text \<open>The endpoint a row names, if its host is an IPv4 address and its port a valid one.\<close>

definition names_endpoint :: "endpoint_row \<Rightarrow> ipv4 \<Rightarrow> nat \<Rightarrow> bool" where
  "names_endpoint row a n \<longleftrightarrow> parse_ipv4 (str_trim (er_host row)) = Some a \<and> port_u16 (er_port row) = Some n"

lemma map_of_capture:
  "distinct (map fst (foldl capture_endpoint [] rows)) \<and>
   map_of (foldl capture_endpoint [] rows) (a, n) =
    (if \<exists>row \<in> set rows. names_endpoint row a n then Some (\<exists>row \<in> set rows. names_endpoint row a n \<and> er_live row) else None)"
proof (induction rows arbitrary: a n rule: rev_induct)
  case Nil
  then show ?case by simp
next
  case (snoc row rows)
  have d: "distinct (map fst (capture_endpoint es row))" if "distinct (map fst es)" for es
    using that by (auto simp: capture_endpoint_def split: option.splits intro: distinct_update)
  have "map_of (capture_endpoint (foldl capture_endpoint [] rows) row) (a, n) =
      (if names_endpoint row a n
       then Some (case map_of (foldl capture_endpoint [] rows) (a, n) of Some live \<Rightarrow> live \<or> er_live row | None \<Rightarrow> er_live row)
       else map_of (foldl capture_endpoint [] rows) (a, n))"
    by (auto simp: capture_endpoint_def names_endpoint_def update_conv' split: option.splits)
  then show ?case using d snoc by auto
qed

lemma staged_capture:
  "adds_only (concat (map capture_lines xs))"
  "(REQUIRED_STAGE_SET, e) \<in> set (staged (concat (map capture_lines xs))) \<longleftrightarrow>
    (\<exists>a n l. \<exists>q \<in> set TARGET_PROTOCOLS. ((a, n), l) \<in> set xs \<and> e = endpoint_text a q n)"
  "(LIVE_STAGE_SET, e) \<in> set (staged (concat (map capture_lines xs))) \<longleftrightarrow>
    (\<exists>a n. \<exists>q \<in> set TARGET_PROTOCOLS. ((a, n), True) \<in> set xs \<and> e = endpoint_text a q n)"
proof -
  have names: "REQUIRED_STAGE_SET \<noteq> LIVE_STAGE_SET" by (simp add: REQUIRED_STAGE_SET_def LIVE_STAGE_SET_def)
  have one: "set (staged (capture_lines ((a, n), l))) =
      {(REQUIRED_STAGE_SET, endpoint_text a q n) | q. q \<in> set TARGET_PROTOCOLS}
      \<union> {(LIVE_STAGE_SET, endpoint_text a q n) | q. q \<in> set TARGET_PROTOCOLS \<and> l}" for a n l
    by (auto simp: capture_lines_def TARGET_PROTOCOLS_def)
  show "adds_only (concat (map capture_lines xs))"
    by (auto simp: adds_only_def capture_lines_def TARGET_PROTOCOLS_def)
  show "(REQUIRED_STAGE_SET, e) \<in> set (staged (concat (map capture_lines xs))) \<longleftrightarrow>
      (\<exists>a n l. \<exists>q \<in> set TARGET_PROTOCOLS. ((a, n), l) \<in> set xs \<and> e = endpoint_text a q n)"
    using names by (force simp: staged_concat one)
  show "(LIVE_STAGE_SET, e) \<in> set (staged (concat (map capture_lines xs))) \<longleftrightarrow>
      (\<exists>a n. \<exists>q \<in> set TARGET_PROTOCOLS. ((a, n), True) \<in> set xs \<and> e = endpoint_text a q n)"
    using names by (force simp: staged_concat one)
qed

lemma capture_endpoints_iff:
  "((a, n), l) \<in> set (foldl capture_endpoint [] rows) \<longleftrightarrow>
    (\<exists>row \<in> set rows. names_endpoint row a n) \<and> l = (\<exists>row \<in> set rows. names_endpoint row a n \<and> er_live row)"
proof -
  note m = map_of_capture [of rows a n]
  have "((a, n), l) \<in> set (foldl capture_endpoint [] rows) \<longleftrightarrow> map_of (foldl capture_endpoint [] rows) (a, n) = Some l"
    using map_of_eq_Some_iff [OF conjunct1 [OF m], of "(a, n)" l] by auto
  then show ?thesis using m by auto
qed

text \<open>
  C11. The capture gate is exact and closes at once. Right after a refresh, a TCP or UDP packet to an
  endpoint is gated exactly when some row requires the endpoint's capture and no row for it is live. After
  the emergency fence every endpoint that is still required is gated, whatever was live before.
\<close>

theorem capture_gate_exact:
  assumes "ip_sets T" and "ported p"
  shows "(it_restore T True (capture_set_script rows) k = (True, k') \<longrightarrow>
      ((members k' REQUIRED_SET (endpoint_text (pk_dst p) (pk_proto p) (pk_dport p))
        \<and> \<not> members k' LIVE_SET (endpoint_text (pk_dst p) (pk_proto p) (pk_dport p)))
       \<longleftrightarrow> (\<exists>row \<in> set rows. names_endpoint row (pk_dst p) (pk_dport p))
           \<and> (\<forall>row \<in> set rows. names_endpoint row (pk_dst p) (pk_dport p) \<longrightarrow> \<not> er_live row)))
    \<and> (it_restore T True empty_live_set_script k = (True, k') \<longrightarrow>
      \<not> members k' LIVE_SET e \<and> k' REQUIRED_SET = k REQUIRED_SET)"
proof (intro conjI impI)
  let ?ls = "concat (map capture_lines (sort_key fst (foldl capture_endpoint [] rows)))"
  let ?e = "endpoint_text (pk_dst p) (pk_proto p) (pk_dport p)"
  have q: "pk_proto p \<in> set TARGET_PROTOCOLS" using assms(2) by (simp add: ported_iff)
  assume "it_restore T True (capture_set_script rows) k = (True, k')"
  note sets = ip_sets.capture_script_result [OF assms(1) this [unfolded capture_set_script_def] staged_capture(1)]
  have "members k' REQUIRED_SET ?e \<longleftrightarrow> (\<exists>row \<in> set rows. names_endpoint row (pk_dst p) (pk_dport p))"
    unfolding members_def sets using q by (auto simp: staged_capture capture_endpoints_iff endpoint_text_inject)
  moreover have "members k' LIVE_SET ?e \<longleftrightarrow> (\<exists>row \<in> set rows. names_endpoint row (pk_dst p) (pk_dport p) \<and> er_live row)"
    unfolding members_def sets using q by (auto simp: staged_capture capture_endpoints_iff endpoint_text_inject)
  ultimately show "members k' REQUIRED_SET ?e \<and> \<not> members k' LIVE_SET ?e \<longleftrightarrow>
      (\<exists>row \<in> set rows. names_endpoint row (pk_dst p) (pk_dport p))
           \<and> (\<forall>row \<in> set rows. names_endpoint row (pk_dst p) (pk_dport p) \<longrightarrow> \<not> er_live row)" by blast
next
  assume "it_restore T True empty_live_set_script k = (True, k')"
  note sets = ip_sets.fence_script_result [OF assms(1) this [unfolded empty_live_set_script_def]]
  show "\<not> members k' LIVE_SET e" by (simp add: members_def sets(1))
  show "k' REQUIRED_SET = k REQUIRED_SET"
    by (rule sets(2)) (simp add: REQUIRED_SET_def LIVE_SET_def LIVE_STAGE_SET_def)
qed

definition sample_rows :: "endpoint_row list" where
  "sample_rows = [\<lparr> er_host = lit ''10.13.40.9'', er_port = 8080, er_live = False \<rparr>]"

theorem capture_gate_exact_witness:
  "\<not> members (snd (load_script True empty_live_set_script Map.empty)) LIVE_SET []"
  using capture_gate_exact [OF loader.ip_sets_axioms, of "\<lparr> pk_in = [], pk_out = [], pk_proto = lit ''tcp'', pk_src = 0,
      pk_dst = 168634377, pk_sport = 0, pk_dport = 8080, pk_ct = CtNew \<rparr>" sample_rows Map.empty
      "snd (load_script True empty_live_set_script Map.empty)" "[]"]
  by (simp add: ported_def script_loader_def empty_live_set_script_def LIVE_SET_def LIVE_STAGE_SET_def)

end
