(* ===== verification/Vpn_Routes.thy ===== *)
theory Vpn_Routes
  imports Vpn_Sets
begin

text \<open>
  How the firewall finds the interfaces of the service networks, from
  \<^verbatim>\<open>src/services/ad/vpn/firewall.rs\<close>: forwarding must be enabled, and the route of every
  network is read from the output of \<open>ip route\<close>. What the commands and \<open>/proc\<close> answer is an argument.
\<close>

section \<open>Text\<close>

text \<open>\<open>str::split_whitespace\<close>, \<open>str::lines\<close>, \<open>slice::windows(2)\<close>, \<open>str::contains\<close>, \<open>str::ends_with\<close> and \<open>join\<close>.\<close>

fun split_where :: "(nat \<Rightarrow> bool) \<Rightarrow> ustr \<Rightarrow> ustr list" where
  "split_where P [] = [[]]"
| "split_where P (c # s) =
    (if P c then [] # split_where P s
     else (case split_where P s of w # ws \<Rightarrow> (c # w) # ws | [] \<Rightarrow> [[c]]))"

definition split_whitespace :: "ustr \<Rightarrow> ustr list" where
  "split_whitespace s = filter (\<lambda>w. w \<noteq> []) (split_where char_whitespace s)"

definition strip_cr :: "ustr \<Rightarrow> ustr" where
  "strip_cr l = (if l \<noteq> [] \<and> last l = 13 then butlast l else l)"

definition str_lines :: "ustr \<Rightarrow> ustr list" where
  "str_lines s =
    (let parts = str_split 10 s
     in map strip_cr (butlast parts) @ (if last parts = [] then [] else [last parts]))"

definition windows2 :: "'a list \<Rightarrow> ('a \<times> 'a) list" where
  "windows2 xs = zip xs (tl xs)"

fun find_map :: "('a \<Rightarrow> 'b option) \<Rightarrow> 'a list \<Rightarrow> 'b option" where
  "find_map f [] = None"
| "find_map f (x # xs) = (case f x of Some y \<Rightarrow> Some y | None \<Rightarrow> find_map f xs)"

definition str_contains :: "ustr \<Rightarrow> ustr \<Rightarrow> bool" where
  "str_contains s part = list_ex (\<lambda>i. str_starts_with (drop i s) part) [0..<Suc (length s)]"

definition str_ends_with :: "ustr \<Rightarrow> ustr \<Rightarrow> bool" where
  "str_ends_with s part = str_starts_with (rev s) (rev part)"

fun join_with :: "ustr \<Rightarrow> ustr list \<Rightarrow> ustr" where
  "join_with sep [] = []"
| "join_with sep [w] = w"
| "join_with sep (w # v # ws) = w @ sep @ join_with sep (v # ws)"

section \<open>Commands\<close>

text \<open>What a child process gives: it could not be started, or its exit code (none after a signal) and its output.\<close>

datatype outcome = Unlaunched | Finished "int option" ustr

definition succeeded :: "outcome \<Rightarrow> bool" where
  "succeeded r = (case r of Finished (Some c) _ \<Rightarrow> c = 0 | _ \<Rightarrow> False)"

datatype fw_error =
    IpForwardUnreadable
  | IpForwardDisabled
  | NotExecuted string "ustr list"
  | CommandError string "ustr list" "int option"
  | NoSafeInterface ustr
  | RouteLoopsBack ustr
  | RouteNotDirect
  | RouteIsGateway
  | IpsetRestoreFailed
  | IpsetInspectFailed ustr
  | HubError ustr
  | UnknownHubError

text \<open>\<open>iptables_output\<close> and the checks of its callers: the output of a command that exited with success.\<close>

definition command_output :: "string \<Rightarrow> ustr list \<Rightarrow> outcome \<Rightarrow> (fw_error, ustr) result" where
  "command_output program arguments r =
    (case r of
       Unlaunched \<Rightarrow> Inl (NotExecuted program arguments)
     | Finished (Some code) out \<Rightarrow> if code = 0 then Inr out else Inl (CommandError program arguments (Some code))
     | Finished None _ \<Rightarrow> Inl (CommandError program arguments None))"

record host_view =
  hv_ip_forward :: "ustr option"
  hv_route_get :: "ustr \<Rightarrow> outcome"
  hv_route_exact :: "ustr \<Rightarrow> outcome"

definition verify_ip_forwarding :: "host_view \<Rightarrow> (fw_error, unit) result" where
  "verify_ip_forwarding host =
    (case hv_ip_forward host of
       None \<Rightarrow> Inl IpForwardUnreadable
     | Some value \<Rightarrow> if str_trim value = lit ''1'' then Inr () else Inl IpForwardDisabled)"

section \<open>Routes\<close>

definition route_probe :: "'n ipnet \<Rightarrow> 'n \<Rightarrow> ipv4" where
  "route_probe N network =
    (if ip_prefix_len N network = 32 then ip_network N network else sat_succ (ip_network N network))"

definition interface_byte :: "nat \<Rightarrow> bool" where
  "interface_byte b \<longleftrightarrow> ascii_alnum b \<or> b \<in> set (lit ''_.:-'')"

definition parse_route_interface :: "ustr \<Rightarrow> ustr option" where
  "parse_route_interface output =
    (case find_map (\<lambda>(w, v). if w = lit ''dev'' then Some v else None) (windows2 (split_whitespace output)) of
       None \<Rightarrow> None
     | Some word \<Rightarrow>
         let interface = hd (str_split 64 word)
         in if interface = [] \<or> str_len interface > 15 \<or> \<not> list_all interface_byte (str_bytes interface)
            then None else Some interface)"

definition parse_route_source :: "ustr \<Rightarrow> ipv4 option" where
  "parse_route_source output =
    find_map (\<lambda>(w, v). if w = lit ''src'' then parse_ipv4 v else None) (windows2 (split_whitespace output))"

definition direct_line :: "ustr \<Rightarrow> ustr \<Rightarrow> bool" where
  "direct_line interface line \<longleftrightarrow>
    lit ''via'' \<notin> set (split_whitespace line) \<and> parse_route_interface line = Some interface"

definition resolve_service_route :: "'n ipnet \<Rightarrow> host_view \<Rightarrow> 'n \<Rightarrow> (fw_error, 'n service_route) result" where
  "resolve_service_route N host network =
    (let probe = show_ipv4 (route_probe N network)
     in rbind (command_output ''ip'' (args [''-o'', ''-4'', ''route'', ''get''] @ [probe]) (hv_route_get host probe)) (\<lambda>get_text.
        case parse_route_interface get_text of
          None \<Rightarrow> Inl (NoSafeInterface (ip_show N network))
        | Some interface \<Rightarrow>
            if interface = IFNAME then Inl (RouteLoopsBack (ip_show N network))
            else rbind (command_output ''ip'' (args [''-o'', ''-4'', ''route'', ''show'', ''exact''] @ [ip_show N network])
                   (hv_route_exact host (ip_show N network))) (\<lambda>exact_text.
                 Inr \<lparr> sr_network = network, sr_interface = interface,
                       sr_directly_connected = list_ex (direct_line interface) (str_lines exact_text),
                       sr_local_address = parse_route_source get_text \<rparr>)))"

text \<open>\<open>collect\<close> into a result: the first error ends the iteration.\<close>

fun try_map :: "('a \<Rightarrow> ('e, 'b) result) \<Rightarrow> 'a list \<Rightarrow> ('e, 'b list) result" where
  "try_map f [] = Inr []"
| "try_map f (x # xs) = rbind (f x) (\<lambda>y. rbind (try_map f xs) (\<lambda>ys. Inr (y # ys)))"

definition resolve_service_routes ::
  "'n ipnet \<Rightarrow> host_view \<Rightarrow> 'n list \<Rightarrow> bool \<Rightarrow> (fw_error, 'n service_route list) result" where
  "resolve_service_routes N host services require_direct =
    rbind (try_map (resolve_service_route N host) services) (\<lambda>routes.
      if require_direct \<and> list_ex (\<lambda>route. \<not> sr_directly_connected route) routes then Inl RouteNotDirect
      else if require_direct \<and> list_ex (\<lambda>route. sr_local_address route = Some (route_probe N (sr_network route))) routes
      then Inl RouteIsGateway
      else Inr routes)"

definition route_text :: "'n ipnet \<Rightarrow> 'n service_route \<Rightarrow> ustr" where
  "route_text N route =
    ip_show N (sr_network route) @ lit ''|'' @ sr_interface route @ lit ''|''
    @ lit (if sr_directly_connected route then ''true'' else ''false'') @ lit ''|''
    @ (case sr_local_address route of None \<Rightarrow> [] | Some address \<Rightarrow> show_ipv4 address)"

definition service_route_fingerprint :: "'n ipnet \<Rightarrow> host_view \<Rightarrow> 'n list \<Rightarrow> bool \<Rightarrow> (fw_error, ustr) result" where
  "service_route_fingerprint N host services require_direct =
    rbind (verify_ip_forwarding host) (\<lambda>_.
    rbind (resolve_service_routes N host services require_direct) (\<lambda>routes.
    Inr (join_with (lit '';'') (map (route_text N) routes))))"

section \<open>What a resolved route is\<close>

text \<open>A name that can stand as one argument of a rule.\<close>

definition plain_word :: "ustr \<Rightarrow> bool" where
  "plain_word w \<longleftrightarrow> w \<noteq> [] \<and> (\<forall>c \<in> set w. 32 < c \<and> c \<noteq> 34)"

lemma plain_word_names [simp]:
  "plain_word IFNAME" "plain_word INPUT_CHAIN" "plain_word FORWARD_DISPATCH_CHAIN" "plain_word LOCK_INPUT_CHAIN"
  "plain_word LOCK_FORWARD_CHAIN" "plain_word (lit ''-i'')" "plain_word (lit ''-j'')" "plain_word (lit ''INPUT'')"
  "plain_word (lit ''FORWARD'')"
  by (simp_all add: plain_word_def IFNAME_def chain_names lit_def)

lemma interface_byte_plain: "interface_byte b \<Longrightarrow> 32 < b \<and> b \<noteq> 34 \<and> b < 128"
  by (auto simp: interface_byte_def ascii_alnum_def ascii_alpha_def ascii_lower_def ascii_upper_def ascii_digit_def lit_def)

lemma parse_route_interface_plain:
  assumes "parse_route_interface output = Some interface"
  shows "plain_word interface \<and> str_len interface \<le> 15"
proof -
  have i: "interface \<noteq> []" "str_len interface \<le> 15" "\<forall>b \<in> set (str_bytes interface). interface_byte b"
    using assms by (auto simp: parse_route_interface_def Let_def list_all_iff split: option.splits if_splits)
  have "32 < c \<and> c \<noteq> 34" if "c \<in> set interface" for c
  proof (cases "c < 128")
    case True
    then have "c \<in> set (str_bytes interface)" using that by (auto simp: str_bytes_def intro!: bexI [of _ c])
    then show ?thesis using i(3) interface_byte_plain by blast
  next
    case False
    obtain b where b: "b \<in> set (utf8 c)" using utf8_not_Nil [of c] by (meson list.set_sel(1))
    have "b \<in> set (str_bytes interface)" using that b by (auto simp: str_bytes_def)
    then show ?thesis using utf8_non_ascii [of c b] False b i(3) interface_byte_plain [of b] by auto
  qed
  then show ?thesis using i by (auto simp: plain_word_def)
qed

lemma resolve_service_route_Inr:
  assumes "resolve_service_route N host network = Inr route"
  shows "sr_network route = network \<and> sr_interface route \<noteq> IFNAME \<and> plain_word (sr_interface route)"
  using assms parse_route_interface_plain
  by (auto simp: resolve_service_route_def Let_def rbind_eq_Inr split: option.splits if_splits)

lemma try_map_Inr: "try_map f xs = Inr ys \<Longrightarrow> list_all2 (\<lambda>x y. f x = Inr y) xs ys"
  by (induction xs arbitrary: ys) (auto simp: rbind_eq_Inr)

lemma resolved_routes:
  assumes "resolve_service_routes N host services guard = Inr routes"
  shows "map sr_network routes = services"
    and "\<forall>route \<in> set routes. sr_interface route \<noteq> IFNAME \<and> plain_word (sr_interface route)"
proof -
  have "list_all2 (\<lambda>n r. resolve_service_route N host n = Inr r) services routes"
    using assms try_map_Inr by (auto simp: resolve_service_routes_def rbind_eq_Inr split: if_splits)
  then have "list_all2 (\<lambda>n r. sr_network r = n \<and> sr_interface r \<noteq> IFNAME \<and> plain_word (sr_interface r)) services routes"
    by (rule list_all2_mono) (rule resolve_service_route_Inr)
  then show "map sr_network routes = services"
    and "\<forall>route \<in> set routes. sr_interface route \<noteq> IFNAME \<and> plain_word (sr_interface route)"
    by (induction rule: list_all2_induct) auto
qed

lemma direct_interfaces_plain:
  assumes "\<forall>route \<in> set routes. sr_interface route \<noteq> IFNAME \<and> plain_word (sr_interface route)"
  shows "\<forall>i \<in> set (direct_interfaces routes). i \<noteq> IFNAME \<and> plain_word i"
  using assms by (auto simp: direct_interfaces_def)

lemma distinct_direct_interfaces: "distinct (direct_interfaces routes)"
  by (simp add: direct_interfaces_def distinct_foldl_push_new)

end
