(* ===== verification/Vpn_Netfilter.thy ===== *)
theory Vpn_Netfilter
  imports Vpn_Routes
begin

text \<open>
  Editing the chains of the kernel, from \<^verbatim>\<open>src/services/ad/vpn/firewall.rs\<close>: the commands
  that the code runs, as actions on the chains and sets of the kernel that may fail after every
  command, and the loop that deletes every copy of a rule. What \<open>iptables\<close> and \<open>iptables-restore\<close> do is
  the locale \<open>netfilter\<close>; total correctness is stated with weakest preconditions.
\<close>

section \<open>The kernel\<close>

text \<open>The rules of a chain by table and name; a rule is the arguments that made it.\<close>

type_synonym chain_table = "ustr \<times> ustr \<rightharpoonup> rule list"

datatype restore_line =
    FlushLine ustr
  | AppendLine ustr rule
  | InsertLine ustr nat rule

record netfilter_tool =
  nf_run :: "ustr list \<Rightarrow> chain_table \<Rightarrow> outcome \<times> chain_table"
  nf_restore :: "ustr \<Rightarrow> restore_line list \<Rightarrow> chain_table \<Rightarrow> outcome \<times> chain_table"
  nf_ipset :: "chain_table \<Rightarrow> ipset_tool"
  nf_set_names :: "ipset_table \<Rightarrow> ustr list option"
  nf_list_set :: "ustr \<Rightarrow> ipset_table \<Rightarrow> outcome"

text \<open>The WireGuard interface: its private key, its port, and the allowed addresses of each peer by public key.\<close>

record hub_interface =
  hi_key :: "ustr option"
  hi_port :: nat
  hi_peers :: "(ustr \<times> ustr list) list"

record kernel =
  kn_chains :: chain_table
  kn_sets :: ipset_table
  kn_hub :: "hub_interface option"

text \<open>The text of a restore script, as the code writes it.\<close>

fun restore_text :: "restore_line \<Rightarrow> ustr" where
  "restore_text (FlushLine chain) = lit ''-F '' @ chain @ [10]"
| "restore_text (AppendLine chain rule) = lit ''-A '' @ chain @ 32 # join_with [32] rule @ [10]"
| "restore_text (InsertLine chain position rule) =
    lit ''-I '' @ chain @ 32 # dec_digits position @ 32 # join_with [32] rule @ [10]"

definition restore_script :: "ustr \<Rightarrow> restore_line list \<Rightarrow> ustr" where
  "restore_script table ls = 42 # table @ [10] @ concat (map restore_text ls) @ lit ''COMMIT'' @ [10]"

section \<open>Actions\<close>

text \<open>An action gives its result and the kernel it leaves; \<open>None\<close> is an action that never returns.\<close>

type_synonym 'a fw_action = "kernel \<Rightarrow> ((fw_error, 'a) result \<times> kernel) option"

definition fw_return :: "'a \<Rightarrow> 'a fw_action" where
  "fw_return a k = Some (Inr a, k)"

definition fw_result :: "(fw_error, 'a) result \<Rightarrow> 'a fw_action" where
  "fw_result r k = Some (r, k)"

definition fw_bind :: "'a fw_action \<Rightarrow> ('a \<Rightarrow> 'b fw_action) \<Rightarrow> 'b fw_action" where
  "fw_bind m f k =
    Option.bind (m k) (\<lambda>(r, k'). case r of Inl e \<Rightarrow> Some (Inl e, k') | Inr a \<Rightarrow> f a k')"

fun for_each :: "('a \<Rightarrow> unit fw_action) \<Rightarrow> 'a list \<Rightarrow> unit fw_action" where
  "for_each f [] = fw_return ()"
| "for_each f (x # xs) = fw_bind (f x) (\<lambda>_. for_each f xs)"

definition iptables_output :: "netfilter_tool \<Rightarrow> ustr list \<Rightarrow> kernel \<Rightarrow> outcome \<times> kernel" where
  "iptables_output K a k = (case nf_run K a (kn_chains k) of (r, n) \<Rightarrow> (r, k \<lparr> kn_chains := n \<rparr>))"

definition iptables :: "netfilter_tool \<Rightarrow> ustr list \<Rightarrow> unit fw_action" where
  "iptables K a k =
    (case iptables_output K a k of (r, k') \<Rightarrow> Some (rbind (command_output ''iptables'' a r) (\<lambda>_. Inr ()), k'))"

definition iptables_exists :: "netfilter_tool \<Rightarrow> ustr list \<Rightarrow> bool fw_action" where
  "iptables_exists K a k =
    (case iptables_output K a k of
       (Finished (Some code) _, k') \<Rightarrow>
         Some (if code = 0 then Inr True else if code = 1 then Inr False
               else Inl (CommandError ''iptables'' a (Some code)), k')
     | (Finished None _, k') \<Rightarrow> Some (Inl (CommandError ''iptables'' a None), k')
     | (Unlaunched, k') \<Rightarrow> Some (Inl (NotExecuted ''iptables'' a), k'))"

definition iptables_restore_noflush :: "netfilter_tool \<Rightarrow> ustr \<Rightarrow> restore_line list \<Rightarrow> unit fw_action" where
  "iptables_restore_noflush K table ls k =
    (case nf_restore K table ls (kn_chains k) of
       (r, n) \<Rightarrow> Some (rbind (command_output ''iptables-restore'' (args [''-w'', ''5'', ''--noflush'']) r) (\<lambda>_. Inr ()),
                       k \<lparr> kn_chains := n \<rparr>))"

definition ensure_chain_exists :: "netfilter_tool \<Rightarrow> ustr \<Rightarrow> ustr \<Rightarrow> unit fw_action" where
  "ensure_chain_exists K table chain =
    fw_bind (iptables_exists K [lit ''-t'', table, lit ''-S'', chain]) (\<lambda>found.
      if \<not> found then iptables K [lit ''-t'', table, lit ''-N'', chain] else fw_return ())"

definition ensure_chain :: "netfilter_tool \<Rightarrow> ustr \<Rightarrow> ustr \<Rightarrow> unit fw_action" where
  "ensure_chain K table chain =
    fw_bind (iptables_exists K [lit ''-t'', table, lit ''-S'', chain]) (\<lambda>found.
    fw_bind (if \<not> found then iptables K [lit ''-t'', table, lit ''-N'', chain] else fw_return ()) (\<lambda>_.
    iptables K [lit ''-t'', table, lit ''-F'', chain]))"

definition append_rule :: "netfilter_tool \<Rightarrow> ustr \<Rightarrow> ustr \<Rightarrow> rule \<Rightarrow> unit fw_action" where
  "append_rule K table chain rule = iptables K ([lit ''-t'', table, lit ''-A'', chain] @ rule)"

partial_function (option) remove_all_rules :: "netfilter_tool \<Rightarrow> ustr \<Rightarrow> ustr \<Rightarrow> rule \<Rightarrow> unit fw_action" where
  "remove_all_rules K table chain rule k =
    Option.bind (iptables_exists K ([lit ''-t'', table, lit ''-C'', chain] @ rule) k) (\<lambda>(found, k1).
      case found of
        Inl e \<Rightarrow> Some (Inl e, k1)
      | Inr present \<Rightarrow>
          if \<not> present then Some (Inr (), k1)
          else Option.bind (iptables K ([lit ''-t'', table, lit ''-D'', chain] @ rule) k1) (\<lambda>(deleted, k2).
                 case deleted of Inl e \<Rightarrow> Some (Inl e, k2) | Inr _ \<Rightarrow> remove_all_rules K table chain rule k2))"

definition insert_rule :: "netfilter_tool \<Rightarrow> ustr \<Rightarrow> ustr \<Rightarrow> rule \<Rightarrow> unit fw_action" where
  "insert_rule K table chain rule = iptables K ([lit ''-t'', table, lit ''-I'', chain, lit ''1''] @ rule)"

definition insert_rule_at :: "netfilter_tool \<Rightarrow> ustr \<Rightarrow> ustr \<Rightarrow> nat \<Rightarrow> rule \<Rightarrow> unit fw_action" where
  "insert_rule_at K table chain position rule =
    iptables K ([lit ''-t'', table, lit ''-I'', chain, dec_digits position] @ rule)"

section \<open>What the commands do\<close>

definition rules_in :: "chain_table \<Rightarrow> ustr \<Rightarrow> ustr \<Rightarrow> rule list" where
  "rules_in n table chain = (case n (table, chain) of None \<Rightarrow> [] | Some rs \<Rightarrow> rs)"

datatype chain_edit = NewChain | FlushChain | AppendRule rule | DeleteRule rule | InsertRule nat rule

fun edit_args :: "ustr \<Rightarrow> ustr \<Rightarrow> chain_edit \<Rightarrow> ustr list" where
  "edit_args t c NewChain = [lit ''-t'', t, lit ''-N'', c]"
| "edit_args t c FlushChain = [lit ''-t'', t, lit ''-F'', c]"
| "edit_args t c (AppendRule r) = [lit ''-t'', t, lit ''-A'', c] @ r"
| "edit_args t c (DeleteRule r) = [lit ''-t'', t, lit ''-D'', c] @ r"
| "edit_args t c (InsertRule i r) = [lit ''-t'', t, lit ''-I'', c, dec_digits i] @ r"

text \<open>The rules of a chain after an edit; \<open>None\<close> where the edit does not apply.\<close>

fun edit_rules :: "chain_edit \<Rightarrow> rule list option \<Rightarrow> rule list option" where
  "edit_rules NewChain None = Some []"
| "edit_rules NewChain (Some rs) = None"
| "edit_rules _ None = None"
| "edit_rules FlushChain (Some rs) = Some []"
| "edit_rules (AppendRule r) (Some rs) = Some (rs @ [r])"
| "edit_rules (DeleteRule r) (Some rs) = (if r \<in> set rs then Some (remove1 r rs) else None)"
| "edit_rules (InsertRule i r) (Some rs) =
    (if 1 \<le> i \<and> i \<le> length rs + 1 then Some (take (i - 1) rs @ r # drop (i - 1) rs) else None)"

fun line_edit :: "restore_line \<Rightarrow> ustr \<times> chain_edit" where
  "line_edit (FlushLine c) = (c, FlushChain)"
| "line_edit (AppendLine c r) = (c, AppendRule r)"
| "line_edit (InsertLine c i r) = (c, InsertRule i r)"

definition edit_chain :: "ustr \<Rightarrow> ustr \<times> chain_edit \<Rightarrow> chain_table \<Rightarrow> chain_table option" where
  "edit_chain t ce n =
    (case ce of (c, e) \<Rightarrow> map_option (\<lambda>rs. n((t, c) \<mapsto> rs)) (edit_rules e (n (t, c))))"

fun edit_chains :: "ustr \<Rightarrow> restore_line list \<Rightarrow> chain_table \<Rightarrow> chain_table option" where
  "edit_chains t [] n = Some n"
| "edit_chains t (l # ls) n = Option.bind (edit_chain t (line_edit l) n) (edit_chains t ls)"

definition exit_code :: "outcome \<Rightarrow> int option" where
  "exit_code r = (case r of Finished c _ \<Rightarrow> c | Unlaunched \<Rightarrow> None)"

definition chain_prefix :: "ustr \<Rightarrow> ustr" where
  "chain_prefix chain = lit ''-A '' @ chain @ [32]"

text \<open>
  The behaviour the code relies on. A command that edits a chain either edits it or leaves every chain as it
  was; when it exits with success it has edited it. \<open>-C\<close> and \<open>-S\<close> only look, and exit with 1 exactly for
  what is not there. A restore applies all lines of its table or none. \<open>listed\<close> is how \<open>-S\<close> prints a
  rule: rules of plain words are printed as they were given.
\<close>

locale netfilter =
  fixes K :: netfilter_tool and listed :: "ustr \<Rightarrow> rule \<Rightarrow> ustr"
  assumes run_edit: "nf_run K (edit_args t c e) n = (r, n')
      \<Longrightarrow> edit_chain t (c, e) n = Some n' \<or> \<not> succeeded r \<and> n' = n"
    and run_check: "nf_run K ([lit ''-t'', t, lit ''-C'', c] @ rule) n = (r, n')
      \<Longrightarrow> n' = n \<and> (exit_code r = Some 0 \<longrightarrow> rule \<in> set (rules_in n t c))
        \<and> (exit_code r = Some 1 \<longrightarrow> rule \<notin> set (rules_in n t c))"
    and run_list: "nf_run K [lit ''-t'', t, lit ''-S'', c] n = (r, n')
      \<Longrightarrow> n' = n \<and> (exit_code r = Some 1 \<longrightarrow> n (t, c) = None) \<and> (exit_code r = Some 0 \<longrightarrow> n (t, c) \<noteq> None)
        \<and> (\<forall>out. r = Finished (Some 0) out \<and> plain_word c \<longrightarrow>
            filter (\<lambda>line. str_starts_with line (chain_prefix c)) (str_lines out) = map (listed c) (rules_in n t c))"
    and listed_plain: "list_all plain_word rule
      \<Longrightarrow> listed c rule' = chain_prefix c @ join_with [32] rule \<longleftrightarrow> rule' = rule"
    and run_restore: "nf_restore K t ls n = (r, n') \<Longrightarrow> edit_chains t ls n = Some n' \<or> \<not> succeeded r \<and> n' = n"

section \<open>Total correctness\<close>

definition wp :: "'a fw_action \<Rightarrow> ((fw_error, 'a) result \<Rightarrow> kernel \<Rightarrow> bool) \<Rightarrow> kernel \<Rightarrow> bool" where
  "wp m Q k = (case m k of None \<Rightarrow> False | Some (r, k') \<Rightarrow> Q r k')"

text \<open>\<open>keeps P m\<close>: the action returns and keeps \<open>P\<close>, also when it fails. \<open>ensures m Q k\<close>: it returns, and on success \<open>Q\<close> holds.\<close>

definition keeps :: "(kernel \<Rightarrow> bool) \<Rightarrow> 'a fw_action \<Rightarrow> bool" where
  "keeps P m \<longleftrightarrow> (\<forall>k. P k \<longrightarrow> wp m (\<lambda>_. P) k)"

definition ensures :: "'a fw_action \<Rightarrow> ('a \<Rightarrow> kernel \<Rightarrow> bool) \<Rightarrow> kernel \<Rightarrow> bool" where
  "ensures m Q k \<longleftrightarrow> wp m (\<lambda>r k'. \<forall>a. r = Inr a \<longrightarrow> Q a k') k"

lemma wp_iff: "wp m Q k \<longleftrightarrow> (\<exists>r k'. m k = Some (r, k') \<and> Q r k')"
  by (auto simp: wp_def split: option.splits)

lemma wp_simps [simp]:
  "wp (fw_return a) Q k \<longleftrightarrow> Q (Inr a) k"
  "wp (fw_result r) Q k \<longleftrightarrow> Q r k"
  "wp (fw_bind m f) Q k \<longleftrightarrow> wp m (\<lambda>r k'. case r of Inl e \<Rightarrow> Q (Inl e) k' | Inr a \<Rightarrow> wp (f a) Q k') k"
  by (auto simp: wp_def fw_return_def fw_result_def fw_bind_def split: option.splits sum.splits prod.splits)

lemma wp_mono: "wp m Q k \<Longrightarrow> (\<And>r k'. Q r k' \<Longrightarrow> R r k') \<Longrightarrow> wp m R k"
  by (auto simp: wp_iff)

lemma wp_conj: "wp m Q k \<Longrightarrow> wp m R k \<Longrightarrow> wp m (\<lambda>r k'. Q r k' \<and> R r k') k"
  by (auto simp: wp_iff)

lemma wp_bindI:
  "wp m S k \<Longrightarrow> (\<And>e k'. S (Inl e) k' \<Longrightarrow> Q (Inl e) k') \<Longrightarrow> (\<And>a k'. S (Inr a) k' \<Longrightarrow> wp (f a) Q k') \<Longrightarrow>
    wp (fw_bind m f) Q k"
  unfolding wp_simps by (erule wp_mono) (auto split: sum.splits)

lemma wp_bind_result: "wp (fw_bind (fw_result r) f) Q k \<longleftrightarrow> (case r of Inl e \<Rightarrow> Q (Inl e) k | Inr a \<Rightarrow> wp (f a) Q k)"
  by simp

lemma keepsD: "keeps P m \<Longrightarrow> P k \<Longrightarrow> wp m (\<lambda>_. P) k"
  by (simp add: keeps_def)

lemma wp_keeps: "wp m Q k \<Longrightarrow> keeps P m \<Longrightarrow> wp m (\<lambda>r k'. Q r k' \<and> (P k \<longrightarrow> P k')) k"
  by (auto simp: keeps_def wp_iff)

lemma keeps_intros:
  "keeps P (fw_return a)"
  "keeps P (fw_result r)"
  "keeps P m \<Longrightarrow> (\<And>a. keeps P (f a)) \<Longrightarrow> keeps P (fw_bind m f)"
  "keeps P m \<Longrightarrow> keeps P m' \<Longrightarrow> keeps P (if b then m else m')"
  by (auto simp: keeps_def elim!: wp_mono split: sum.splits)

lemma keeps_for_each: "(\<And>x. x \<in> set xs \<Longrightarrow> keeps P (f x)) \<Longrightarrow> keeps P (for_each f xs)"
  by (induction xs) (auto intro!: keeps_intros)

lemma ensures_simps [simp]:
  "ensures (fw_return a) Q k \<longleftrightarrow> Q a k"
  "ensures (fw_result r) Q k \<longleftrightarrow> (\<forall>a. r = Inr a \<longrightarrow> Q a k)"
  "ensures (fw_bind m f) Q k \<longleftrightarrow> ensures m (\<lambda>a k'. ensures (f a) Q k') k"
  by (auto simp: ensures_def elim!: wp_mono split: sum.splits)

lemma ensures_mono: "ensures m Q k \<Longrightarrow> (\<And>a k'. Q a k' \<Longrightarrow> R a k') \<Longrightarrow> ensures m R k"
  by (auto simp: ensures_def elim!: wp_mono)

lemma ensures_keeps: "keeps P m \<Longrightarrow> P k \<Longrightarrow> ensures m (\<lambda>_. P) k"
  by (auto simp: ensures_def keeps_def elim!: wp_mono)

section \<open>The commands against their contract\<close>

text \<open>A kernel after an edit.\<close>

definition with_chain :: "ustr \<Rightarrow> ustr \<Rightarrow> rule list \<Rightarrow> kernel \<Rightarrow> kernel" where
  "with_chain t c rs k = k \<lparr> kn_chains := (kn_chains k)((t, c) \<mapsto> rs) \<rparr>"

lemma with_chain_simps [simp]:
  "kn_sets (with_chain t c rs k) = kn_sets k"
  "kn_hub (with_chain t c rs k) = kn_hub k"
  "kn_chains (with_chain t c rs k) = (kn_chains k)((t, c) \<mapsto> rs)"
  by (simp_all add: with_chain_def)

lemma rules_in_update [simp]:
  "rules_in (n((t, c) \<mapsto> rs)) t' c' = (if (t', c') = (t, c) then rs else rules_in n t' c')"
  by (simp add: rules_in_def)

lemma command_output_Inr: "command_output p a r = Inr out \<longleftrightarrow> r = Finished (Some 0) out"
  by (auto simp: command_output_def split: outcome.splits option.splits if_splits)

lemma succeeded_iff: "succeeded r \<longleftrightarrow> (\<exists>out. r = Finished (Some 0) out)"
  by (auto simp: succeeded_def split: outcome.splits option.splits)

context netfilter
begin

lemma wp_edit:
  assumes "\<And>rs r. edit_rules e (kn_chains k (t, c)) = Some rs \<Longrightarrow> Q r (with_chain t c rs k)"
    and "\<And>err. Q (Inl err) k"
  shows "wp (iptables K (edit_args t c e)) Q k"
proof -
  obtain r n where run: "nf_run K (edit_args t c e) (kn_chains k) = (r, n)" by fastforce
  let ?res = "rbind (command_output ''iptables'' (edit_args t c e) r) (\<lambda>_. Inr ()) :: (fw_error, unit) result"
  have "Q ?res (k \<lparr> kn_chains := n \<rparr>)"
    using run_edit [OF run]
  proof
    assume "edit_chain t (c, e) (kn_chains k) = Some n"
    then obtain rs where "edit_rules e (kn_chains k (t, c)) = Some rs" "n = (kn_chains k)((t, c) \<mapsto> rs)"
      by (auto simp: edit_chain_def)
    then show ?thesis using assms(1) [of rs] by (simp add: with_chain_def)
  next
    assume "\<not> succeeded r \<and> n = kn_chains k"
    then have "n = kn_chains k" "\<exists>err. ?res = Inl err"
      using command_output_Inr [of "''iptables''" "edit_args t c e" r]
      by (auto simp: succeeded_iff split: sum.splits) (metis Inl_Inr_False obj_sumE rbind_simps(1))
    then show ?thesis using assms(2) by auto
  qed
  then show ?thesis by (simp add: wp_def iptables_def iptables_output_def run)
qed

lemma wp_check:
  assumes "rule \<in> set (rules_in (kn_chains k) t c) \<Longrightarrow> Q (Inr True) k"
    and "rule \<notin> set (rules_in (kn_chains k) t c) \<Longrightarrow> Q (Inr False) k" and "\<And>err. Q (Inl err) k"
  shows "wp (iptables_exists K ([lit ''-t'', t, lit ''-C'', c] @ rule)) Q k"
proof -
  obtain r n where run: "nf_run K ([lit ''-t'', t, lit ''-C'', c] @ rule) (kn_chains k) = (r, n)" by fastforce
  note look = run_check [OF run]
  show ?thesis
    using look run assms
    by (auto simp: wp_def iptables_exists_def iptables_output_def exit_code_def split: outcome.splits option.splits)
qed

lemma wp_list:
  assumes "kn_chains k (t, c) \<noteq> None \<Longrightarrow> Q (Inr True) k"
    and "kn_chains k (t, c) = None \<Longrightarrow> Q (Inr False) k" and "\<And>err. Q (Inl err) k"
  shows "wp (iptables_exists K [lit ''-t'', t, lit ''-S'', c]) Q k"
proof -
  obtain r n where run: "nf_run K [lit ''-t'', t, lit ''-S'', c] (kn_chains k) = (r, n)" by fastforce
  note look = run_list [OF run]
  show ?thesis
    using look run assms
    by (auto simp: wp_def iptables_exists_def iptables_output_def exit_code_def split: outcome.splits option.splits)
qed

lemma keeps_edit:
  "(\<And>k rs. P k \<Longrightarrow> edit_rules e (kn_chains k (t, c)) = Some rs \<Longrightarrow> P (with_chain t c rs k))
    \<Longrightarrow> keeps P (iptables K (edit_args t c e))"
  by (auto simp: keeps_def intro!: wp_edit)

lemma keeps_looks:
  "keeps P (iptables_exists K ([lit ''-t'', t, lit ''-C'', c] @ rule))"
  "keeps P (iptables_exists K [lit ''-t'', t, lit ''-S'', c])"
  by (auto simp: keeps_def intro!: wp_check [simplified] wp_list)

lemma ensures_edit:
  "(\<And>rs. edit_rules e (kn_chains k (t, c)) = Some rs \<Longrightarrow> Q () (with_chain t c rs k))
    \<Longrightarrow> ensures (iptables K (edit_args t c e)) Q k"
  by (auto simp: ensures_def intro!: wp_edit)

lemmas edits = keeps_edit [of P NewChain t c for P t c, simplified] keeps_edit [of P FlushChain t c for P t c, simplified]
  keeps_edit [of P "AppendRule r" t c for P r t c, simplified] keeps_edit [of P "DeleteRule r" t c for P r t c, simplified]

lemma wp_remove_all:
  assumes "I k"
    and step: "\<And>k. I k \<Longrightarrow> rule \<in> set (rules_in (kn_chains k) t c)
      \<Longrightarrow> I (with_chain t c (remove1 rule (rules_in (kn_chains k) t c)) k)"
    and err: "\<And>k e. I k \<Longrightarrow> Q (Inl e) k"
    and finish: "\<And>k. I k \<Longrightarrow> rule \<notin> set (rules_in (kn_chains k) t c) \<Longrightarrow> Q (Inr ()) k"
  shows "wp (remove_all_rules K t c rule) Q k"
  using assms(1)
proof (induction "length (rules_in (kn_chains k) t c)" arbitrary: k rule: less_induct)
  case less
  let ?del = "\<lambda>r k2. case r of Inl e \<Rightarrow> Q (Inl e) k2 | Inr _ \<Rightarrow> wp (remove_all_rules K t c rule) Q k2"
  let ?look = "\<lambda>r k1. case r of Inl e \<Rightarrow> Q (Inl e) k1
      | Inr present \<Rightarrow> if \<not> present then Q (Inr ()) k1 else wp (iptables K ([lit ''-t'', t, lit ''-D'', c] @ rule)) ?del k1"
  have unfold: "wp (remove_all_rules K t c rule) Q k
      = wp (iptables_exists K ([lit ''-t'', t, lit ''-C'', c] @ rule)) ?look k"
    by (subst wp_def, subst remove_all_rules.simps) (auto simp: wp_def split: option.splits sum.splits prod.splits)
  show ?case
    unfolding unfold
  proof (rule wp_check)
    assume present: "rule \<in> set (rules_in (kn_chains k) t c)"
    let ?k = "with_chain t c (remove1 rule (rules_in (kn_chains k) t c)) k"
    have smaller: "length (rules_in (kn_chains ?k) t c) < length (rules_in (kn_chains k) t c)"
      using present length_pos_if_in_set [OF present] by (simp add: length_remove1)
    have "wp (iptables K (edit_args t c (DeleteRule rule))) ?del k"
    proof (rule wp_edit)
      fix rs r
      assume "edit_rules (DeleteRule rule) (kn_chains k (t, c)) = Some rs"
      then have "with_chain t c rs k = ?k"
        by (cases "kn_chains k (t, c)") (auto simp: rules_in_def split: if_splits)
      then show "?del r (with_chain t c rs k)"
        using less.hyps [OF smaller] step [OF less.prems present] err by (cases r) auto
    qed (simp add: err less.prems)
    then show "?look (Inr True) k" by simp
  qed (use finish err less.prems in auto)
qed


end

section \<open>Filling and cleaning chains\<close>

text \<open>A predicate that does not look at a chain.\<close>

definition ignores :: "(kernel \<Rightarrow> bool) \<Rightarrow> ustr \<Rightarrow> ustr \<Rightarrow> bool" where
  "ignores P t c \<longleftrightarrow> (\<forall>k rs. P k \<longrightarrow> P (with_chain t c rs k))"

text \<open>A kernel without the copies of a rule in a chain.\<close>

definition purged :: "ustr \<Rightarrow> ustr \<Rightarrow> rule \<Rightarrow> kernel \<Rightarrow> kernel" where
  "purged t c rule k =
    (case kn_chains k (t, c) of None \<Rightarrow> k | Some rs \<Rightarrow> with_chain t c (filter (\<lambda>r. r \<noteq> rule) rs) k)"

lemma with_chain_twice [simp]: "with_chain t c rs (with_chain t c rs' k) = with_chain t c rs k"
  by (simp add: with_chain_def)

lemma with_chain_same: "kn_chains k (t, c) = Some rs \<Longrightarrow> with_chain t c rs k = k"
  by (simp add: with_chain_def fun_upd_idem)

lemma filter_remove1: "filter (\<lambda>r. r \<noteq> x) (remove1 x xs) = filter (\<lambda>r. r \<noteq> x) xs"
  by (induction xs) auto

lemma purged_simps:
  "kn_chains k (t, c) = Some rs \<Longrightarrow> purged t c rule k = with_chain t c (filter (\<lambda>r. r \<noteq> rule) rs) k"
  "kn_sets (purged t c rule k) = kn_sets k"
  "(t', c') \<noteq> (t, c) \<Longrightarrow> kn_chains (purged t c rule k) (t', c') = kn_chains k (t', c')"
  "rules_in (kn_chains (purged t c rule k)) t c = filter (\<lambda>r. r \<noteq> rule) (rules_in (kn_chains k) t c)"
  "(t', c') \<noteq> (t, c) \<Longrightarrow> rules_in (kn_chains (purged t c rule k)) t' c' = rules_in (kn_chains k) t' c'"
  by (auto simp: purged_def rules_in_def split: option.splits)

lemma purged_absent: "rule \<notin> set (rules_in (kn_chains k) t c) \<Longrightarrow> purged t c rule k = k"
proof -
  assume "rule \<notin> set (rules_in (kn_chains k) t c)"
  then have "filter (\<lambda>r. r \<noteq> rule) rs = rs" if "kn_chains k (t, c) = Some rs" for rs
    using that by (auto simp: rules_in_def filter_id_conv)
  then show ?thesis by (auto simp: purged_def with_chain_same split: option.splits)
qed

context netfilter
begin

lemma keeps_fill:
  assumes "ignores P t c"
  shows "keeps P (ensure_chain K t c)" "keeps P (ensure_chain_exists K t c)" "keeps P (append_rule K t c rule)"
proof -
  note keep = assms [unfolded ignores_def, rule_format]
  show "keeps P (ensure_chain K t c)" "keeps P (ensure_chain_exists K t c)"
    unfolding ensure_chain_def ensure_chain_exists_def by (intro keeps_intros keeps_looks edits keep; assumption)+
  show "keeps P (append_rule K t c rule)"
    unfolding append_rule_def using keeps_edit [of P "AppendRule rule" t c] keep by simp
qed

lemma keeps_remove_all:
  assumes "\<And>k. P k \<Longrightarrow> rule \<in> set (rules_in (kn_chains k) t c)
      \<Longrightarrow> P (with_chain t c (remove1 rule (rules_in (kn_chains k) t c)) k)"
  shows "keeps P (remove_all_rules K t c rule)"
  using assms by (auto simp: keeps_def intro!: wp_remove_all [of P])

lemma keeps_insert_at:
  assumes "\<And>k rs. P k \<Longrightarrow> kn_chains k (t, c) = Some rs \<Longrightarrow> 1 \<le> i \<Longrightarrow> i \<le> length rs + 1
      \<Longrightarrow> P (with_chain t c (take (i - 1) rs @ rule # drop (i - 1) rs) k)"
  shows "keeps P (insert_rule_at K t c i rule)"
proof -
  have "keeps P (iptables K (edit_args t c (InsertRule i rule)))"
  proof (rule keeps_edit)
    fix k rs
    assume "P k" "edit_rules (InsertRule i rule) (kn_chains k (t, c)) = Some rs"
    then show "P (with_chain t c rs k)"
      using assms by (cases "kn_chains k (t, c)") (auto split: if_splits)
  qed
  then show ?thesis by (simp add: insert_rule_at_def)
qed

lemma keeps_insert:
  assumes "\<And>k rs. P k \<Longrightarrow> kn_chains k (t, c) = Some rs \<Longrightarrow> P (with_chain t c (rule # rs) k)"
  shows "keeps P (insert_rule K t c rule)"
proof -
  have "keeps P (insert_rule_at K t c 1 rule)" by (rule keeps_insert_at) (use assms in auto)
  moreover have "dec_digits 1 = lit ''1''" by (simp add: dec_digits.simps lit_def)
  ultimately show ?thesis by (simp add: insert_rule_at_def insert_rule_def)
qed

lemma wp_restore:
  assumes "\<And>n r. edit_chains t ls (kn_chains k) = Some n \<Longrightarrow> Q r (k \<lparr> kn_chains := n \<rparr>)" and "\<And>err. Q (Inl err) k"
  shows "wp (iptables_restore_noflush K t ls) Q k"
proof -
  obtain r n where run: "nf_restore K t ls (kn_chains k) = (r, n)" by fastforce
  let ?res = "rbind (command_output ''iptables-restore'' (args [''-w'', ''5'', ''--noflush'']) r) (\<lambda>_. Inr ())
    :: (fw_error, unit) result"
  have "Q ?res (k \<lparr> kn_chains := n \<rparr>)"
    using run_restore [OF run]
  proof
    assume "\<not> succeeded r \<and> n = kn_chains k"
    then have "n = kn_chains k" "\<exists>err. ?res = Inl err"
      using command_output_Inr [of "''iptables-restore''" "args [''-w'', ''5'', ''--noflush'']" r]
      by (auto simp: succeeded_iff split: sum.splits) (metis Inl_Inr_False obj_sumE rbind_simps(1))
    then show ?thesis using assms(2) by auto
  qed (use assms(1) in blast)
  then show ?thesis by (simp add: wp_def iptables_restore_noflush_def run)
qed

lemma ensures_ensure_chain: "Q () (with_chain t c [] k) \<Longrightarrow> ensures (ensure_chain K t c) Q k"
proof -
  assume Q: "Q () (with_chain t c [] k)"
  have flush: "ensures (iptables K [lit ''-t'', t, lit ''-F'', c]) Q k'" if "k' = k \<or> k' = with_chain t c [] k" for k'
    using Q that ensures_edit [of FlushChain k' t c Q] by (cases "kn_chains k' (t, c)") auto
  have "ensures (iptables K [lit ''-t'', t, lit ''-N'', c]) (\<lambda>_. ensures (iptables K [lit ''-t'', t, lit ''-F'', c]) Q) k"
    using ensures_edit [of NewChain k t c "\<lambda>_. ensures (iptables K [lit ''-t'', t, lit ''-F'', c]) Q"]
    by (cases "kn_chains k (t, c)") (auto simp: flush)
  then show ?thesis
    unfolding ensure_chain_def ensures_simps
    by (auto simp: ensures_def [of "iptables_exists _ _"] flush intro!: wp_list)
qed

lemma ensures_appends:
  "kn_chains k (t, c) = Some rs \<Longrightarrow> Q () (with_chain t c (rs @ rules) k) \<Longrightarrow> ensures (for_each (append_rule K t c) rules) Q k"
proof (induction rules arbitrary: k rs)
  case Nil
  then show ?case by (simp add: with_chain_same)
next
  case (Cons r rules)
  have "ensures (for_each (append_rule K t c) rules) Q (with_chain t c (rs @ [r]) k)"
    using Cons.prems by (intro Cons.IH [of _ "rs @ [r]"]) auto
  then have "ensures (iptables K (edit_args t c (AppendRule r))) (\<lambda>_. ensures (for_each (append_rule K t c) rules) Q) k"
    using Cons.prems(1) by (intro ensures_edit) auto
  then show ?case by (simp add: append_rule_def [of K t c r])
qed

lemma ensures_fill:
  "Q () (with_chain t c rules k) \<Longrightarrow>
    ensures (ensure_chain K t c) (\<lambda>_. ensures (for_each (append_rule K t c) rules) Q) k"
  by (intro ensures_ensure_chain ensures_appends [of _ _ _ "[]"]) auto

lemma ensures_remove_all: "Q () (purged t c rule k) \<Longrightarrow> ensures (remove_all_rules K t c rule) Q k"
  unfolding ensures_def
proof (rule wp_remove_all [of "\<lambda>k'. purged t c rule k' = purged t c rule k"])
  fix k'
  assume I: "purged t c rule k' = purged t c rule k" and "rule \<in> set (rules_in (kn_chains k') t c)"
  then obtain rs where "kn_chains k' (t, c) = Some rs" by (cases "kn_chains k' (t, c)") (auto simp: rules_in_def)
  then show "purged t c rule (with_chain t c (remove1 rule (rules_in (kn_chains k') t c)) k') = purged t c rule k"
    using I by (simp add: purged_def rules_in_def filter_remove1 split: option.splits)
next
  fix k'
  assume "Q () (purged t c rule k)" "purged t c rule k' = purged t c rule k" "rule \<notin> set (rules_in (kn_chains k') t c)"
  then have "Q () k'" using purged_absent [of rule k' t c] by simp
  then show "\<forall>a. Inr () = Inr a \<longrightarrow> Q a k'" by simp
qed auto

lemma ensures_insert_second:
  assumes "kn_chains k (t, c) = Some (r # rs)" and "Q () (with_chain t c (r # rule # rs) k)"
  shows "ensures (insert_rule_at K t c 2 rule) Q k"
  using ensures_edit [of "InsertRule 2 rule" k t c Q] assms by (simp add: insert_rule_at_def)

end

section \<open>A ruleset in memory\<close>

text \<open>The documented behaviour as functions on the chains; a word that is not plain is printed as a quotation mark.\<close>

definition shown_rule :: "ustr \<Rightarrow> rule \<Rightarrow> ustr" where
  "shown_rule c rule = chain_prefix c @ join_with [32] (map (\<lambda>w. if plain_word w then w else [34]) rule)"

definition run_rules :: "ustr list \<Rightarrow> chain_table \<Rightarrow> outcome \<times> chain_table" where
  "run_rules a n =
    (case a of
       _ # t # cmd # c # rest \<Rightarrow>
         if cmd = lit ''-C'' then (Finished (Some (if rest \<in> set (rules_in n t c) then 0 else 1)) [], n)
         else if cmd = lit ''-S'' then
           (case n (t, c) of
              None \<Rightarrow> (Finished (Some 1) [], n)
            | Some rs \<Rightarrow> (Finished (Some 0) (concat (map (\<lambda>r. shown_rule c r @ [10]) rs)), n))
         else (case edit_chain t (c, if cmd = lit ''-N'' then NewChain else if cmd = lit ''-F'' then FlushChain
                     else if cmd = lit ''-A'' then AppendRule rest else if cmd = lit ''-D'' then DeleteRule rest
                     else InsertRule (decimal_value (hd rest)) (tl rest)) n of
                 None \<Rightarrow> (Finished (Some 2) [], n)
               | Some n' \<Rightarrow> (Finished (Some 0) [], n'))
     | _ \<Rightarrow> (Finished (Some 2) [], n))"

definition restore_rules :: "ustr \<Rightarrow> restore_line list \<Rightarrow> chain_table \<Rightarrow> outcome \<times> chain_table" where
  "restore_rules t ls n =
    (case edit_chains t ls n of None \<Rightarrow> (Finished (Some 1) [], n) | Some n' \<Rightarrow> (Finished (Some 0) [], n'))"

definition ruleset_tool :: netfilter_tool where
  "ruleset_tool = \<lparr> nf_run = run_rules, nf_restore = restore_rules, nf_ipset = \<lambda>_. script_loader,
     nf_set_names = \<lambda>_. None, nf_list_set = \<lambda>name s. Finished (Some (if s name = None then 1 else 0)) [] \<rparr>"

lemma str_split_join: "\<forall>w \<in> set ws. c \<notin> set w \<Longrightarrow> ws \<noteq> [] \<Longrightarrow> str_split c (join_with [c] ws) = ws"
  by (induction "[c]" ws rule: join_with.induct) (auto simp: str_split_free str_split_cons)

lemma join_with_inject:
  assumes "\<forall>w \<in> set us \<union> set vs. w \<noteq> [] \<and> c \<notin> set w" and "join_with [c] us = join_with [c] vs"
  shows "us = vs"
proof -
  have nil: "join_with [c] ws = [] \<longleftrightarrow> ws = []" if "\<forall>w \<in> set ws. w \<noteq> []" for ws
    using that by (cases "([c], ws)" rule: join_with.cases) auto
  show ?thesis
  proof (cases "us = [] \<or> vs = []")
    case True
    then show ?thesis using assms nil [of us] nil [of vs] by auto
  next
    case False
    then show ?thesis using assms str_split_join [of us c] str_split_join [of vs c] by (metis Un_iff)
  qed
qed

lemma shown_rule_inject:
  assumes "list_all plain_word rule"
  shows "shown_rule c rule' = chain_prefix c @ join_with [32] rule \<longleftrightarrow> rule' = rule"
proof
  let ?f = "\<lambda>w. if plain_word w then w else [34]"
  assume "shown_rule c rule' = chain_prefix c @ join_with [32] rule"
  then have eq: "map ?f rule' = rule"
    using assms by (intro join_with_inject [of _ _ 32]) (auto simp: shown_rule_def list_all_iff plain_word_def)
  have "plain_word w" if "w \<in> set rule'" for w
  proof (rule ccontr)
    assume "\<not> plain_word w"
    then have "[34] \<in> set (map ?f rule')" using that by (auto intro!: image_eqI [of _ _ w])
    then show False using assms unfolding eq by (auto simp: list_all_iff plain_word_def)
  qed
  then have "map ?f rule' = map (\<lambda>w. w) rule'" by (intro map_cong) auto
  then show "rule' = rule" using eq by simp
next
  assume "rule' = rule"
  moreover have "map (\<lambda>w. if plain_word w then w else [34]) rule = map (\<lambda>w. w) rule"
    using assms by (intro map_cong) (auto simp: list_all_iff)
  ultimately show "shown_rule c rule' = chain_prefix c @ join_with [32] rule" by (simp add: shown_rule_def)
qed

lemma str_lines_listing:
  assumes "\<forall>l \<in> set ls. \<forall>c \<in> set l. 32 \<le> c"
  shows "str_lines (concat (map (\<lambda>l. l @ [10]) ls)) = ls"
proof -
  have split: "str_split 10 (concat (map (\<lambda>l. l @ [10]) ls)) = ls @ [[]]"
    using assms
  proof (induction ls)
    case (Cons l ls)
    then have "10 \<notin> set l" by force
    then show ?case using Cons by (simp add: str_split_cons)
  qed simp
  have "strip_cr l = l" if "l \<in> set ls" for l
  proof (cases "l = []")
    case False
    then have "32 \<le> last l" using assms that by simp
    then show ?thesis by (simp add: strip_cr_def)
  qed (simp add: strip_cr_def)
  then have "map strip_cr ls = ls" by (simp add: map_idI)
  then show ?thesis by (simp add: str_lines_def split)
qed

lemma set_join_with: "x \<in> set (join_with [c] ws) \<Longrightarrow> x = c \<or> (\<exists>w \<in> set ws. x \<in> set w)"
  by (induction "[c]" ws rule: join_with.induct) auto

lemma shown_rule_chars: "plain_word c \<Longrightarrow> x \<in> set (shown_rule c rule) \<Longrightarrow> 32 \<le> x"
  by (fastforce simp: shown_rule_def chain_prefix_def plain_word_def lit_def dest!: set_join_with split: if_splits)

interpretation ruleset: netfilter ruleset_tool shown_rule
proof unfold_locales
  fix t c e n r n'
  have "run_rules (edit_args t c e) n =
      (case edit_chain t (c, e) n of None \<Rightarrow> (Finished (Some 2) [], n) | Some n' \<Rightarrow> (Finished (Some 0) [], n'))"
    by (cases e) (simp_all add: run_rules_def)
  then show "nf_run ruleset_tool (edit_args t c e) n = (r, n') \<Longrightarrow> edit_chain t (c, e) n = Some n' \<or> \<not> succeeded r \<and> n' = n"
    by (auto simp: ruleset_tool_def succeeded_def split: option.splits)
next
  fix t c n r n' and rule :: rule
  show "nf_run ruleset_tool ([lit ''-t'', t, lit ''-C'', c] @ rule) n = (r, n') \<Longrightarrow>
      n' = n \<and> (exit_code r = Some 0 \<longrightarrow> rule \<in> set (rules_in n t c)) \<and> (exit_code r = Some 1 \<longrightarrow> rule \<notin> set (rules_in n t c))"
    by (auto simp: ruleset_tool_def run_rules_def exit_code_def split: if_splits)
next
  fix t c n r n'
  assume run: "nf_run ruleset_tool [lit ''-t'', t, lit ''-S'', c] n = (r, n')"
  have "filter (\<lambda>line. str_starts_with line (chain_prefix c)) (map (shown_rule c) rs) = map (shown_rule c) rs" for rs
    by (simp add: filter_id_conv str_starts_with_def shown_rule_def)
  moreover have "str_lines (concat (map (\<lambda>r. shown_rule c r @ [10]) rs)) = map (shown_rule c) rs" if "plain_word c" for rs
    using str_lines_listing [of "map (shown_rule c) rs"] shown_rule_chars [OF that] by (simp add: comp_def)
  ultimately show "n' = n \<and> (exit_code r = Some 1 \<longrightarrow> n (t, c) = None) \<and> (exit_code r = Some 0 \<longrightarrow> n (t, c) \<noteq> None)
      \<and> (\<forall>out. r = Finished (Some 0) out \<and> plain_word c \<longrightarrow>
          filter (\<lambda>line. str_starts_with line (chain_prefix c)) (str_lines out) = map (shown_rule c) (rules_in n t c))"
    using run by (auto simp: ruleset_tool_def run_rules_def exit_code_def rules_in_def split: option.splits)
next
  fix c and rule rule' :: rule
  show "list_all plain_word rule \<Longrightarrow> shown_rule c rule' = chain_prefix c @ join_with [32] rule \<longleftrightarrow> rule' = rule"
    by (rule shown_rule_inject)
next
  fix t ls n r n'
  show "nf_restore ruleset_tool t ls n = (r, n') \<Longrightarrow> edit_chains t ls n = Some n' \<or> \<not> succeeded r \<and> n' = n"
    by (auto simp: ruleset_tool_def restore_rules_def succeeded_def split: option.splits)
qed

section \<open>Deleting every copy of a rule\<close>

text \<open>
  C13. Deleting every copy of a rule ends. Whatever the kernel answers, \<open>remove_all_rules\<close> returns, has removed
  nothing but copies of the rule, in that chain alone, and has kept the order of the other rules; when it
  succeeds, no copy is left.
\<close>

theorem remove_all_rules_terminates:
  assumes "netfilter K listed"
  shows "\<exists>r k'. remove_all_rules K t c rule k = Some (r, k')
    \<and> kn_sets k' = kn_sets k \<and> kn_hub k' = kn_hub k
    \<and> (\<forall>tc. tc \<noteq> (t, c) \<longrightarrow> kn_chains k' tc = kn_chains k tc)
    \<and> filter (\<lambda>r. r \<noteq> rule) (rules_in (kn_chains k') t c) = filter (\<lambda>r. r \<noteq> rule) (rules_in (kn_chains k) t c)
    \<and> (r = Inr () \<longrightarrow> rule \<notin> set (rules_in (kn_chains k') t c))"
proof -
  let ?I = "\<lambda>k'. kn_sets k' = kn_sets k \<and> kn_hub k' = kn_hub k \<and> (\<forall>tc. tc \<noteq> (t, c) \<longrightarrow> kn_chains k' tc = kn_chains k tc)
    \<and> filter (\<lambda>r. r \<noteq> rule) (rules_in (kn_chains k') t c) = filter (\<lambda>r. r \<noteq> rule) (rules_in (kn_chains k) t c)"
  have "wp (remove_all_rules K t c rule) (\<lambda>r k'. ?I k' \<and> (r = Inr () \<longrightarrow> rule \<notin> set (rules_in (kn_chains k') t c))) k"
    by (rule netfilter.wp_remove_all [OF assms, of ?I]) (auto simp: filter_remove1)
  then show ?thesis by (auto simp: wp_iff)
qed

definition sample_hooks :: kernel where
  "sample_hooks = \<lparr> kn_chains = [(lit ''filter'', lit ''INPUT'') \<mapsto> [[lit ''-j'', LOCK_INPUT_CHAIN], [lit ''-j'', INPUT_CHAIN],
     [lit ''-j'', LOCK_INPUT_CHAIN]]], kn_sets = Map.empty, kn_hub = None \<rparr>"

theorem remove_all_rules_terminates_witness:
  "\<exists>r k'. remove_all_rules ruleset_tool (lit ''filter'') (lit ''INPUT'') [lit ''-j'', LOCK_INPUT_CHAIN] sample_hooks = Some (r, k')
    \<and> filter (\<lambda>r. r \<noteq> [lit ''-j'', LOCK_INPUT_CHAIN]) (rules_in (kn_chains k') (lit ''filter'') (lit ''INPUT''))
      = [[lit ''-j'', INPUT_CHAIN]]"
  using remove_all_rules_terminates [OF ruleset.netfilter_axioms, of "lit ''filter''" "lit ''INPUT''"
      "[lit ''-j'', LOCK_INPUT_CHAIN]" sample_hooks]
  by (auto simp: sample_hooks_def rules_in_def LOCK_INPUT_CHAIN_def INPUT_CHAIN_def)

end
