(* ===== verification/Vpn_Hub.thy ===== *)
theory Vpn_Hub
  imports Vpn_Netfilter "HOL-Library.List_Lexorder"
begin

text \<open>
  The WireGuard interface of the hub, from \<^verbatim>\<open>src/services/ad/vpn/reconcile.rs\<close>: the peers built from rows,
  the incremental update that touches only changed peers, the full bring-up and its retries, and the two
  fingerprints of the desired state. The WireGuard API is the record \<open>hub_tool\<close> with the locale \<open>wireguard\<close>.
\<close>

section \<open>Peers\<close>

record wg_peer =
  wg_public_key :: ustr
  wg_allowed_ips :: "ustr list"

record interface_configuration =
  ic_prvkey :: ustr
  ic_addresses :: "ustr list"
  ic_port :: nat
  ic_peers :: "wg_peer list"

type_synonym hub_call = "hub_interface option \<Rightarrow> (ustr, unit) result \<times> hub_interface option"

record hub_tool =
  ht_key :: "ustr \<Rightarrow> ustr option"
  ht_public :: "ustr \<Rightarrow> ustr"
  ht_mask :: "ustr \<Rightarrow> ustr option"
  ht_open :: "(ustr, unit) result"
  ht_read :: "hub_interface option \<Rightarrow> hub_interface option"
  ht_remove_peer :: "ustr \<Rightarrow> hub_call"
  ht_configure_peer :: "wg_peer \<Rightarrow> hub_call"
  ht_create :: hub_call
  ht_configure :: "interface_configuration \<Rightarrow> hub_call"

definition build_peer :: "hub_tool \<Rightarrow> desired_peer \<Rightarrow> (applied_peer \<times> wg_peer) option" where
  "build_peer H row =
    (case parse_ipv4 (dp_address row) of
       None \<Rightarrow> None
     | Some address \<Rightarrow>
         (case ht_key H (dp_public_key row) of
            None \<Rightarrow> None
          | Some public_key \<Rightarrow>
              (case ht_mask H (show_ipv4 address @ lit ''/32'') of
                 None \<Rightarrow> None
               | Some allowed \<Rightarrow>
                   Some (\<lparr> ap_game_id = dp_game_id row, ap_public_key = dp_public_key row, ap_address = address \<rparr>,
                         \<lparr> wg_public_key = public_key, wg_allowed_ips = [allowed] \<rparr>))))"

section \<open>Fingerprints\<close>

text \<open>\<open>to_be_bytes\<close> of a 16-bit and of a 32-bit signed number, and the octets of an address.\<close>

definition be16 :: "nat \<Rightarrow> bytes" where
  "be16 n = [n div 256 mod 256, n mod 256]"

definition be32 :: "int \<Rightarrow> bytes" where
  "be32 i = (let n = nat (i mod 4294967296) in map (\<lambda>j. n div 256 ^ j mod 256) (rev [0..<4]))"

definition ipv4_octets :: "ipv4 \<Rightarrow> bytes" where
  "ipv4_octets a = map (\<lambda>i. octet i a) (rev [0..<4])"

definition hub_identity :: "(bytes \<Rightarrow> bytes) \<Rightarrow> ustr \<Rightarrow> nat \<Rightarrow> ustr \<Rightarrow> bytes" where
  "hub_identity sha prvkey port address = sha (str_bytes prvkey @ be16 port @ str_bytes address)"

definition target_bytes :: "vpn_target \<Rightarrow> bytes" where
  "target_bytes target = ipv4_octets (vt_address target) @ be16 (vt_port target)"

definition policy_bytes :: "game_vpn_policy \<Rightarrow> bytes" where
  "policy_bytes policy =
    be32 (gp_game_id policy) @ concat (map ipv4_octets (gp_peers policy)) @ concat (map target_bytes (gp_targets policy))
    @ concat (map (\<lambda>block. ipv4_octets (cb_peer block) @ target_bytes (cb_target block)) (gp_cooldown_blocks policy))"

definition peer_bytes :: "desired_peer \<Rightarrow> bytes" where
  "peer_bytes peer =
    str_bytes (dp_stable_id peer) @ be32 (dp_game_id peer) @ be32 (dp_participation_id peer)
    @ str_bytes (dp_public_key peer) @ str_bytes (dp_address peer)"

definition policy_fingerprint ::
  "(bytes \<Rightarrow> bytes) \<Rightarrow> ustr \<Rightarrow> nat \<Rightarrow> ustr \<Rightarrow> ustr list \<Rightarrow> ustr \<Rightarrow> same_origin_access option \<Rightarrow> desired_peer list
    \<Rightarrow> game_vpn_policy list \<Rightarrow> bytes" where
  "policy_fingerprint sha prvkey port client_text service_cidrs route same_origin peers policies =
    sha (str_bytes prvkey @ be16 port @ str_bytes client_text @ concat (map str_bytes service_cidrs) @ str_bytes route
      @ (case same_origin of None \<Rightarrow> [] | Some access \<Rightarrow> ipv4_octets (so_dns access) @ ipv4_octets (so_ingress access))
      @ concat (map peer_bytes peers) @ concat (map policy_bytes policies))"

section \<open>Configuring the interface\<close>

definition same_allowed_ips :: "ustr list \<Rightarrow> ustr list \<Rightarrow> bool" where
  "same_allowed_ips current desired \<longleftrightarrow> sort current = sort desired"

definition same_hub_key :: "hub_tool \<Rightarrow> ustr option \<Rightarrow> ustr \<Rightarrow> bool" where
  "same_hub_key H current desired = (case current of None \<Rightarrow> False | Some key \<Rightarrow> ht_public H key = ht_public H desired)"

datatype incremental_error = NeedsFull | Failed ustr

fun hub_each ::
  "('a \<Rightarrow> hub_call) \<Rightarrow> 'a list \<Rightarrow> hub_interface option \<Rightarrow> (incremental_error, unit) result \<times> hub_interface option" where
  "hub_each f [] h = (Inr (), h)"
| "hub_each f (x # xs) h =
    (case f x h of (Inl e, h') \<Rightarrow> (Inl (Failed e), h') | (Inr _, h') \<Rightarrow> hub_each f xs h')"

definition stale_peers :: "hub_interface \<Rightarrow> interface_configuration \<Rightarrow> ustr list" where
  "stale_peers current cfg =
    filter (\<lambda>key. key \<notin> set (map wg_public_key (ic_peers cfg))) (map fst (hi_peers current))"

definition changed_peers :: "hub_interface \<Rightarrow> interface_configuration \<Rightarrow> wg_peer list" where
  "changed_peers current cfg =
    filter (\<lambda>peer. case map_of (hi_peers current) (wg_public_key peer) of
                     None \<Rightarrow> True
                   | Some installed \<Rightarrow> \<not> same_allowed_ips installed (wg_allowed_ips peer)) (ic_peers cfg)"

definition configure_hub_incremental ::
  "hub_tool \<Rightarrow> interface_configuration \<Rightarrow> kernel \<Rightarrow> (incremental_error, unit) result \<times> kernel" where
  "configure_hub_incremental H cfg k =
    (case ht_open H of
       Inl e \<Rightarrow> (Inl (Failed e), k)
     | Inr _ \<Rightarrow>
         (case ht_read H (kn_hub k) of
            None \<Rightarrow> (Inl NeedsFull, k)
          | Some current \<Rightarrow>
              (case ht_key H (ic_prvkey cfg) of
                 None \<Rightarrow> (Inl NeedsFull, k)
               | Some desired_key \<Rightarrow>
                   if \<not> same_hub_key H (hi_key current) desired_key \<or> hi_port current \<noteq> ic_port cfg
                   then (Inl NeedsFull, k)
                   else (case hub_each (ht_remove_peer H) (stale_peers current cfg) (kn_hub k) of
                           (Inl e, h) \<Rightarrow> (Inl e, k \<lparr> kn_hub := h \<rparr>)
                         | (Inr _, h) \<Rightarrow>
                             (case hub_each (ht_configure_peer H) (changed_peers current cfg) h of
                                (r, h') \<Rightarrow> (r, k \<lparr> kn_hub := h' \<rparr>))))))"

definition configure_hub :: "hub_tool \<Rightarrow> interface_configuration \<Rightarrow> kernel \<Rightarrow> (fw_error, unit) result \<times> kernel" where
  "configure_hub H cfg k =
    (case ht_open H of
       Inl e \<Rightarrow> (Inl (HubError e), k)
     | Inr _ \<Rightarrow>
         (case ht_configure H cfg (snd (ht_create H (kn_hub k))) of
            (r, h) \<Rightarrow> (map_err HubError r, k \<lparr> kn_hub := h \<rparr>)))"

text \<open>The attempts in order; the last error is kept, and the waits between them change nothing.\<close>

fun retry_loop ::
  "(nat \<Rightarrow> kernel \<Rightarrow> (fw_error, unit) result \<times> kernel) \<Rightarrow> nat list \<Rightarrow> fw_error option \<Rightarrow> kernel
    \<Rightarrow> (fw_error, unit) result \<times> kernel" where
  "retry_loop operation [] last_error k =
    (Inl (case last_error of Some e \<Rightarrow> e | None \<Rightarrow> UnknownHubError), k)"
| "retry_loop operation (attempt # rest) last_error k =
    (case operation attempt k of
       (Inr _, k') \<Rightarrow> (Inr (), k')
     | (Inl e, k') \<Rightarrow> retry_loop operation rest (Some e) k')"

definition retry_operation ::
  "nat \<Rightarrow> (nat \<Rightarrow> kernel \<Rightarrow> (fw_error, unit) result \<times> kernel) \<Rightarrow> kernel \<Rightarrow> (fw_error, unit) result \<times> kernel" where
  "retry_operation attempts operation k = retry_loop operation [1..<Suc (max attempts 1)] None k"

definition configure_hub_with_retry :: "(nat \<Rightarrow> hub_tool) \<Rightarrow> interface_configuration \<Rightarrow> nat \<Rightarrow> unit fw_action" where
  "configure_hub_with_retry H cfg attempts k =
    Some (retry_operation attempts (\<lambda>attempt. configure_hub (H attempt) cfg) k)"

section \<open>What the calls do\<close>

locale wireguard =
  fixes H :: hub_tool
  assumes read_current: "ht_read H h = Some i \<Longrightarrow> h = Some i \<and> distinct (map fst (hi_peers i))"
    and removes: "ht_remove_peer H key (Some i) = (Inr u, h')
      \<Longrightarrow> h' = Some (i \<lparr> hi_peers := AList.delete key (hi_peers i) \<rparr>)"
    and configures: "ht_configure_peer H peer (Some i) = (Inr u, h')
      \<Longrightarrow> h' = Some (i \<lparr> hi_peers := AList.update (wg_public_key peer) (wg_allowed_ips peer) (hi_peers i) \<rparr>)"
begin

lemma remove_peers:
  "hub_each (ht_remove_peer H) keys (Some i) = (Inr u, h') \<Longrightarrow>
    h' = Some (i \<lparr> hi_peers := filter (\<lambda>(key, _). key \<notin> set keys) (hi_peers i) \<rparr>)"
proof (induction keys arbitrary: i)
  case (Cons key keys)
  then obtain v h1 where step: "ht_remove_peer H key (Some i) = (Inr v, h1)"
    "hub_each (ht_remove_peer H) keys h1 = (Inr u, h')"
    by (auto split: prod.splits sum.splits)
  show ?case
    using Cons.IH [OF step(2) [unfolded removes [OF step(1)]]]
    by (auto simp: AList.delete_eq case_prod_unfold intro!: arg_cong [of _ _ "\<lambda>ps. i \<lparr> hi_peers := ps \<rparr>"] filter_cong)
qed simp

lemma configure_peers:
  "hub_each (ht_configure_peer H) peers (Some i) = (Inr u, h') \<Longrightarrow>
    h' = Some (i \<lparr> hi_peers := foldl (\<lambda>m p. AList.update (wg_public_key p) (wg_allowed_ips p) m) (hi_peers i) peers \<rparr>)"
proof (induction peers arbitrary: i)
  case (Cons peer peers)
  then obtain v h1 where step: "ht_configure_peer H peer (Some i) = (Inr v, h1)"
    "hub_each (ht_configure_peer H) peers h1 = (Inr u, h')"
    by (auto split: prod.splits sum.splits)
  then show ?case using Cons.IH [OF step(2) [unfolded configures [OF step(1)]]] by simp
qed simp

end

text \<open>A WireGuard interface in memory.\<close>

definition memory_hub :: hub_tool where
  "memory_hub =
    \<lparr> ht_key = Some, ht_public = \<lambda>key. key, ht_mask = Some, ht_open = Inr (),
      ht_read = \<lambda>h. case h of None \<Rightarrow> None | Some i \<Rightarrow> if distinct (map fst (hi_peers i)) then Some i else None,
      ht_remove_peer = \<lambda>key h. (Inr (), map_option (\<lambda>i. i \<lparr> hi_peers := AList.delete key (hi_peers i) \<rparr>) h),
      ht_configure_peer = \<lambda>peer h.
        (Inr (), map_option (\<lambda>i. i \<lparr> hi_peers := AList.update (wg_public_key peer) (wg_allowed_ips peer) (hi_peers i) \<rparr>) h),
      ht_create = \<lambda>h. (Inr (), case h of None \<Rightarrow> Some \<lparr> hi_key = None, hi_port = 0, hi_peers = [] \<rparr> | Some i \<Rightarrow> Some i),
      ht_configure = \<lambda>cfg h. (Inr (), Some \<lparr> hi_key = Some (ic_prvkey cfg), hi_port = ic_port cfg,
        hi_peers = map (\<lambda>peer. (wg_public_key peer, wg_allowed_ips peer)) (ic_peers cfg) \<rparr>) \<rparr>"

interpretation memory: wireguard memory_hub
  by unfold_locales (auto simp: memory_hub_def split: option.splits if_splits)

section \<open>The incremental update\<close>

lemma map_of_configured:
  "distinct (map wg_public_key peers) \<Longrightarrow>
    map_of (foldl (\<lambda>m p. AList.update (wg_public_key p) (wg_allowed_ips p) m) ps peers) key =
      (case find (\<lambda>p. wg_public_key p = key) peers of Some p \<Rightarrow> Some (wg_allowed_ips p) | None \<Rightarrow> map_of ps key)"
proof (induction peers arbitrary: ps)
  case (Cons p peers)
  have "find (\<lambda>q. wg_public_key q = wg_public_key p) peers = None" using Cons.prems by (auto simp: find_None_iff) (metis image_eqI)
  then show ?case using Cons by (auto simp: AList.update_conv' split: option.splits)
qed simp

lemma map_of_filter_key:
  "map_of (filter (\<lambda>(key, _). P key) ps) key = (if P key then map_of ps key else None)"
  by (induction ps) auto

lemma find_SomeD: "find P xs = Some x \<Longrightarrow> P x \<and> x \<in> set xs"
  by (induction xs) (auto split: if_splits)

lemma find_distinct_key:
  "distinct (map wg_public_key peers) \<Longrightarrow> peer \<in> set peers \<Longrightarrow> P peer \<Longrightarrow>
    find (\<lambda>p. wg_public_key p = wg_public_key peer) (filter P peers) = Some peer"
  by (induction peers) auto

lemma find_other_key:
  "distinct (map wg_public_key peers) \<Longrightarrow> peer \<in> set peers \<Longrightarrow> \<not> P peer \<Longrightarrow>
    find (\<lambda>p. wg_public_key p = wg_public_key peer) (filter P peers) = None"
  by (induction peers) (auto simp: find_None_iff, metis image_eqI)


definition sample_hub :: kernel where
  "sample_hub = \<lparr> kn_chains = Map.empty, kn_sets = Map.empty,
     kn_hub = Some \<lparr> hi_key = Some [1], hi_port = 51820, hi_peers = [([2], [[3]]), ([4], [[5]])] \<rparr> \<rparr>"

definition sample_interface :: interface_configuration where
  "sample_interface = \<lparr> ic_prvkey = [1], ic_addresses = [], ic_port = 51820,
     ic_peers = [\<lparr> wg_public_key = [4], wg_allowed_ips = [[5]] \<rparr>, \<lparr> wg_public_key = [6], wg_allowed_ips = [[7]] \<rparr>] \<rparr>"


end
