(* ===== verification/Vpn_Install.thy ===== *)
theory Vpn_Install
  imports Vpn_Hub Vpn_Boundary
begin

text \<open>
  Installing the boundary, from \<^verbatim>\<open>src/services/ad/vpn/firewall.rs\<close>,
  \<^verbatim>\<open>src/services/ad/vpn/firewall_atomic.rs\<close> and \<^verbatim>\<open>src/services/ad/vpn/reconcile.rs\<close>: the lock that drops all
  tunnel traffic, the check that the boundary is in place, the atomic replacement of live chains, the
  first installation behind the lock, and the kernel update of a reconciliation.
\<close>

abbreviation FILTER :: ustr where "FILTER \<equiv> lit ''filter''"
abbreviation NAT :: ustr where "NAT \<equiv> lit ''nat''"
abbreviation INPUT :: ustr where "INPUT \<equiv> lit ''INPUT''"
abbreviation FORWARD :: ustr where "FORWARD \<equiv> lit ''FORWARD''"
abbreviation POSTROUTING :: ustr where "POSTROUTING \<equiv> lit ''POSTROUTING''"

section \<open>The lock\<close>

definition ensure_lock_rule :: "netfilter_tool \<Rightarrow> ustr \<Rightarrow> rule \<Rightarrow> unit fw_action" where
  "ensure_lock_rule K chain rule =
    fw_bind (iptables_exists K ([lit ''-t'', FILTER, lit ''-C'', chain] @ rule)) (\<lambda>found.
      if \<not> found then iptables K ([lit ''-t'', FILTER, lit ''-I'', chain, lit ''1''] @ rule) else fw_return ())"

definition return_rule :: rule where "return_rule = [lit ''-j'', lit ''RETURN'']"

definition drop_in :: "ustr \<Rightarrow> rule" where
  "drop_in interface = [lit ''-i'', interface, lit ''-j'', lit ''DROP'']"

definition drop_out :: "ustr \<Rightarrow> rule" where
  "drop_out interface = [lit ''-o'', interface, lit ''-j'', lit ''DROP'']"

definition ensure_return :: "netfilter_tool \<Rightarrow> ustr \<Rightarrow> unit fw_action" where
  "ensure_return K chain =
    fw_bind (iptables_exists K ([lit ''-t'', FILTER, lit ''-C'', chain] @ return_rule)) (\<lambda>found.
      if \<not> found then iptables K ([lit ''-t'', FILTER, lit ''-A'', chain] @ return_rule) else fw_return ())"

definition ensure_lock_chains :: "netfilter_tool \<Rightarrow> ustr list \<Rightarrow> unit fw_action" where
  "ensure_lock_chains K service_interfaces =
    fw_bind (ensure_chain_exists K FILTER LOCK_INPUT_CHAIN) (\<lambda>_.
    fw_bind (ensure_chain_exists K FILTER LOCK_FORWARD_CHAIN) (\<lambda>_.
    fw_bind (ensure_return K LOCK_INPUT_CHAIN) (\<lambda>_.
    fw_bind (ensure_return K LOCK_FORWARD_CHAIN) (\<lambda>_.
    fw_bind (ensure_lock_rule K LOCK_INPUT_CHAIN (drop_in IFNAME)) (\<lambda>_.
    fw_bind (ensure_lock_rule K LOCK_FORWARD_CHAIN (drop_in IFNAME)) (\<lambda>_.
    fw_bind (ensure_lock_rule K LOCK_FORWARD_CHAIN (drop_out IFNAME)) (\<lambda>_.
    for_each (\<lambda>interface.
      fw_bind (ensure_lock_rule K LOCK_INPUT_CHAIN (drop_in interface)) (\<lambda>_.
      ensure_lock_rule K LOCK_FORWARD_CHAIN (drop_in interface))) service_interfaces)))))))"

record firewall_lock =
  fl_armed :: bool

definition lock_hook :: "ustr \<Rightarrow> rule" where
  "lock_hook chain = [lit ''-j'', chain]"

definition reassert :: "netfilter_tool \<Rightarrow> firewall_lock \<Rightarrow> unit fw_action" where
  "reassert K lock =
    (if \<not> fl_armed lock then fw_return ()
     else iptables_restore_noflush K FILTER
            [InsertLine INPUT 1 (lock_hook LOCK_INPUT_CHAIN), InsertLine FORWARD 1 (lock_hook LOCK_FORWARD_CHAIN)])"

definition clear_fail_closed_lock :: "netfilter_tool \<Rightarrow> unit fw_action" where
  "clear_fail_closed_lock K =
    fw_bind (remove_all_rules K FILTER INPUT (lock_hook LOCK_INPUT_CHAIN)) (\<lambda>_.
    remove_all_rules K FILTER FORWARD (lock_hook LOCK_FORWARD_CHAIN))"

definition unlock :: "netfilter_tool \<Rightarrow> firewall_lock \<Rightarrow> unit fw_action" where
  "unlock K lock = (if \<not> fl_armed lock then fw_return () else clear_fail_closed_lock K)"

definition lock_vpn_traffic :: "netfilter_tool \<Rightarrow> 'n service_route list \<Rightarrow> bool \<Rightarrow> firewall_lock fw_action" where
  "lock_vpn_traffic K routes guard_service_interfaces =
    fw_bind (ensure_lock_chains K (if guard_service_interfaces then direct_interfaces routes else [])) (\<lambda>_.
    fw_bind (reassert K \<lparr> fl_armed = True \<rparr>) (\<lambda>_.
    fw_return \<lparr> fl_armed = True \<rparr>))"

definition lock_existing_vpn :: "netfilter_tool \<Rightarrow> firewall_lock fw_action" where
  "lock_existing_vpn K =
    fw_bind (ensure_lock_chains K []) (\<lambda>_.
    fw_bind (reassert K \<lparr> fl_armed = True \<rparr>) (\<lambda>_.
    fw_return \<lparr> fl_armed = True \<rparr>))"

section \<open>Is the boundary in place?\<close>

fun owned_scan :: "ustr \<Rightarrow> ustr list \<Rightarrow> ustr list \<Rightarrow> ustr list" where
  "owned_scan lock_rule remaining [] = remaining"
| "owned_scan lock_rule remaining (line # ls) =
    (if line = lock_rule then owned_scan lock_rule remaining ls
     else if line \<in> set remaining then owned_scan lock_rule (remove1 line remaining) ls
     else remaining)"

definition owned_rules_are_prefix :: "netfilter_tool \<Rightarrow> ustr \<Rightarrow> ustr \<Rightarrow> ustr \<Rightarrow> ustr list \<Rightarrow> bool fw_action" where
  "owned_rules_are_prefix K table chain lock_rule expected k =
    (let arguments = [lit ''-t'', table, lit ''-S'', chain]
     in case iptables_output K arguments k of
          (Finished (Some code) out, k') \<Rightarrow>
            Some (if code = 0
                  then Inr (owned_scan lock_rule expected
                              (filter (\<lambda>line. str_starts_with line (chain_prefix chain)) (str_lines out)) = [])
                  else if code = 1 then Inr False else Inl (CommandError ''iptables'' arguments (Some code)), k')
        | (Finished None _, k') \<Rightarrow> Some (Inl (CommandError ''iptables'' arguments None), k')
        | (Unlaunched, k') \<Rightarrow> Some (Inl (NotExecuted ''iptables'' arguments), k'))"

definition chain_rules :: "netfilter_tool \<Rightarrow> ustr \<Rightarrow> ustr \<Rightarrow> ustr fw_action" where
  "chain_rules K table chain k =
    (let arguments = [lit ''-t'', table, lit ''-S'', chain]
     in case iptables_output K arguments k of (r, k') \<Rightarrow> Some (command_output ''iptables'' arguments r, k'))"

definition split_ascii_whitespace :: "ustr \<Rightarrow> ustr list" where
  "split_ascii_whitespace s = filter (\<lambda>w. w \<noteq> []) (split_where (\<lambda>c. c \<in> {9, 10, 12, 13, 32}) s)"

definition has_pair :: "ustr \<Rightarrow> string \<Rightarrow> ustr \<Rightarrow> bool" where
  "has_pair rule option value = list_ex (\<lambda>pair. pair = (lit option, value)) (windows2 (split_ascii_whitespace rule))"

definition same_origin_rule_text_installed :: "ustr \<Rightarrow> ustr \<Rightarrow> same_origin_access \<Rightarrow> bool" where
  "same_origin_rule_text_installed input forward access =
    (let peer_set = lit ''--match-set rsv_a_'';
         dns = show_ipv4 (so_dns access) @ lit ''/32'';
         ingress = show_ipv4 (so_ingress access) @ lit ''/32'';
         input_has = (\<lambda>protocol. list_ex (\<lambda>rule.
           str_contains rule (lit ''-i '' @ IFNAME @ lit '' -p '' @ lit protocol) \<and> str_contains rule peer_set
           \<and> has_pair rule ''-d'' dns \<and> has_pair rule ''--dport'' (lit ''53'') \<and> str_ends_with rule (lit ''-j ACCEPT''))
           (str_lines input));
         request = list_ex (\<lambda>rule.
           str_contains rule (lit ''-i '' @ IFNAME @ lit '' -p tcp'') \<and> str_contains rule peer_set
           \<and> has_pair rule ''-d'' ingress \<and> has_pair rule ''--dport'' (lit ''443'')
           \<and> has_pair rule ''--ctstate'' (lit ''NEW,ESTABLISHED'') \<and> str_ends_with rule (lit ''-j ACCEPT''))
           (str_lines forward);
         reply = list_ex (\<lambda>rule.
           str_contains rule (lit ''-o '' @ IFNAME @ lit '' -p tcp'') \<and> has_pair rule ''-s'' ingress
           \<and> has_pair rule ''--sport'' (lit ''443'') \<and> str_contains rule peer_set
           \<and> has_pair rule ''--ctstate'' (lit ''RELATED,ESTABLISHED'') \<and> str_ends_with rule (lit ''-j ACCEPT''))
           (str_lines forward)
     in input_has ''udp'' \<and> input_has ''tcp'' \<and> request \<and> reply)"

definition same_origin_rules_installed :: "netfilter_tool \<Rightarrow> same_origin_access \<Rightarrow> bool fw_action" where
  "same_origin_rules_installed K access =
    fw_bind (chain_rules K FILTER INPUT_CHAIN) (\<lambda>input.
    fw_bind (chain_rules K FILTER FORWARD_CHAIN) (\<lambda>forward.
    fw_return (same_origin_rule_text_installed input forward access)))"

text \<open>A conjunction of checks, left to right, that stops at the first that is false or fails.\<close>

fun fw_all :: "bool fw_action list \<Rightarrow> bool fw_action" where
  "fw_all [] = fw_return True"
| "fw_all (m # ms) = fw_bind m (\<lambda>b. if b then fw_all ms else fw_return False)"

definition hook_text :: "ustr \<Rightarrow> rule \<Rightarrow> ustr" where
  "hook_text chain rule = lit ''-A '' @ chain @ 32 # join_with [32] rule"

definition input_hook :: "ustr \<Rightarrow> rule" where
  "input_hook interface = [lit ''-i'', interface, lit ''-j'', INPUT_CHAIN]"

definition dispatch_hook :: rule where
  "dispatch_hook = [lit ''-j'', FORWARD_DISPATCH_CHAIN]"

definition input_hooks :: "'n service_route list \<Rightarrow> bool \<Rightarrow> ustr list" where
  "input_hooks routes guard_service_interfaces =
    (if guard_service_interfaces
     then foldl push_new [hook_text INPUT (input_hook IFNAME)]
            (map (\<lambda>route. hook_text INPUT (input_hook (sr_interface route))) (filter sr_directly_connected routes))
     else [hook_text INPUT (input_hook IFNAME)])"

definition required_rules :: "(ustr \<times> ustr \<times> rule) list" where
  "required_rules =
    [(FILTER, INPUT, input_hook IFNAME), (FILTER, FORWARD, dispatch_hook),
     (FILTER, INPUT_CHAIN, quarantine_rule), (FILTER, FORWARD_CHAIN, quarantine_rule),
     (FILTER, INPUT_CHAIN, transition_block_rule (lit ''tcp'')), (FILTER, FORWARD_CHAIN, transition_block_rule (lit ''tcp'')),
     (FILTER, INPUT_CHAIN, [lit ''-j'', lit ''DROP'']), (FILTER, FORWARD_CHAIN, [lit ''-j'', lit ''DROP'']),
     (NAT, NAT_CHAIN, return_rule)]"

definition rule_installed :: "netfilter_tool \<Rightarrow> ustr \<times> ustr \<times> rule \<Rightarrow> bool fw_action" where
  "rule_installed K r = (case r of (table, chain, rule) \<Rightarrow> iptables_exists K ([lit ''-t'', table, lit ''-C'', chain] @ rule))"

definition set_installed :: "netfilter_tool \<Rightarrow> ustr \<Rightarrow> bool fw_action" where
  "set_installed K name k =
    Some (case nf_list_set K name (kn_sets k) of
            Unlaunched \<Rightarrow> Inl (IpsetInspectFailed name)
          | Finished (Some code) _ \<Rightarrow>
              if code = 1 then Inr False else if code = 0 then Inr True
              else Inl (CommandError ''ipset'' [lit ''list'', name] (Some code))
          | Finished None _ \<Rightarrow> Inl (CommandError ''ipset'' [lit ''list'', name] None), k)"

definition vpn_firewall_installed ::
  "netfilter_tool \<Rightarrow> 'n ipnet \<Rightarrow> host_view \<Rightarrow> 'n \<Rightarrow> 'n list \<Rightarrow> bool \<Rightarrow> same_origin_access option \<Rightarrow> bool fw_action" where
  "vpn_firewall_installed K N host client services guard_service_interfaces same_origin =
    fw_bind (fw_all (map (\<lambda>(table, chain). iptables_exists K [lit ''-t'', table, lit ''-S'', chain])
      [(FILTER, INPUT_CHAIN), (FILTER, FORWARD_CHAIN), (FILTER, FORWARD_DISPATCH_CHAIN), (NAT, NAT_CHAIN)])) (\<lambda>chains.
    if \<not> chains then fw_return False
    else fw_bind (fw_result (resolve_service_routes N host services guard_service_interfaces)) (\<lambda>routes.
      fw_all ([owned_rules_are_prefix K FILTER INPUT (hook_text INPUT (lock_hook LOCK_INPUT_CHAIN))
                 (input_hooks routes guard_service_interfaces),
               owned_rules_are_prefix K FILTER FORWARD (hook_text FORWARD (lock_hook LOCK_FORWARD_CHAIN))
                 [hook_text FORWARD dispatch_hook]]
        @ map (rule_installed K) (required_rules @ [(NAT, POSTROUTING, [lit ''-s'', ip_show N client, lit ''-j'', NAT_CHAIN])])
        @ map (set_installed K) [QUARANTINE_SET, TRANSITION_BLOCK_SET, REQUIRED_SET, LIVE_SET]
        @ (case same_origin of None \<Rightarrow> [] | Some access \<Rightarrow> [same_origin_rules_installed K access]))))"

section \<open>Installing\<close>

definition setup_input_guard ::
  "netfilter_tool \<Rightarrow> ustr \<Rightarrow> policy_sets list \<Rightarrow> 'n service_route list \<Rightarrow> bool \<Rightarrow> same_origin_access option \<Rightarrow> unit fw_action" where
  "setup_input_guard K all_peers sets routes guard_service_interfaces same_origin =
    fw_bind (ensure_chain K FILTER INPUT_CHAIN) (\<lambda>_.
    fw_bind (for_each (append_rule K FILTER INPUT_CHAIN)
      (input_rule_plan all_peers sets routes guard_service_interfaces same_origin)) (\<lambda>_.
    fw_bind (remove_all_rules K FILTER INPUT (input_hook IFNAME)) (\<lambda>_.
    fw_bind (insert_rule_at K FILTER INPUT 2 (input_hook IFNAME)) (\<lambda>_.
    for_each (\<lambda>interface.
      fw_bind (remove_all_rules K FILTER INPUT (input_hook interface)) (\<lambda>_.
      insert_rule_at K FILTER INPUT 2 (input_hook interface)))
      (if guard_service_interfaces then direct_interfaces routes else [])))))"

text \<open>The commands of ipset on the sets of the kernel; whether a set may be destroyed depends on the rules that name it.\<close>

definition on_ipset :: "netfilter_tool \<Rightarrow> (ipset_tool \<Rightarrow> ipset_table \<Rightarrow> bool \<times> ipset_table) \<Rightarrow> unit fw_action" where
  "on_ipset K f k =
    (case f (nf_ipset K (kn_chains k)) (kn_sets k) of
       (ok, s) \<Rightarrow> Some (if ok then Inr () else Inl IpsetRestoreFailed, k \<lparr> kn_sets := s \<rparr>))"

definition prepare_policy ::
  "netfilter_tool \<Rightarrow> 'n ipnet \<Rightarrow> 'n \<Rightarrow> 'n service_route list \<Rightarrow> game_vpn_policy list \<Rightarrow> ustr \<Rightarrow> prepared_policy fw_action" where
  "prepare_policy K N client routes policies generation k =
    (case prepare N (nf_ipset K (kn_chains k)) client routes policies generation (kn_sets k) of
       (None, s) \<Rightarrow> Some (Inl IpsetRestoreFailed, k \<lparr> kn_sets := s \<rparr>)
     | (Some policy, s) \<Rightarrow> Some (Inr policy, k \<lparr> kn_sets := s \<rparr>))"

definition cleanup_stale_sets :: "netfilter_tool \<Rightarrow> prepared_policy \<Rightarrow> kernel \<Rightarrow> kernel" where
  "cleanup_stale_sets K policy k =
    k \<lparr> kn_sets := cleanup_stale (nf_ipset K (kn_chains k)) (nf_set_names K (kn_sets k)) policy (kn_sets k) \<rparr>"

definition drop_prepared :: "netfilter_tool \<Rightarrow> prepared_policy \<Rightarrow> kernel \<Rightarrow> kernel" where
  "drop_prepared K policy k =
    k \<lparr> kn_sets := drop_policy (nf_ipset K (kn_chains k)) (nf_set_names K (kn_sets k)) policy (kn_sets k) \<rparr>"

text \<open>The policy is dropped when the function returns: as it was prepared on an error, as it was marked otherwise.\<close>

definition dropping ::
  "netfilter_tool \<Rightarrow> prepared_policy \<Rightarrow> (prepared_policy \<times> firewall_lock) fw_action \<Rightarrow> firewall_lock fw_action" where
  "dropping K policy m k =
    Option.bind (m k) (\<lambda>(r, k'). case r of
        Inl e \<Rightarrow> Some (Inl e, drop_prepared K policy k')
      | Inr (marked, lock) \<Rightarrow> Some (Inr lock, drop_prepared K marked k'))"

definition append_chain :: "ustr \<Rightarrow> rule list \<Rightarrow> restore_line list" where
  "append_chain chain rules = FlushLine chain # map (AppendLine chain) rules"

definition replace_live ::
  "netfilter_tool \<Rightarrow> prepared_policy \<Rightarrow> 'n service_route list \<Rightarrow> bool \<Rightarrow> same_origin_access option
    \<Rightarrow> prepared_policy fw_action" where
  "replace_live K policy routes guard_service_interfaces same_origin =
    fw_bind (iptables_restore_noflush K FILTER
      (append_chain INPUT_CHAIN
         (input_rule_plan (pp_all_peers policy) (pp_sets policy) routes guard_service_interfaces same_origin)
       @ append_chain FORWARD_CHAIN (forwarding_rule_plan (pp_all_peers policy) (pp_sets policy) same_origin)
       @ append_chain FORWARD_DISPATCH_CHAIN (dispatch_rule_plan routes guard_service_interfaces))) (\<lambda>_.
    fw_bind (iptables_restore_noflush K NAT (append_chain NAT_CHAIN (nat_rule_plan (pp_sets policy)))) (\<lambda>_.
    fw_return (policy \<lparr> pp_live := True \<rparr>)))"

definition legacy_sources :: "ustr \<Rightarrow> ustr list" where
  "legacy_sources client_text = remdups_adj (sort [client_text, lit ''10.13.0.0/16'', lit ''10.13.37.0/24''])"

definition setup_forward_chains ::
  "netfilter_tool \<Rightarrow> prepared_policy \<Rightarrow> 'n service_route list \<Rightarrow> bool \<Rightarrow> same_origin_access option \<Rightarrow> unit fw_action" where
  "setup_forward_chains K policy routes guard_service_interfaces same_origin =
    fw_bind (ensure_chain K FILTER FORWARD_CHAIN) (\<lambda>_.
    fw_bind (for_each (append_rule K FILTER FORWARD_CHAIN)
      (forwarding_rule_plan (pp_all_peers policy) (pp_sets policy) same_origin)) (\<lambda>_.
    fw_bind (ensure_chain K FILTER FORWARD_DISPATCH_CHAIN) (\<lambda>_.
    fw_bind (for_each (append_rule K FILTER FORWARD_DISPATCH_CHAIN)
      (dispatch_rule_plan routes guard_service_interfaces)) (\<lambda>_.
    fw_bind (remove_all_rules K FILTER FORWARD dispatch_hook) (\<lambda>_.
    insert_rule_at K FILTER FORWARD 2 dispatch_hook)))))"

definition setup_nat_chain :: "netfilter_tool \<Rightarrow> ustr \<Rightarrow> prepared_policy \<Rightarrow> unit fw_action" where
  "setup_nat_chain K client_text policy =
    fw_bind (ensure_chain K NAT NAT_CHAIN) (\<lambda>_.
    fw_bind (for_each (append_rule K NAT NAT_CHAIN) (nat_rule_plan (pp_sets policy))) (\<lambda>_.
    fw_bind (for_each (\<lambda>source.
      fw_bind (remove_all_rules K NAT POSTROUTING
        ([lit ''-s'', source, lit ''!'', lit ''-o'', IFNAME] @ args [''-j'', ''MASQUERADE''])) (\<lambda>_.
      remove_all_rules K NAT POSTROUTING [lit ''-s'', source, lit ''-j'', NAT_CHAIN])) (legacy_sources client_text)) (\<lambda>_.
    insert_rule K NAT POSTROUTING [lit ''-s'', client_text, lit ''-j'', NAT_CHAIN])))"

definition install_chains ::
  "netfilter_tool \<Rightarrow> ustr \<Rightarrow> prepared_policy \<Rightarrow> 'n service_route list \<Rightarrow> bool \<Rightarrow> same_origin_access option \<Rightarrow> unit fw_action" where
  "install_chains K client_text policy routes guard_service_interfaces same_origin =
    fw_bind (setup_input_guard K (pp_all_peers policy) (pp_sets policy) routes guard_service_interfaces same_origin) (\<lambda>_.
    fw_bind (setup_forward_chains K policy routes guard_service_interfaces same_origin) (\<lambda>_.
    setup_nat_chain K client_text policy))"

definition activate ::
  "netfilter_tool \<Rightarrow> 'n ipnet \<Rightarrow> host_view \<Rightarrow> 'n \<Rightarrow> 'n list \<Rightarrow> prepared_policy \<Rightarrow> 'n service_route list \<Rightarrow> bool
    \<Rightarrow> same_origin_access option \<Rightarrow> (prepared_policy \<times> firewall_lock) fw_action" where
  "activate K N host client services policy routes guard_service_interfaces same_origin =
    fw_bind (vpn_firewall_installed K N host client services guard_service_interfaces same_origin) (\<lambda>installed.
    if installed then
      fw_bind (replace_live K policy routes guard_service_interfaces same_origin) (\<lambda>live k.
      fw_return (live, \<lparr> fl_armed = False \<rparr>) (cleanup_stale_sets K live k))
    else
      fw_bind (lock_vpn_traffic K routes guard_service_interfaces) (\<lambda>lock.
      fw_bind (install_chains K (ip_show N client) policy routes guard_service_interfaces same_origin) (\<lambda>_.
      fw_bind (reassert K lock) (\<lambda>_ k.
      fw_return (policy \<lparr> pp_live := True \<rparr>, lock) (cleanup_stale_sets K (policy \<lparr> pp_live := True \<rparr>) k)))))"

definition setup_vpn_firewall ::
  "netfilter_tool \<Rightarrow> 'n ipnet \<Rightarrow> host_view \<Rightarrow> ustr \<Rightarrow> 'n \<Rightarrow> 'n list \<Rightarrow> game_vpn_policy list \<Rightarrow> bool
    \<Rightarrow> same_origin_access option \<Rightarrow> firewall_lock fw_action" where
  "setup_vpn_firewall K N host generation client services policies guard_service_interfaces same_origin =
    fw_bind (fw_result (verify_ip_forwarding host)) (\<lambda>_.
    fw_bind (fw_result (resolve_service_routes N host services guard_service_interfaces)) (\<lambda>routes.
    fw_bind (on_ipset K ensure_transition_sets) (\<lambda>_.
    fw_bind (prepare_policy K N client routes policies generation) (\<lambda>policy.
    dropping K policy (activate K N host client services policy routes guard_service_interfaces same_origin)))))"

section \<open>The kernel update of a reconciliation\<close>

definition apply_kernel_state ::
  "netfilter_tool \<Rightarrow> (nat \<Rightarrow> hub_tool) \<Rightarrow> 'n ipnet \<Rightarrow> host_view \<Rightarrow> ustr \<Rightarrow> interface_configuration \<Rightarrow> 'n \<Rightarrow> 'n list
    \<Rightarrow> game_vpn_policy list \<Rightarrow> bool \<Rightarrow> same_origin_access option \<Rightarrow> bool \<Rightarrow> unit fw_action" where
  "apply_kernel_state K H N host generation cfg client services policies guard_service_interfaces same_origin incremental =
    (let boundary = setup_vpn_firewall K N host generation client services policies guard_service_interfaces same_origin;
         full = fw_bind (lock_existing_vpn K) (\<lambda>early.
                fw_bind boundary (\<lambda>policy_lock.
                fw_bind (configure_hub_with_retry H cfg 3) (\<lambda>_.
                fw_bind (unlock K policy_lock) (\<lambda>_.
                unlock K early))))
     in (\<lambda>k. if incremental then
              (case configure_hub_incremental (H 0) cfg k of
                 (Inr _, k1) \<Rightarrow> fw_bind boundary (unlock K) k1
               | (Inl (Failed e), k1) \<Rightarrow> Some (Inl (HubError e), k1)
               | (Inl NeedsFull, k1) \<Rightarrow> full k1)
            else full k))"

definition apply_then_release_guards :: "unit fw_action \<Rightarrow> unit fw_action \<Rightarrow> unit fw_action" where
  "apply_then_release_guards apply_all release = fw_bind apply_all (\<lambda>_. release)"

definition release_guards :: "netfilter_tool \<Rightarrow> unit fw_action" where
  "release_guards K = fw_bind (clear_fail_closed_lock K) (\<lambda>_. on_ipset K clear_transition_sets)"

definition update_kernel ::
  "netfilter_tool \<Rightarrow> (nat \<Rightarrow> hub_tool) \<Rightarrow> 'n ipnet \<Rightarrow> host_view \<Rightarrow> ustr \<Rightarrow> interface_configuration \<Rightarrow> 'n \<Rightarrow> 'n list
    \<Rightarrow> game_vpn_policy list \<Rightarrow> bool \<Rightarrow> same_origin_access option \<Rightarrow> bool \<Rightarrow> unit fw_action" where
  "update_kernel K H N host generation cfg client services policies guard_service_interfaces same_origin incremental =
    apply_then_release_guards
      (apply_kernel_state K H N host generation cfg client services policies guard_service_interfaces same_origin incremental)
      (release_guards K)"

section \<open>Locked, untouched, installed\<close>

text \<open>The lock chains hold drops, and a return at the end at most.\<close>

definition lock_chain_ok :: "rule list \<Rightarrow> bool" where
  "lock_chain_ok rs \<longleftrightarrow> (\<exists>ds tl. rs = ds @ tl \<and> (\<forall>d \<in> set ds. \<exists>i. d = drop_in i \<or> d = drop_out i) \<and> tl \<in> {[], [return_rule]})"

definition lock_chains_ok :: "kernel \<Rightarrow> bool" where
  "lock_chains_ok k \<longleftrightarrow> lock_chain_ok (rules_in (kn_chains k) FILTER LOCK_INPUT_CHAIN)
    \<and> lock_chain_ok (rules_in (kn_chains k) FILTER LOCK_FORWARD_CHAIN)"

definition lock_complete :: "kernel \<Rightarrow> bool" where
  "lock_complete k \<longleftrightarrow> lock_chains_ok k \<and> drop_in IFNAME \<in> set (rules_in (kn_chains k) FILTER LOCK_INPUT_CHAIN)
    \<and> drop_in IFNAME \<in> set (rules_in (kn_chains k) FILTER LOCK_FORWARD_CHAIN)
    \<and> drop_out IFNAME \<in> set (rules_in (kn_chains k) FILTER LOCK_FORWARD_CHAIN)"

definition locked :: "kernel \<Rightarrow> bool" where
  "locked k \<longleftrightarrow> lock_complete k \<and> (\<exists>rs. kn_chains k (FILTER, INPUT) = Some (lock_hook LOCK_INPUT_CHAIN # rs))
    \<and> (\<exists>rs. kn_chains k (FILTER, FORWARD) = Some (lock_hook LOCK_FORWARD_CHAIN # rs))"

text \<open>Two kernels with the same boundary, apart from the lock.\<close>

definition same_boundary :: "kernel \<Rightarrow> kernel \<Rightarrow> bool" where
  "same_boundary k0 k \<longleftrightarrow>
    filter (\<lambda>r. r \<noteq> lock_hook LOCK_INPUT_CHAIN) (rules_in (kn_chains k) FILTER INPUT)
      = filter (\<lambda>r. r \<noteq> lock_hook LOCK_INPUT_CHAIN) (rules_in (kn_chains k0) FILTER INPUT)
    \<and> filter (\<lambda>r. r \<noteq> lock_hook LOCK_FORWARD_CHAIN) (rules_in (kn_chains k) FILTER FORWARD)
      = filter (\<lambda>r. r \<noteq> lock_hook LOCK_FORWARD_CHAIN) (rules_in (kn_chains k0) FILTER FORWARD)
    \<and> (\<forall>c \<in> {INPUT_CHAIN, FORWARD_CHAIN, FORWARD_DISPATCH_CHAIN}. kn_chains k (FILTER, c) = kn_chains k0 (FILTER, c))"

text \<open>A hook that only allowed rules precede.\<close>

definition hooked :: "rule set \<Rightarrow> rule \<Rightarrow> rule list \<Rightarrow> bool" where
  "hooked allowed hook rs \<longleftrightarrow> (\<exists>pre post. rs = pre @ hook # post \<and> set pre \<subseteq> insert hook allowed)"

definition other_input_hooks :: "rule set" where
  "other_input_hooks = {input_hook i | i. i \<noteq> IFNAME}"

definition hooks_in_place :: "kernel \<Rightarrow> bool" where
  "hooks_in_place k \<longleftrightarrow>
    hooked (insert (lock_hook LOCK_INPUT_CHAIN) other_input_hooks) (input_hook IFNAME) (rules_in (kn_chains k) FILTER INPUT)
    \<and> hooked {lock_hook LOCK_FORWARD_CHAIN} dispatch_hook (rules_in (kn_chains k) FILTER FORWARD)"

definition installed ::
  "prepared_policy \<Rightarrow> 'n service_route list \<Rightarrow> bool \<Rightarrow> same_origin_access option \<Rightarrow> kernel \<Rightarrow> bool" where
  "installed policy routes guarded same_origin k \<longleftrightarrow>
    kn_chains k (FILTER, INPUT_CHAIN) = Some (input_rule_plan (pp_all_peers policy) (pp_sets policy) routes guarded same_origin)
    \<and> kn_chains k (FILTER, FORWARD_CHAIN) = Some (forwarding_rule_plan (pp_all_peers policy) (pp_sets policy) same_origin)
    \<and> kn_chains k (FILTER, FORWARD_DISPATCH_CHAIN) = Some (dispatch_rule_plan routes guarded)
    \<and> hooks_in_place k"

end
