(* ===== verification/Vpn_Update.thy ===== *)
theory Vpn_Update
  imports Vpn_Install
begin

text \<open>
  What a kernel update leaves behind, on every path: the lock drops all tunnel traffic, and between
  the first command and the last the boundary is the old one, locked, or the new one.
\<close>

section \<open>Predicates on the chains\<close>

lemma chain_names_distinct [simp]:
  "INPUT_CHAIN \<noteq> INPUT" "FORWARD_CHAIN \<noteq> INPUT" "FORWARD_DISPATCH_CHAIN \<noteq> INPUT" "LOCK_INPUT_CHAIN \<noteq> INPUT" "LOCK_FORWARD_CHAIN \<noteq> INPUT"
  "INPUT_CHAIN \<noteq> FORWARD" "FORWARD_CHAIN \<noteq> FORWARD" "FORWARD_DISPATCH_CHAIN \<noteq> FORWARD" "LOCK_INPUT_CHAIN \<noteq> FORWARD" "LOCK_FORWARD_CHAIN \<noteq> FORWARD"
  "INPUT_CHAIN \<noteq> FORWARD_CHAIN" "INPUT_CHAIN \<noteq> FORWARD_DISPATCH_CHAIN" "INPUT_CHAIN \<noteq> LOCK_INPUT_CHAIN" "INPUT_CHAIN \<noteq> LOCK_FORWARD_CHAIN"
  "FORWARD_CHAIN \<noteq> FORWARD_DISPATCH_CHAIN" "FORWARD_CHAIN \<noteq> LOCK_INPUT_CHAIN" "FORWARD_CHAIN \<noteq> LOCK_FORWARD_CHAIN"
  "FORWARD_DISPATCH_CHAIN \<noteq> LOCK_INPUT_CHAIN" "FORWARD_DISPATCH_CHAIN \<noteq> LOCK_FORWARD_CHAIN" "LOCK_INPUT_CHAIN \<noteq> LOCK_FORWARD_CHAIN"
  by (simp_all add: chain_names)

lemmas chain_names_distinct' [simp] = chain_names_distinct [symmetric]

lemma hook_rules_distinct [simp]:
  "input_hook i \<noteq> lock_hook c" "dispatch_hook \<noteq> lock_hook LOCK_FORWARD_CHAIN" "dispatch_hook \<noteq> lock_hook LOCK_INPUT_CHAIN"
  "input_hook i = input_hook j \<longleftrightarrow> i = j" "drop_in i \<noteq> return_rule" "drop_out i \<noteq> return_rule" "lock_hook c = lock_hook d \<longleftrightarrow> c = d"
  by (simp_all add: input_hook_def lock_hook_def dispatch_hook_def drop_in_def drop_out_def return_rule_def chain_names)

lemmas hook_rules_distinct' [simp] = hook_rules_distinct(1-3,5,6) [symmetric]

lemma drop_rules_inject:
  "drop_in i = drop_in j \<longleftrightarrow> i = j" "drop_out i = drop_out j \<longleftrightarrow> i = j" "drop_in i \<noteq> drop_out j" "drop_out i \<noteq> drop_in j"
  by (simp_all add: drop_in_def drop_out_def)

lemma rules_in_simps:
  "n (t, c) = Some rs \<Longrightarrow> rules_in n t c = rs"
  "n (t, c) = None \<Longrightarrow> rules_in n t c = []"
  by (simp_all add: rules_in_def)

lemma rules_in_member: "r \<in> set (rules_in n t c) \<Longrightarrow> \<exists>rs. n (t, c) = Some rs"
  by (cases "n (t, c)") (auto simp: rules_in_def)

text \<open>Predicates that the steps of the lock keep.\<close>

definition lock_tolerant :: "(kernel \<Rightarrow> bool) \<Rightarrow> bool" where
  "lock_tolerant P \<longleftrightarrow> (\<forall>k. \<forall>c \<in> {LOCK_INPUT_CHAIN, LOCK_FORWARD_CHAIN}. P k \<longrightarrow>
    (kn_chains k (FILTER, c) = None \<longrightarrow> P (with_chain FILTER c [] k))
    \<and> (\<forall>rs. kn_chains k (FILTER, c) = Some rs \<longrightarrow>
         (\<forall>i. P (with_chain FILTER c (drop_in i # rs) k) \<and> P (with_chain FILTER c (drop_out i # rs) k))
         \<and> (return_rule \<notin> set rs \<longrightarrow> P (with_chain FILTER c (rs @ [return_rule]) k))))"

definition hook_tolerant :: "(kernel \<Rightarrow> bool) \<Rightarrow> bool" where
  "hook_tolerant P \<longleftrightarrow> (\<forall>k is fs. P k \<longrightarrow> kn_chains k (FILTER, INPUT) = Some is \<longrightarrow> kn_chains k (FILTER, FORWARD) = Some fs \<longrightarrow>
    P (with_chain FILTER FORWARD (lock_hook LOCK_FORWARD_CHAIN # fs) (with_chain FILTER INPUT (lock_hook LOCK_INPUT_CHAIN # is) k)))"

lemma lock_chain_ok_cons: "lock_chain_ok rs \<Longrightarrow> lock_chain_ok (drop_in i # rs) \<and> lock_chain_ok (drop_out i # rs)"
  unfolding lock_chain_ok_def by (metis append_Cons set_ConsD)

lemma lock_chain_ok_return: "lock_chain_ok rs \<Longrightarrow> return_rule \<notin> set rs \<Longrightarrow> lock_chain_ok (rs @ [return_rule])"
proof -
  assume "lock_chain_ok rs" "return_rule \<notin> set rs"
  then have "\<forall>d \<in> set rs. \<exists>i. d = drop_in i \<or> d = drop_out i" by (auto simp: lock_chain_ok_def)
  then show ?thesis unfolding lock_chain_ok_def by (intro exI [of _ rs] exI [of _ "[return_rule]"]) simp
qed

lemma lock_chain_ok_Nil [simp]: "lock_chain_ok []"
  by (simp add: lock_chain_ok_def)

lemma tolerant:
  "lock_tolerant lock_chains_ok" "lock_tolerant lock_complete" "lock_tolerant locked" "lock_tolerant (same_boundary k0)"
  "hook_tolerant lock_chains_ok" "hook_tolerant locked" "hook_tolerant (same_boundary k0)"
  unfolding lock_tolerant_def hook_tolerant_def
  by (auto simp: lock_chains_ok_def lock_complete_def locked_def same_boundary_def rules_in_simps
      lock_chain_ok_cons lock_chain_ok_return dest: rules_in_member)


lemma edit_insert_first: "edit_rules (InsertRule (Suc 0) r) x = Some rs \<longleftrightarrow> (\<exists>xs. x = Some xs \<and> rs = r # xs)"
  by (cases x) auto

context netfilter
begin

lemma keeps_ensure_lock_rule:
  assumes "lock_tolerant P" and "c \<in> {LOCK_INPUT_CHAIN, LOCK_FORWARD_CHAIN}" and "rule = drop_in i \<or> rule = drop_out i"
  shows "keeps P (ensure_lock_rule K c rule)"
proof -
  have one: "dec_digits (Suc 0) = lit ''1''" by (simp add: dec_digits.simps lit_def)
  have "keeps P (iptables K (edit_args FILTER c (InsertRule 1 rule)))"
  proof (rule keeps_edit)
    fix k rs
    assume "P k" "edit_rules (InsertRule 1 rule) (kn_chains k (FILTER, c)) = Some rs"
    then show "P (with_chain FILTER c rs k)"
      using assms by (cases "kn_chains k (FILTER, c)") (auto simp: lock_tolerant_def)
  qed
  then show ?thesis
    unfolding ensure_lock_rule_def using keeps_looks(1) [of P FILTER c rule]
    by (intro keeps_intros) (simp_all add: one)
qed

lemma keeps_ensure_return:
  assumes "lock_tolerant P" and "c \<in> {LOCK_INPUT_CHAIN, LOCK_FORWARD_CHAIN}"
  shows "keeps P (ensure_return K c)"
  unfolding keeps_def
proof (intro allI impI)
  fix k
  assume P: "P k"
  have "wp (iptables K (edit_args FILTER c (AppendRule return_rule))) (\<lambda>_. P) k"
    if absent: "return_rule \<notin> set (rules_in (kn_chains k) FILTER c)"
  proof (rule wp_edit)
    fix rs r
    assume "edit_rules (AppendRule return_rule) (kn_chains k (FILTER, c)) = Some rs"
    then show "P (with_chain FILTER c rs k)"
      using assms P absent by (cases "kn_chains k (FILTER, c)") (auto simp: lock_tolerant_def rules_in_simps)
  qed (rule P)
  then show "wp (ensure_return K c) (\<lambda>_. P) k"
    unfolding ensure_return_def wp_simps using P by (intro wp_check) auto
qed

lemma keeps_lock_chain:
  assumes "lock_tolerant P" and "c \<in> {LOCK_INPUT_CHAIN, LOCK_FORWARD_CHAIN}"
  shows "keeps P (ensure_chain_exists K FILTER c)"
  unfolding keeps_def
proof (intro allI impI)
  fix k
  assume P: "P k"
  have "wp (iptables K (edit_args FILTER c NewChain)) (\<lambda>_. P) k" if "kn_chains k (FILTER, c) = None"
    using that P assms by (intro wp_edit) (auto simp: lock_tolerant_def)
  then show "wp (ensure_chain_exists K FILTER c) (\<lambda>_. P) k"
    unfolding ensure_chain_exists_def wp_simps using P by (intro wp_list) auto
qed

lemma keeps_lock_chains: "lock_tolerant P \<Longrightarrow> keeps P (ensure_lock_chains K is)"
  unfolding ensure_lock_chains_def
  by (intro keeps_intros keeps_for_each keeps_lock_chain keeps_ensure_return keeps_ensure_lock_rule) auto

lemma keeps_reassert:
  assumes "hook_tolerant P"
  shows "keeps P (reassert K lock)"
proof -
  have "keeps P (iptables_restore_noflush K FILTER
      [InsertLine INPUT 1 (lock_hook LOCK_INPUT_CHAIN), InsertLine FORWARD 1 (lock_hook LOCK_FORWARD_CHAIN)])"
    unfolding keeps_def
  proof (intro allI impI wp_restore)
    fix k n
    let ?ls = "[InsertLine INPUT 1 (lock_hook LOCK_INPUT_CHAIN), InsertLine FORWARD 1 (lock_hook LOCK_FORWARD_CHAIN)]"
    assume P: "P k" and e: "edit_chains FILTER ?ls (kn_chains k) = Some n"
    then obtain ins fs where "kn_chains k (FILTER, INPUT) = Some ins" "kn_chains k (FILTER, FORWARD) = Some fs"
      by (cases "kn_chains k (FILTER, INPUT)"; cases "kn_chains k (FILTER, FORWARD)") (auto simp: edit_chain_def)
    then show "P (k \<lparr> kn_chains := n \<rparr>)"
      using P e assms by (auto simp: edit_chain_def hook_tolerant_def with_chain_def)
  qed
  then show ?thesis unfolding reassert_def by (intro keeps_intros)
qed

lemma ensures_reassert:
  assumes "lock_complete k" and "fl_armed lock"
  shows "ensures (reassert K lock) (\<lambda>_. locked) k"
  using assms unfolding reassert_def ensures_def
  by (auto simp: edit_chain_def locked_def lock_complete_def lock_chains_ok_def bind_eq_Some_conv edit_insert_first
      intro!: wp_restore)


lemma ensures_lock_rule:
  assumes "lock_tolerant P" and "P k" and "c \<in> {LOCK_INPUT_CHAIN, LOCK_FORWARD_CHAIN}" and "rule = drop_in i \<or> rule = drop_out i"
    and "\<And>k'. P k' \<Longrightarrow> rule \<in> set (rules_in (kn_chains k') FILTER c) \<Longrightarrow> Q k'"
  shows "ensures (ensure_lock_rule K c rule) (\<lambda>_. Q) k"
proof -
  have one: "dec_digits (Suc 0) = lit ''1''" by (simp add: dec_digits.simps lit_def)
  have "ensures (iptables K (edit_args FILTER c (InsertRule 1 rule))) (\<lambda>_ k'. rule \<in> set (rules_in (kn_chains k') FILTER c)) k"
    by (rule ensures_edit) (auto simp: edit_insert_first)
  then have "ensures (ensure_lock_rule K c rule) (\<lambda>_ k'. rule \<in> set (rules_in (kn_chains k') FILTER c)) k"
    unfolding ensure_lock_rule_def ensures_simps ensures_def [of "iptables_exists _ _"]
    by (intro wp_check) (auto simp: one)
  moreover have "ensures (ensure_lock_rule K c rule) (\<lambda>_. P) k"
    by (rule ensures_keeps [of P, OF keeps_ensure_lock_rule [OF assms(1,3,4)] assms(2)])
  ultimately show ?thesis using assms(5) by (auto simp: ensures_def wp_iff)
qed

lemma ensures_lock_chains:
  assumes "lock_chains_ok k"
  shows "ensures (ensure_lock_chains K interfaces) (\<lambda>_. lock_complete) k"
proof -
  let ?A = "\<lambda>k. lock_chains_ok k \<and> drop_in IFNAME \<in> set (rules_in (kn_chains k) FILTER LOCK_INPUT_CHAIN)"
  let ?B = "\<lambda>k. ?A k \<and> drop_in IFNAME \<in> set (rules_in (kn_chains k) FILTER LOCK_FORWARD_CHAIN)"
  have AB: "lock_tolerant ?A" "lock_tolerant ?B"
    unfolding lock_tolerant_def
    by (auto simp: lock_chains_ok_def rules_in_simps lock_chain_ok_cons lock_chain_ok_return dest: rules_in_member)
  have rest: "ensures (for_each (\<lambda>interface.
      fw_bind (ensure_lock_rule K LOCK_INPUT_CHAIN (drop_in interface)) (\<lambda>_.
      ensure_lock_rule K LOCK_FORWARD_CHAIN (drop_in interface))) interfaces) (\<lambda>_. lock_complete) k" if "lock_complete k" for k
    by (rule ensures_keeps [of lock_complete, OF _ that])
      (auto intro!: keeps_for_each keeps_intros keeps_ensure_lock_rule tolerant)
  have keep: "ensures (fw_bind m (\<lambda>_. m')) (\<lambda>_. Q) k"
    if "keeps lock_chains_ok m" "lock_chains_ok k" "\<And>k. lock_chains_ok k \<Longrightarrow> ensures m' (\<lambda>_. Q) k"
    for m :: "unit fw_action" and m' :: "unit fw_action" and Q k
    unfolding ensures_simps using ensures_keeps [of lock_chains_ok, OF that(1,2)] that(3) by (rule ensures_mono)
  have drops: "ensures (fw_bind (ensure_lock_rule K LOCK_INPUT_CHAIN (drop_in IFNAME)) (\<lambda>_.
    fw_bind (ensure_lock_rule K LOCK_FORWARD_CHAIN (drop_in IFNAME)) (\<lambda>_.
    fw_bind (ensure_lock_rule K LOCK_FORWARD_CHAIN (drop_out IFNAME)) (\<lambda>_.
    for_each (\<lambda>interface.
      fw_bind (ensure_lock_rule K LOCK_INPUT_CHAIN (drop_in interface)) (\<lambda>_.
      ensure_lock_rule K LOCK_FORWARD_CHAIN (drop_in interface))) interfaces)))) (\<lambda>_. lock_complete) k"
    if "lock_chains_ok k" for k
    unfolding ensures_simps(3)
  proof (rule ensures_lock_rule [where P = lock_chains_ok and i = IFNAME])
    fix k
    assume a: "lock_chains_ok k" "drop_in IFNAME \<in> set (rules_in (kn_chains k) FILTER LOCK_INPUT_CHAIN)"
    show "ensures (ensure_lock_rule K LOCK_FORWARD_CHAIN (drop_in IFNAME)) (\<lambda>_.
      ensures (ensure_lock_rule K LOCK_FORWARD_CHAIN (drop_out IFNAME)) (\<lambda>_.
      ensures (for_each (\<lambda>interface.
        fw_bind (ensure_lock_rule K LOCK_INPUT_CHAIN (drop_in interface)) (\<lambda>_.
        ensure_lock_rule K LOCK_FORWARD_CHAIN (drop_in interface))) interfaces) (\<lambda>_. lock_complete))) k"
    proof (rule ensures_lock_rule [where P = ?A and i = IFNAME])
      fix k
      assume "?A k" "drop_in IFNAME \<in> set (rules_in (kn_chains k) FILTER LOCK_FORWARD_CHAIN)"
      then show "ensures (ensure_lock_rule K LOCK_FORWARD_CHAIN (drop_out IFNAME)) (\<lambda>_.
        ensures (for_each (\<lambda>interface.
          fw_bind (ensure_lock_rule K LOCK_INPUT_CHAIN (drop_in interface)) (\<lambda>_.
          ensure_lock_rule K LOCK_FORWARD_CHAIN (drop_in interface))) interfaces) (\<lambda>_. lock_complete)) k"
        by (intro ensures_lock_rule [where P = ?B and i = IFNAME, OF AB(2)] rest) (auto simp: lock_complete_def)
    qed (use a AB in auto)
  qed (use that tolerant in auto)
  show ?thesis
    unfolding ensure_lock_chains_def
    by (intro keep keeps_lock_chain keeps_ensure_return tolerant assms drops) auto
qed

lemma lock_effect:
  assumes "lock_chains_ok k"
  shows "ensures (lock_vpn_traffic K routes guarded) (\<lambda>lock k'. locked k' \<and> fl_armed lock) k"
    and "ensures (lock_existing_vpn K) (\<lambda>lock k'. locked k' \<and> fl_armed lock) k"
  unfolding lock_vpn_traffic_def lock_existing_vpn_def ensures_simps
  by (rule ensures_mono [OF ensures_lock_chains [OF assms]], simp add: ensures_mono [OF ensures_reassert])+

lemma keeps_lock:
  assumes "lock_tolerant P" and "hook_tolerant P"
  shows "keeps P (lock_vpn_traffic K routes guarded)" and "keeps P (lock_existing_vpn K)"
  unfolding lock_vpn_traffic_def lock_existing_vpn_def
  by (intro keeps_intros keeps_lock_chains keeps_reassert assms)+

end

section \<open>Behind the lock\<close>

lemma locked_ignores:
  "c \<in> {INPUT_CHAIN, FORWARD_CHAIN, FORWARD_DISPATCH_CHAIN} \<Longrightarrow> ignores locked FILTER c" "ignores locked NAT c"
  by (auto simp: ignores_def locked_def lock_complete_def lock_chains_ok_def)

context netfilter
begin

lemma keeps_ignored:
  assumes "ignores P t c"
  shows "keeps P (remove_all_rules K t c rule)" "keeps P (insert_rule K t c rule)"
  using assms unfolding ignores_def by (auto intro!: keeps_remove_all keeps_insert)

lemma keeps_hooks:
  "keeps locked (remove_all_rules K FILTER INPUT (input_hook i))"
  "keeps locked (remove_all_rules K FILTER FORWARD dispatch_hook)"
  "keeps locked (insert_rule_at K FILTER INPUT 2 (input_hook i))"
  "keeps locked (insert_rule_at K FILTER FORWARD 2 dispatch_hook)"
  by (rule keeps_remove_all keeps_insert_at;
      auto simp: locked_def lock_complete_def lock_chains_ok_def rules_in_simps)+

lemma keeps_install_chains: "keeps locked (install_chains K client policy routes guarded same_origin)"
  unfolding install_chains_def setup_input_guard_def setup_forward_chains_def setup_nat_chain_def
  by (intro keeps_intros keeps_for_each keeps_hooks keeps_fill keeps_ignored locked_ignores) auto

end

text \<open>The stages of an installation.\<close>

definition guard_ready :: "rule list \<Rightarrow> kernel \<Rightarrow> bool" where
  "guard_ready plan k \<longleftrightarrow> kn_chains k (FILTER, INPUT_CHAIN) = Some plan
    \<and> (\<exists>pre post. kn_chains k (FILTER, INPUT) = Some (lock_hook LOCK_INPUT_CHAIN # pre @ input_hook IFNAME # post)
        \<and> set pre \<subseteq> other_input_hooks)"

lemma guard_ready_ignores:
  "c \<in> {FORWARD, FORWARD_CHAIN, FORWARD_DISPATCH_CHAIN} \<Longrightarrow> ignores (guard_ready plan) FILTER c" "ignores (guard_ready plan) NAT c"
  by (auto simp: ignores_def guard_ready_def)

lemma guard_ready_hooked:
  "guard_ready plan k \<Longrightarrow>
    hooked (insert (lock_hook LOCK_INPUT_CHAIN) other_input_hooks) (input_hook IFNAME) (rules_in (kn_chains k) FILTER INPUT)"
proof -
  assume "guard_ready plan k"
  then obtain pre post where "kn_chains k (FILTER, INPUT) = Some ((lock_hook LOCK_INPUT_CHAIN # pre) @ input_hook IFNAME # post)"
    "set pre \<subseteq> other_input_hooks"
    by (auto simp: guard_ready_def)
  then show ?thesis unfolding hooked_def rules_in_def
    by (intro exI [of _ "lock_hook LOCK_INPUT_CHAIN # pre"] exI [of _ post]) auto
qed

lemma ensures_for_each:
  "(\<And>x k. x \<in> set xs \<Longrightarrow> P k \<Longrightarrow> ensures (f x) (\<lambda>_. P) k) \<Longrightarrow> P k \<Longrightarrow> ensures (for_each f xs) (\<lambda>_. P) k"
proof (induction xs arbitrary: k)
  case (Cons x xs)
  have "ensures (f x) (\<lambda>_. P) k" using Cons.prems by simp
  then show ?case unfolding for_each.simps ensures_simps
    by (rule ensures_mono) (use Cons in simp)
qed simp

context netfilter
begin

lemma ensures_guard_interface:
  assumes "guard_ready plan k" and "i \<noteq> IFNAME"
  shows "ensures (fw_bind (remove_all_rules K FILTER INPUT (input_hook i)) (\<lambda>_. insert_rule_at K FILTER INPUT 2 (input_hook i)))
    (\<lambda>_. guard_ready plan) k"
proof -
  obtain pre post where k: "kn_chains k (FILTER, INPUT_CHAIN) = Some plan"
    "kn_chains k (FILTER, INPUT) = Some (lock_hook LOCK_INPUT_CHAIN # pre @ input_hook IFNAME # post)"
    "set pre \<subseteq> other_input_hooks"
    using assms(1) by (auto simp: guard_ready_def)
  let ?f = "filter (\<lambda>r. r \<noteq> input_hook i)"
  let ?rs = "?f pre @ input_hook IFNAME # ?f post"
  have "purged FILTER INPUT (input_hook i) k = with_chain FILTER INPUT (lock_hook LOCK_INPUT_CHAIN # ?rs) k"
    using assms(2) by (simp add: purged_simps(1) [OF k(2)])
  moreover have "guard_ready plan (with_chain FILTER INPUT (lock_hook LOCK_INPUT_CHAIN # input_hook i # ?rs) k)"
    unfolding guard_ready_def using k assms(2)
    by (intro conjI exI [of _ "input_hook i # ?f pre"] exI [of _ "?f post"]) (auto simp: other_input_hooks_def)
  ultimately show ?thesis
    unfolding ensures_simps by (intro ensures_remove_all ensures_insert_second [of _ _ _ _ ?rs]) auto
qed

lemma ensures_input_guard:
  assumes "locked k" and "\<forall>route \<in> set routes. sr_interface route \<noteq> IFNAME"
  shows "ensures (setup_input_guard K all_peers sets routes guarded same_origin)
    (\<lambda>_. guard_ready (input_rule_plan all_peers sets routes guarded same_origin)) k"
proof -
  let ?plan = "input_rule_plan all_peers sets routes guarded same_origin"
  let ?k1 = "with_chain FILTER INPUT_CHAIN ?plan k"
  obtain rs where rs: "kn_chains k (FILTER, INPUT) = Some (lock_hook LOCK_INPUT_CHAIN # rs)"
    using assms(1) by (auto simp: locked_def)
  let ?rs = "filter (\<lambda>r. r \<noteq> input_hook IFNAME) rs"
  let ?k2 = "with_chain FILTER INPUT (lock_hook LOCK_INPUT_CHAIN # input_hook IFNAME # ?rs) ?k1"
  have ready: "guard_ready ?plan ?k2"
    unfolding guard_ready_def by (intro conjI exI [of _ "[]"] exI [of _ ?rs]) auto
  have direct: "i \<noteq> IFNAME" if "i \<in> set (if guarded then direct_interfaces routes else [])" for i
    using that assms(2) by (auto simp: direct_interfaces_def split: if_splits)
  have "purged FILTER INPUT (input_hook IFNAME) ?k1 = with_chain FILTER INPUT (lock_hook LOCK_INPUT_CHAIN # ?rs) ?k1"
    using rs by (subst purged_simps(1) [of _ _ _ "lock_hook LOCK_INPUT_CHAIN # rs"]) auto
  then have "ensures (remove_all_rules K FILTER INPUT (input_hook IFNAME)) (\<lambda>_.
      ensures (insert_rule_at K FILTER INPUT 2 (input_hook IFNAME)) (\<lambda>_.
      ensures (for_each (\<lambda>interface.
        fw_bind (remove_all_rules K FILTER INPUT (input_hook interface)) (\<lambda>_.
        insert_rule_at K FILTER INPUT 2 (input_hook interface)))
        (if guarded then direct_interfaces routes else [])) (\<lambda>_. guard_ready ?plan))) ?k1"
    by (intro ensures_remove_all ensures_insert_second [of _ _ _ "lock_hook LOCK_INPUT_CHAIN" ?rs] ensures_for_each
        ensures_guard_interface) (use ready direct in auto)
  then show ?thesis
    unfolding setup_input_guard_def ensures_simps by (rule ensures_fill)
qed

end

lemma installed_ignores: "ignores (installed policy routes guarded same_origin) NAT c"
  by (simp add: ignores_def installed_def hooks_in_place_def)

context netfilter
begin

lemma keeps_nat: "keeps (installed policy routes guarded same_origin) (setup_nat_chain K client prepared)"
  unfolding setup_nat_chain_def
  by (intro keeps_intros keeps_for_each keeps_fill keeps_ignored installed_ignores)

lemma ensures_forward_chains:
  assumes "locked k"
    and "guard_ready (input_rule_plan (pp_all_peers policy) (pp_sets policy) routes guarded same_origin) k"
  shows "ensures (setup_forward_chains K policy routes guarded same_origin) (\<lambda>_. installed policy routes guarded same_origin) k"
proof -
  let ?k3 = "with_chain FILTER FORWARD_DISPATCH_CHAIN (dispatch_rule_plan routes guarded)
    (with_chain FILTER FORWARD_CHAIN (forwarding_rule_plan (pp_all_peers policy) (pp_sets policy) same_origin) k)"
  obtain rs where rs: "kn_chains k (FILTER, FORWARD) = Some (lock_hook LOCK_FORWARD_CHAIN # rs)"
    using assms(1) by (auto simp: locked_def)
  let ?rs = "filter (\<lambda>r. r \<noteq> dispatch_hook) rs"
  let ?k4 = "with_chain FILTER FORWARD (lock_hook LOCK_FORWARD_CHAIN # dispatch_hook # ?rs) ?k3"
  have purge: "purged FILTER FORWARD dispatch_hook ?k3 = with_chain FILTER FORWARD (lock_hook LOCK_FORWARD_CHAIN # ?rs) ?k3"
    using rs by (subst purged_simps(1) [of _ _ _ "lock_hook LOCK_FORWARD_CHAIN # rs"]) auto
  have "hooked {lock_hook LOCK_FORWARD_CHAIN} dispatch_hook (lock_hook LOCK_FORWARD_CHAIN # dispatch_hook # ?rs)"
    unfolding hooked_def by (intro exI [of _ "[lock_hook LOCK_FORWARD_CHAIN]"] exI [of _ ?rs]) simp
  then have "installed policy routes guarded same_origin ?k4"
    using assms(2) guard_ready_hooked [OF assms(2)] by (simp add: installed_def hooks_in_place_def guard_ready_def)
  then have "ensures (remove_all_rules K FILTER FORWARD dispatch_hook) (\<lambda>_.
      ensures (insert_rule_at K FILTER FORWARD 2 dispatch_hook) (\<lambda>_. installed policy routes guarded same_origin)) ?k3"
    by (intro ensures_remove_all ensures_insert_second [of _ _ _ "lock_hook LOCK_FORWARD_CHAIN" ?rs]) (auto simp: purge)
  then show ?thesis unfolding setup_forward_chains_def ensures_simps by (intro ensures_fill)
qed

lemma ensures_install_chains:
  assumes "locked k" and "\<forall>route \<in> set routes. sr_interface route \<noteq> IFNAME"
  shows "ensures (install_chains K client policy routes guarded same_origin) (\<lambda>_. installed policy routes guarded same_origin) k"
proof -
  let ?plan = "input_rule_plan (pp_all_peers policy) (pp_sets policy) routes guarded same_origin"
  let ?guard = "setup_input_guard K (pp_all_peers policy) (pp_sets policy) routes guarded same_origin"
  have "keeps locked ?guard"
    unfolding setup_input_guard_def
    by (intro keeps_intros keeps_for_each keeps_hooks keeps_fill keeps_ignored locked_ignores) auto
  then have "ensures ?guard (\<lambda>_ k'. guard_ready ?plan k' \<and> locked k') k"
    using ensures_input_guard [OF assms, of "pp_all_peers policy" "pp_sets policy" guarded same_origin]
      ensures_keeps [of locked ?guard k] assms(1)
    by (auto simp: ensures_def wp_iff)
  then show ?thesis
    unfolding install_chains_def ensures_simps
  proof (rule ensures_mono)
    fix k'
    assume "guard_ready ?plan k' \<and> locked k'"
    then have "ensures (setup_forward_chains K policy routes guarded same_origin) (\<lambda>_. installed policy routes guarded same_origin) k'"
      using ensures_forward_chains by blast
    then show "ensures (setup_forward_chains K policy routes guarded same_origin)
      (\<lambda>_. ensures (setup_nat_chain K client policy) (\<lambda>_. installed policy routes guarded same_origin)) k'"
      by (rule ensures_mono) (rule ensures_keeps [OF keeps_nat])
  qed
qed

end

section \<open>The check\<close>

lemma owned_scan_found:
  "owned_scan lock rem ls = [] \<Longrightarrow> x \<in> set rem \<Longrightarrow> \<exists>pre post. ls = pre @ x # post \<and> set pre \<subseteq> insert lock (set rem)"
proof (induction lock rem ls rule: owned_scan.induct)
  case (2 lock rem line ls)
  show ?case
  proof (cases "line = x")
    case True
    then show ?thesis by (intro exI [of _ "[]"] exI [of _ ls]) simp
  next
    case False
    let ?rem = "if line = lock then rem else remove1 line rem"
    have "line = lock \<or> line \<in> set rem" using 2(3,4) by (auto split: if_splits)
    moreover have "x \<in> set ?rem" using 2(4) False by simp
    ultimately obtain pre post where "ls = pre @ x # post" "set pre \<subseteq> insert lock (set ?rem)"
      using 2(1,2,3) by (auto split: if_splits)
    moreover have "set ?rem \<subseteq> set rem" using set_remove1_subset [of line rem] by simp
    ultimately show ?thesis
      using \<open>line = lock \<or> line \<in> set rem\<close> by (intro exI [of _ "line # pre"] exI [of _ post]) auto
  qed
qed simp

lemma fw_all_True:
  "(\<And>m. m \<in> set ms \<Longrightarrow> keeps ((=) k) m) \<Longrightarrow> fw_all ms k = Some (Inr True, k') \<Longrightarrow> m \<in> set ms \<Longrightarrow> m k = Some (Inr True, k)"
proof (induction ms)
  case (Cons n ms)
  have "keeps ((=) k) n" using Cons.prems(1) by simp
  then obtain r where r: "n k = Some (r, k)" by (auto simp: keeps_def wp_iff)
  with Cons.prems(2) have "r = Inr True" "fw_all ms k = Some (Inr True, k')"
    by (auto simp: fw_bind_def fw_return_def split: sum.splits if_splits)
  then show ?case using Cons r by auto
qed simp

lemma fw_all_keeps: "(\<And>m. m \<in> set ms \<Longrightarrow> keeps P m) \<Longrightarrow> keeps P (fw_all ms)"
  by (induction ms) (auto intro!: keeps_intros)

context netfilter
begin

lemma keeps_owned_prefix: "keeps P (owned_rules_are_prefix K t c lock expected)"
  unfolding keeps_def
proof (intro allI impI)
  fix k
  assume "P k"
  obtain r n where run: "nf_run K [lit ''-t'', t, lit ''-S'', c] (kn_chains k) = (r, n)" by fastforce
  with run_list [OF run] \<open>P k\<close> show "wp (owned_rules_are_prefix K t c lock expected) (\<lambda>_. P) k"
    by (auto simp: wp_def owned_rules_are_prefix_def iptables_output_def Let_def split: outcome.splits option.splits)
qed

lemma keeps_same_origin_installed: "keeps P (same_origin_rules_installed K access)"
proof -
  have "keeps P (chain_rules K t c)" for t c
    unfolding keeps_def
  proof (intro allI impI)
    fix k
    assume "P k"
    obtain r n where run: "nf_run K [lit ''-t'', t, lit ''-S'', c] (kn_chains k) = (r, n)" by fastforce
    with run_list [OF run] \<open>P k\<close> show "wp (chain_rules K t c) (\<lambda>_. P) k"
      by (auto simp: wp_def chain_rules_def iptables_output_def Let_def)
  qed
  then show ?thesis unfolding same_origin_rules_installed_def by (intro keeps_intros)
qed

lemma keeps_checks: "keeps P (rule_installed K r)" "keeps P (set_installed K name)"
proof -
  show "keeps P (rule_installed K r)"
    unfolding rule_installed_def using keeps_looks(1) by (cases r) simp
  show "keeps P (set_installed K name)" by (simp add: keeps_def wp_def set_installed_def)
qed

lemma keeps_vpn_firewall_installed: "keeps P (vpn_firewall_installed K N host client services guarded same_origin)"
  unfolding vpn_firewall_installed_def
  by (intro keeps_intros fw_all_keeps)
    (auto simp: keeps_looks keeps_owned_prefix keeps_checks keeps_same_origin_installed split: option.splits)

lemma owned_prefix_hooked:
  assumes "owned_rules_are_prefix K t c (hook_text c lock) expected k = Some (Inr True, k')"
    and "set expected = hook_text c ` A" and "hook \<in> A" and "plain_word c" and "\<forall>a \<in> insert lock A. list_all plain_word a"
  shows "hooked (insert lock A) hook (rules_in (kn_chains k) t c)"
proof -
  let ?ls = "map (listed c) (rules_in (kn_chains k) t c)"
  obtain out n where run: "nf_run K [lit ''-t'', t, lit ''-S'', c] (kn_chains k) = (Finished (Some 0) out, n)"
    and scan: "owned_scan (hook_text c lock) expected
        (filter (\<lambda>line. str_starts_with line (chain_prefix c)) (str_lines out)) = []"
    using assms(1)
    by (auto simp: owned_rules_are_prefix_def iptables_output_def Let_def split: prod.splits outcome.splits option.splits if_splits)
  have ls: "filter (\<lambda>line. str_starts_with line (chain_prefix c)) (str_lines out) = ?ls"
    using run_list [OF run] assms(4) by simp
  have shown: "listed c r = hook_text c a \<longleftrightarrow> r = a" if "a \<in> insert lock A" for r a
    using listed_plain [of a c r] assms(5) that by (auto simp: hook_text_def chain_prefix_def)
  obtain pre post where split: "?ls = pre @ hook_text c hook # post" "set pre \<subseteq> hook_text c ` insert lock A"
    using owned_scan_found [OF scan [unfolded ls], of "hook_text c hook"] assms(2,3) by auto
  then obtain pre' h post' where rs: "rules_in (kn_chains k) t c = pre' @ h # post'"
    "pre = map (listed c) pre'" "listed c h = hook_text c hook"
    by (auto simp: map_eq_append_conv Cons_eq_map_conv map_eq_Cons_conv)
  have "r \<in> insert lock A" if "r \<in> set pre'" for r
  proof -
    have "listed c r \<in> hook_text c ` insert lock A" using split(2) rs(2) that by auto
    then show ?thesis using shown by auto
  qed
  then show ?thesis
    using rs shown [of hook] assms(3) unfolding hooked_def by (intro exI [of _ pre'] exI [of _ post']) auto
qed

end

lemma hooked_mono: "hooked A hook rs \<Longrightarrow> A \<subseteq> B \<Longrightarrow> hooked B hook rs"
  unfolding hooked_def by blast

lemma hooked_cons: "hooked A hook rs \<Longrightarrow> r \<in> A \<Longrightarrow> hooked A hook (r # rs)"
  unfolding hooked_def by (metis append_Cons insertCI insert_subset list.simps(15))

lemma set_input_hooks:
  "set (input_hooks routes guarded) = hook_text INPUT ` insert (input_hook IFNAME)
    (if guarded then input_hook ` sr_interface ` {route \<in> set routes. sr_directly_connected route} else {})"
  by (auto simp: input_hooks_def)

lemma plain_hooks:
  "plain_word i \<Longrightarrow> list_all plain_word (input_hook i)" "list_all plain_word dispatch_hook"
  "list_all plain_word (lock_hook LOCK_INPUT_CHAIN)" "list_all plain_word (lock_hook LOCK_FORWARD_CHAIN)"
  by (simp_all add: input_hook_def dispatch_hook_def lock_hook_def)

lemma same_boundary_refl [simp]: "same_boundary k k"
  by (simp add: same_boundary_def)

lemma sets_irrelevant [simp]:
  "locked (k \<lparr> kn_sets := s \<rparr>) = locked k" "lock_chains_ok (k \<lparr> kn_sets := s \<rparr>) = lock_chains_ok k"
  "same_boundary k0 (k \<lparr> kn_sets := s \<rparr>) = same_boundary k0 k" "same_boundary (k \<lparr> kn_sets := s \<rparr>) k0 = same_boundary k k0"
  "installed policy routes guarded same_origin (k \<lparr> kn_sets := s \<rparr>) = installed policy routes guarded same_origin k"
  by (simp_all add: locked_def lock_complete_def lock_chains_ok_def same_boundary_def installed_def hooks_in_place_def)

lemma hub_irrelevant [simp]:
  "locked (k \<lparr> kn_hub := h \<rparr>) = locked k" "lock_chains_ok (k \<lparr> kn_hub := h \<rparr>) = lock_chains_ok k"
  "same_boundary k0 (k \<lparr> kn_hub := h \<rparr>) = same_boundary k0 k" "same_boundary (k \<lparr> kn_hub := h \<rparr>) k0 = same_boundary k k0"
  "installed policy routes guarded same_origin (k \<lparr> kn_hub := h \<rparr>) = installed policy routes guarded same_origin k"
  by (simp_all add: locked_def lock_complete_def lock_chains_ok_def same_boundary_def installed_def hooks_in_place_def)

lemma installed_hook_tolerant: "hook_tolerant (installed policy routes guarded same_origin)"
  unfolding hook_tolerant_def by (auto simp: installed_def hooks_in_place_def rules_in_simps intro!: hooked_cons)

lemma edit_chains_append_chain:
  "edit_chains t (append_chain c rules @ ls) n = (if n (t, c) = None then None else edit_chains t ls (n((t, c) \<mapsto> rules)))"
proof -
  have "edit_chains t (map (AppendLine c) rules @ ls) (n((t, c) \<mapsto> acc)) = edit_chains t ls (n((t, c) \<mapsto> acc @ rules))" for acc
    by (induction rules arbitrary: acc) (auto simp: edit_chain_def)
  from this [of "[]"] show ?thesis by (cases "n (t, c)") (auto simp: append_chain_def edit_chain_def)
qed

context netfilter
begin

lemma installed_check:
  assumes "vpn_firewall_installed K N host client services guarded same_origin k = Some (Inr True, k')"
    and "resolve_service_routes N host services guarded = Inr routes"
  shows "k' = k" and "hooks_in_place k"
proof -
  show same: "k' = k"
    using keeps_vpn_firewall_installed [of "(=) k" N host client services guarded same_origin] assms(1)
    by (auto simp: keeps_def wp_iff)
  let ?chains = "fw_all (map (\<lambda>(table, chain). iptables_exists K [lit ''-t'', table, lit ''-S'', chain])
      [(FILTER, INPUT_CHAIN), (FILTER, FORWARD_CHAIN), (FILTER, FORWARD_DISPATCH_CHAIN), (NAT, NAT_CHAIN)])"
  let ?all = "[owned_rules_are_prefix K FILTER INPUT (hook_text INPUT (lock_hook LOCK_INPUT_CHAIN)) (input_hooks routes guarded),
      owned_rules_are_prefix K FILTER FORWARD (hook_text FORWARD (lock_hook LOCK_FORWARD_CHAIN)) [hook_text FORWARD dispatch_hook]]
    @ map (rule_installed K) (required_rules @ [(NAT, POSTROUTING, [lit ''-s'', ip_show N client, lit ''-j'', NAT_CHAIN])])
    @ map (set_installed K) [QUARANTINE_SET, TRANSITION_BLOCK_SET, REQUIRED_SET, LIVE_SET]
    @ (case same_origin of None \<Rightarrow> [] | Some access \<Rightarrow> [same_origin_rules_installed K access])"
  have "keeps ((=) k) ?chains" by (rule fw_all_keeps) (auto simp: keeps_looks)
  then obtain r where r: "?chains k = Some (r, k)" by (auto simp: keeps_def wp_iff)
  then have all: "fw_all ?all k = Some (Inr True, k)"
    using assms unfolding vpn_firewall_installed_def same
    by (auto simp: fw_bind_def fw_result_def fw_return_def simp del: fw_all.simps split: sum.splits if_splits)
  have "keeps ((=) k) m" if "m \<in> set ?all" for m
    using that by (auto simp: keeps_owned_prefix keeps_checks keeps_same_origin_installed simp del: append.simps split: option.splits)
  note each = fw_all_True [OF this all]
  note routes = resolved_routes(2) [OF assms(2)]
  let ?A = "insert (input_hook IFNAME) (if guarded then input_hook ` sr_interface ` {route \<in> set routes. sr_directly_connected route} else {})"
  have "hooked (insert (lock_hook LOCK_INPUT_CHAIN) ?A) (input_hook IFNAME) (rules_in (kn_chains k) FILTER INPUT)"
    using each routes by (intro owned_prefix_hooked [OF _ set_input_hooks]) (auto simp: plain_hooks)
  moreover have "insert (lock_hook LOCK_INPUT_CHAIN) ?A \<subseteq> insert (input_hook IFNAME) (insert (lock_hook LOCK_INPUT_CHAIN) other_input_hooks)"
    using routes by (auto simp: other_input_hooks_def)
  ultimately have "hooked (insert (lock_hook LOCK_INPUT_CHAIN) other_input_hooks) (input_hook IFNAME) (rules_in (kn_chains k) FILTER INPUT)"
    unfolding hooked_def by (meson insert_subset subset_insertI subset_trans)
  moreover have "hooked (insert (lock_hook LOCK_FORWARD_CHAIN) {dispatch_hook}) dispatch_hook (rules_in (kn_chains k) FILTER FORWARD)"
    using each by (intro owned_prefix_hooked) (auto simp: plain_hooks)
  ultimately show "hooks_in_place k"
    unfolding hooks_in_place_def by (auto simp: hooked_def)
qed

lemma keeps_restore_chains:
  assumes "\<And>c. c \<in> set (map fst cs) \<Longrightarrow> ignores P t c"
  shows "keeps P (iptables_restore_noflush K t (concat (map (\<lambda>(c, rules). append_chain c rules) cs)))"
proof -
  have "P (k \<lparr> kn_chains := n \<rparr>)"
    if "P k" "edit_chains t (concat (map (\<lambda>(c, rules). append_chain c rules) cs)) (kn_chains k) = Some n" for k n
    using assms that
  proof (induction cs arbitrary: k)
    case Nil
    then show ?case by (cases k) auto
  next
    case (Cons cr cs)
    obtain c rules where cr: "cr = (c, rules)" by fastforce
    have kept: "P (with_chain t c rules k)" using Cons.prems(1,2) by (auto simp: cr ignores_def)
    have edits: "edit_chains t (concat (map (\<lambda>(c, rules). append_chain c rules) cs)) (kn_chains (with_chain t c rules k)) = Some n"
      using Cons.prems(3) by (auto simp: cr edit_chains_append_chain split: if_splits)
    have "P ((with_chain t c rules k) \<lparr> kn_chains := n \<rparr>)" by (rule Cons.IH [OF _ kept edits]) (simp add: Cons.prems(1))
    then show ?case by (simp add: with_chain_def)
  qed
  then show ?thesis unfolding keeps_def by (auto intro!: wp_restore)
qed

lemma replace_live_restores:
  "replace_live K policy routes guarded same_origin =
    fw_bind (iptables_restore_noflush K FILTER (concat (map (\<lambda>(c, rules). append_chain c rules)
      [(INPUT_CHAIN, input_rule_plan (pp_all_peers policy) (pp_sets policy) routes guarded same_origin),
       (FORWARD_CHAIN, forwarding_rule_plan (pp_all_peers policy) (pp_sets policy) same_origin),
       (FORWARD_DISPATCH_CHAIN, dispatch_rule_plan routes guarded)]))) (\<lambda>_.
    fw_bind (iptables_restore_noflush K NAT (concat (map (\<lambda>(c, rules). append_chain c rules)
      [(NAT_CHAIN, nat_rule_plan (pp_sets policy))]))) (\<lambda>_.
    fw_return (policy \<lparr> pp_live := True \<rparr>)))"
  by (simp add: replace_live_def)

lemma keeps_replace_live: "P \<in> {locked, lock_chains_ok} \<Longrightarrow> keeps P (replace_live K policy routes guarded same_origin)"
  unfolding replace_live_restores
  by (intro keeps_intros keeps_restore_chains)
    (auto simp: ignores_def locked_def lock_complete_def lock_chains_ok_def)

lemma replace_live_effect:
  assumes "hooks_in_place k"
  shows "wp (replace_live K policy routes guarded same_origin) (\<lambda>r k'. installed policy routes guarded same_origin k'
    \<or> (\<exists>e. r = Inl e) \<and> same_boundary k k') k"
proof -
  let ?I = "installed policy routes guarded same_origin"
  let ?filter = "concat (map (\<lambda>(c, rules). append_chain c rules)
      [(INPUT_CHAIN, input_rule_plan (pp_all_peers policy) (pp_sets policy) routes guarded same_origin),
       (FORWARD_CHAIN, forwarding_rule_plan (pp_all_peers policy) (pp_sets policy) same_origin),
       (FORWARD_DISPATCH_CHAIN, dispatch_rule_plan routes guarded)])"
  have nat: "keeps ?I (fw_bind (iptables_restore_noflush K NAT (concat (map (\<lambda>(c, rules). append_chain c rules)
      [(NAT_CHAIN, nat_rule_plan (pp_sets policy))]))) (\<lambda>_. fw_return (policy \<lparr> pp_live := True \<rparr>)))"
    by (intro keeps_intros keeps_restore_chains) (auto simp: installed_ignores)
  have "?I (k \<lparr> kn_chains := n \<rparr>)" if "edit_chains FILTER ?filter (kn_chains k) = Some n" for n
    using that assms
    by (auto simp: edit_chains_append_chain edit_chains_append_chain [where ls = "[]", simplified] installed_def
        hooks_in_place_def split: if_splits)
  then have "wp (iptables_restore_noflush K FILTER ?filter) (\<lambda>r k'. ?I k' \<or> (\<exists>e. r = Inl e) \<and> k' = k) k"
    by (intro wp_restore) auto
  then show ?thesis
    unfolding replace_live_restores wp_simps(3) [of "iptables_restore_noflush K FILTER _"]
  proof (rule wp_mono)
    fix r :: "(fw_error, unit) result" and k'
    assume I: "?I k' \<or> (\<exists>e. r = Inl e) \<and> k' = k"
    show "case r of Inl e \<Rightarrow> ?I k' \<or> (\<exists>ea. Inl e = Inl ea) \<and> same_boundary k k'
      | Inr a \<Rightarrow> wp (fw_bind (iptables_restore_noflush K NAT (concat (map (\<lambda>(c, rules). append_chain c rules)
          [(NAT_CHAIN, nat_rule_plan (pp_sets policy))]))) (\<lambda>_. fw_return (policy \<lparr> pp_live := True \<rparr>)))
          (\<lambda>r k'. ?I k' \<or> (\<exists>e. r = Inl e) \<and> same_boundary k k') k'"
    proof (cases r)
      case (Inr a)
      then have "?I k'" using I by simp
      then show ?thesis unfolding Inr sum.case by (rule wp_mono [OF keepsD [OF nat]]) simp
    qed (use I in auto)
  qed
qed

lemma keeps_install_ignored:
  assumes "\<And>c. c \<notin> {LOCK_INPUT_CHAIN, LOCK_FORWARD_CHAIN} \<Longrightarrow> ignores P FILTER c" and "\<And>c. ignores P NAT c"
  shows "keeps P (install_chains K client policy routes guarded same_origin)"
proof -
  have "keeps P (insert_rule_at K FILTER c i rule)" if "c \<in> {INPUT, FORWARD}" for c i rule
    using assms(1) [of c] that by (intro keeps_insert_at) (auto simp: ignores_def)
  then show ?thesis
    unfolding install_chains_def setup_input_guard_def setup_forward_chains_def setup_nat_chain_def
    by (intro keeps_intros keeps_for_each keeps_fill keeps_ignored assms) auto
qed

lemma keeps_activate:
  "keeps locked (activate K N host client services policy routes guarded same_origin)"
  "keeps lock_chains_ok (activate K N host client services policy routes guarded same_origin)"
proof -
  have clean: "keeps locked (\<lambda>k. fw_return x (cleanup_stale_sets K p k))" "keeps lock_chains_ok (\<lambda>k. fw_return x (cleanup_stale_sets K p k))"
    for x :: "prepared_policy \<times> firewall_lock" and p
    by (simp_all add: keeps_def wp_def fw_return_def cleanup_stale_sets_def)
  have other: "ignores lock_chains_ok FILTER c" if "c \<notin> {LOCK_INPUT_CHAIN, LOCK_FORWARD_CHAIN}" for c
    using that by (auto simp: ignores_def lock_chains_ok_def)
  have nat: "ignores lock_chains_ok NAT c" for c by (simp add: ignores_def lock_chains_ok_def)
  show "keeps locked (activate K N host client services policy routes guarded same_origin)"
    unfolding activate_def
    by (intro keeps_intros keeps_vpn_firewall_installed keeps_replace_live keeps_lock tolerant keeps_install_chains
        keeps_reassert clean) simp
  show "keeps lock_chains_ok (activate K N host client services policy routes guarded same_origin)"
    unfolding activate_def
    by (intro keeps_intros keeps_vpn_firewall_installed keeps_replace_live keeps_lock tolerant keeps_install_ignored
        keeps_reassert clean other nat) simp_all
qed

lemma wp_after: "wp (\<lambda>k. fw_return x (f k)) Q k \<longleftrightarrow> Q (Inr x) (f k)"
  by (simp add: wp_def fw_return_def)

lemma lock_wp:
  assumes "lock_chains_ok k"
  shows "wp (lock_vpn_traffic K routes guarded) (\<lambda>r k'. case r of Inl e \<Rightarrow> same_boundary k k' | Inr lock \<Rightarrow> locked k' \<and> fl_armed lock) k"
  using wp_conj [OF keepsD [OF keeps_lock(1) [OF tolerant(4,7)], of k k routes guarded] lock_effect(1) [OF assms, unfolded ensures_def]]
  by (auto elim!: wp_mono split: sum.splits)

lemma install_wp:
  assumes "locked k" and "\<forall>route \<in> set routes. sr_interface route \<noteq> IFNAME"
  shows "wp (fw_bind (install_chains K client policy routes guarded same_origin) (\<lambda>_. reassert K lock))
    (\<lambda>r k'. locked k' \<and> (\<forall>u. r = Inr u \<longrightarrow> installed policy routes guarded same_origin k')) k"
proof -
  let ?m = "fw_bind (install_chains K client policy routes guarded same_origin) (\<lambda>_. reassert K lock)"
  have "keeps locked ?m" by (intro keeps_intros keeps_install_chains keeps_reassert tolerant)
  moreover have "ensures ?m (\<lambda>_. installed policy routes guarded same_origin) k"
    unfolding ensures_simps
    by (rule ensures_mono [OF ensures_install_chains [OF assms]])
      (rule ensures_keeps [OF keeps_reassert [OF installed_hook_tolerant]])
  ultimately show ?thesis using wp_conj keepsD [of locked ?m k] assms(1) unfolding ensures_def by blast
qed

lemma activate_wp:
  assumes "lock_chains_ok k" and "resolve_service_routes N host services guarded = Inr routes"
  shows "wp (activate K N host client services policy routes guarded same_origin) (\<lambda>r k'. case r of
      Inl e \<Rightarrow> same_boundary k k' \<or> locked k' \<or> installed policy routes guarded same_origin k'
    | Inr (_, lock) \<Rightarrow> installed policy routes guarded same_origin k' \<and> (fl_armed lock \<longrightarrow> locked k')) k"
    (is "wp _ ?Q k")
proof -
  note routes = resolved_routes(2) [OF assms(2)]
  have live: "wp (fw_bind (replace_live K policy routes guarded same_origin)
      (\<lambda>live k. fw_return (live, \<lparr> fl_armed = False \<rparr>) (cleanup_stale_sets K live k))) ?Q k" if "hooks_in_place k"
    unfolding wp_simps using replace_live_effect [OF that]
    by (rule wp_mono) (auto simp: wp_after cleanup_stale_sets_def split: sum.splits)
  have installing: "wp (fw_bind (install_chains K (ip_show N client) policy routes guarded same_origin) (\<lambda>_.
      fw_bind (reassert K lock) (\<lambda>_ k.
      fw_return (policy \<lparr> pp_live := True \<rparr>, lock) (cleanup_stale_sets K (policy \<lparr> pp_live := True \<rparr>) k)))) ?Q k'"
    if "locked k'" for k' lock
  proof -
    have "wp (fw_bind (install_chains K (ip_show N client) policy routes guarded same_origin) (\<lambda>_. reassert K lock))
        (\<lambda>r k'. locked k' \<and> (\<forall>u. r = Inr u \<longrightarrow> installed policy routes guarded same_origin k')) k'"
      using routes by (intro install_wp [OF that]) simp
    then show ?thesis
      unfolding wp_simps
      by (rule wp_mono) (auto simp: wp_after cleanup_stale_sets_def elim!: wp_mono split: sum.splits)
  qed
  have locking: "wp (fw_bind (lock_vpn_traffic K routes guarded) (\<lambda>lock.
      fw_bind (install_chains K (ip_show N client) policy routes guarded same_origin) (\<lambda>_.
      fw_bind (reassert K lock) (\<lambda>_ k.
      fw_return (policy \<lparr> pp_live := True \<rparr>, lock) (cleanup_stale_sets K (policy \<lparr> pp_live := True \<rparr>) k))))) ?Q k"
    using lock_wp [OF assms(1), of routes guarded]
  proof (rule wp_bindI)
    fix lock :: firewall_lock and k'
    assume "case Inr lock of Inl e \<Rightarrow> same_boundary k k' | Inr lock \<Rightarrow> locked k' \<and> fl_armed lock"
    then show "wp (fw_bind (install_chains K (ip_show N client) policy routes guarded same_origin) (\<lambda>_.
      fw_bind (reassert K lock) (\<lambda>_ k.
      fw_return (policy \<lparr> pp_live := True \<rparr>, lock) (cleanup_stale_sets K (policy \<lparr> pp_live := True \<rparr>) k)))) ?Q k'"
      by (intro installing) simp
  qed simp
  have "keeps ((=) k) (vpn_firewall_installed K N host client services guarded same_origin)"
    by (rule keeps_vpn_firewall_installed)
  then obtain r where r: "vpn_firewall_installed K N host client services guarded same_origin k = Some (r, k)"
    by (auto simp: keeps_def wp_iff)
  have "hooks_in_place k" if "r = Inr True" by (rule installed_check(2) [OF r [unfolded that] assms(2)])
  then show ?thesis
    unfolding activate_def wp_simps(3) [of "vpn_firewall_installed K N host client services guarded same_origin"]
    using live locking
    by (auto simp: wp_def [of "vpn_firewall_installed _ _ _ _ _ _ _"] r simp del: wp_simps(3) split: sum.splits)
qed

end

section \<open>The whole update\<close>

text \<open>The boundary that an update is to install, and a boundary without the lock.\<close>

definition planned :: "ustr \<Rightarrow> game_vpn_policy list \<Rightarrow> prepared_policy" where
  "planned generation policies =
    \<lparr> pp_all_peers = lit ''rsv_a_'' @ generation, pp_sets = map (sets_of_policy generation) policies, pp_names = [],
      pp_live = True \<rparr>"

definition updated ::
  "'n ipnet \<Rightarrow> host_view \<Rightarrow> ustr \<Rightarrow> 'n list \<Rightarrow> game_vpn_policy list \<Rightarrow> bool \<Rightarrow> same_origin_access option \<Rightarrow> kernel \<Rightarrow> bool" where
  "updated N host generation services policies guarded same_origin k \<longleftrightarrow>
    (\<exists>routes. resolve_service_routes N host services guarded = Inr routes
      \<and> installed (planned generation policies) routes guarded same_origin k)"

definition unlocked :: "kernel \<Rightarrow> bool" where
  "unlocked k \<longleftrightarrow> lock_hook LOCK_INPUT_CHAIN \<notin> set (rules_in (kn_chains k) FILTER INPUT)
    \<and> lock_hook LOCK_FORWARD_CHAIN \<notin> set (rules_in (kn_chains k) FILTER FORWARD)"

lemma prepared_planned:
  "prepare N T client routes policies g s = (Some policy, s') \<Longrightarrow>
    installed policy routes' guarded same_origin = installed (planned g policies) routes' guarded same_origin"
  by (auto simp: prepare_def planned_def installed_def fun_eq_iff Let_def split: prod.splits bool.splits)

context netfilter
begin

lemma dropping_wp:
  "wp m (\<lambda>r k'. Q (map_sum id snd r) k') k \<Longrightarrow> (\<And>r k' s. Q r k' \<Longrightarrow> Q r (k' \<lparr> kn_sets := s \<rparr>)) \<Longrightarrow>
    wp (dropping K policy m) Q k"
  by (auto simp: wp_iff dropping_def drop_prepared_def split: sum.splits prod.splits)

lemma setup_wp:
  assumes "lock_chains_ok k"
  shows "wp (setup_vpn_firewall K N host generation client services policies guarded same_origin)
    (\<lambda>r k'. lock_chains_ok k' \<and> (locked k \<longrightarrow> locked k') \<and> (case r of
      Inl e \<Rightarrow> same_boundary k k' \<or> locked k' \<or> updated N host generation services policies guarded same_origin k'
    | Inr lock \<Rightarrow> updated N host generation services policies guarded same_origin k' \<and> (fl_armed lock \<longrightarrow> locked k'))) k"
    (is "wp _ ?Q k")
proof -
  have "wp (fw_bind (on_ipset K ensure_transition_sets) (\<lambda>_.
      fw_bind (prepare_policy K N client routes policies generation) (\<lambda>policy.
      dropping K policy (activate K N host client services policy routes guarded same_origin)))) ?Q k"
    if routes: "resolve_service_routes N host services guarded = Inr routes" for routes
  proof (rule wp_bindI)
    show "wp (on_ipset K ensure_transition_sets) (\<lambda>_ k'. \<exists>s. k' = k \<lparr> kn_sets := s \<rparr>) k"
      by (auto simp: wp_def on_ipset_def split: prod.splits)
  next
    fix k'
    assume "\<exists>s. k' = k \<lparr> kn_sets := s \<rparr>"
    then have "wp (prepare_policy K N client routes policies generation) (\<lambda>r k'. (\<exists>s. k' = k \<lparr> kn_sets := s \<rparr>)
        \<and> (\<forall>policy. r = Inr policy \<longrightarrow> installed policy routes guarded same_origin
          = installed (planned generation policies) routes guarded same_origin)) k'"
      by (auto simp: wp_def prepare_policy_def dest: prepared_planned split: prod.splits option.splits)
    then show "wp (fw_bind (prepare_policy K N client routes policies generation) (\<lambda>policy.
        dropping K policy (activate K N host client services policy routes guarded same_origin))) ?Q k'"
    proof (rule wp_bindI)
      fix policy k''
      assume "(\<exists>s. k'' = k \<lparr> kn_sets := s \<rparr>) \<and> (\<forall>p. Inr policy = Inr p \<longrightarrow> installed p routes guarded same_origin
          = installed (planned generation policies) routes guarded same_origin)"
      then obtain s where k'': "k'' = k \<lparr> kn_sets := s \<rparr>" and same: "installed policy routes guarded same_origin
          = installed (planned generation policies) routes guarded same_origin" by auto
      have "lock_chains_ok k''" using assms by (simp add: k'')
      note act = wp_keeps [OF wp_keeps [OF activate_wp [OF this routes] keeps_activate(2)] keeps_activate(1)]
      show "wp (dropping K policy (activate K N host client services policy routes guarded same_origin)) ?Q k''"
        by (rule dropping_wp, rule wp_mono [OF act])
          (use assms routes in \<open>auto simp: k'' same updated_def split: sum.splits\<close>)
    qed (use assms in auto)
  qed (use assms in auto)
  then show ?thesis
    using assms by (auto simp: setup_vpn_firewall_def wp_bind_result simp del: wp_simps(3) split: sum.splits)
qed

end

lemma hooked_remove1:
  assumes "hooked A hook rs" and "r \<noteq> hook"
  shows "hooked A hook (remove1 r rs)"
proof -
  obtain pre post where rs: "rs = pre @ hook # post" "set pre \<subseteq> insert hook A" using assms(1) by (auto simp: hooked_def)
  have "set (remove1 r pre) \<subseteq> insert hook A" using rs(2) set_remove1_subset [of r pre] by blast
  then show ?thesis
    using rs assms(2) unfolding hooked_def remove1_append rs(1)
    by (cases "r \<in> set pre") (auto intro: exI [of _ pre] exI [of _ "remove1 r pre"])
qed

context netfilter
begin

lemma keeps_clear_lock:
  "keeps (updated N host generation services policies guarded same_origin) (clear_fail_closed_lock K)"
  "keeps lock_chains_ok (clear_fail_closed_lock K)"
proof -
  have "keeps (installed policy routes guarded same_origin) (clear_fail_closed_lock K)" for policy routes
    unfolding clear_fail_closed_lock_def
    by (intro keeps_intros keeps_remove_all) (auto simp: installed_def hooks_in_place_def hooked_remove1)
  then show "keeps (updated N host generation services policies guarded same_origin) (clear_fail_closed_lock K)"
    unfolding updated_def keeps_def by (blast intro: wp_mono)
  show "keeps lock_chains_ok (clear_fail_closed_lock K)"
    unfolding clear_fail_closed_lock_def by (intro keeps_intros keeps_ignored) (auto simp: ignores_def lock_chains_ok_def)
qed

lemma keeps_unlock:
  "keeps (updated N host generation services policies guarded same_origin) (unlock K lock)" "keeps lock_chains_ok (unlock K lock)"
  unfolding unlock_def by (intro keeps_intros keeps_clear_lock)+

lemma ensures_clear_lock: "ensures (clear_fail_closed_lock K) (\<lambda>_. unlocked) k"
  unfolding clear_fail_closed_lock_def ensures_simps unlocked_def
  by (intro ensures_remove_all) (auto simp: purged_simps)

lemma keeps_hub_calls:
  "keeps P (configure_hub_with_retry H cfg n)" if "\<And>k h. P k \<Longrightarrow> P (k \<lparr> kn_hub := h \<rparr>)"
proof -
  have one: "P (snd (configure_hub H cfg k))" if "P k" for H k
    using that \<open>\<And>k h. P k \<Longrightarrow> P (k \<lparr> kn_hub := h \<rparr>)\<close> by (auto simp: configure_hub_def split: sum.splits prod.splits)
  have "P (snd (retry_loop (\<lambda>i. configure_hub (H i) cfg) xs e k))" if "P k" for xs e k
    using that
  proof (induction xs arbitrary: e k)
    case (Cons i xs)
    then show ?case using one [of k "H i"] by (auto split: prod.splits sum.splits)
  qed simp
  then show ?thesis by (auto simp: keeps_def wp_def configure_hub_with_retry_def retry_operation_def split: prod.splits) (metis snd_conv)
qed

lemma incremental_chains: "configure_hub_incremental H cfg k = (r, k') \<Longrightarrow> \<exists>h. k' = k \<lparr> kn_hub := h \<rparr>"
  by (cases k) (auto simp: configure_hub_incremental_def split: sum.splits option.splits if_splits prod.splits)

lemma apply_wp:
  fixes N :: "'n ipnet" and host generation services policies guarded same_origin
  defines "new \<equiv> updated N host generation services policies guarded same_origin"
  assumes "lock_chains_ok k"
  shows "wp (apply_kernel_state K H N host generation cfg client services policies guarded same_origin incremental)
    (\<lambda>r k'. lock_chains_ok k' \<and> (case r of Inl e \<Rightarrow> same_boundary k k' \<or> locked k' \<or> new k' | Inr _ \<Rightarrow> new k')) k"
    (is "wp _ ?Q k")
proof -
  let ?boundary = "setup_vpn_firewall K N host generation client services policies guarded same_origin"
  have hub: "new (k \<lparr> kn_hub := h \<rparr>) = new k" for k h by (simp add: new_def updated_def)
  have unlock: "wp (unlock K lock) (\<lambda>r k'. lock_chains_ok k' \<and> new k') k" if "lock_chains_ok k" "new k" for lock k
    using wp_conj [OF keepsD [OF keeps_unlock(2) that(1)]] keepsD [OF keeps_unlock(1)] that(2) unfolding new_def by blast
  have "wp (fw_bind ?boundary (unlock K)) ?Q (k \<lparr> kn_hub := h \<rparr>)" for h
  proof (rule wp_bindI [OF setup_wp])
    fix lock :: firewall_lock and k'
    assume "lock_chains_ok k' \<and> (locked (k \<lparr> kn_hub := h \<rparr>) \<longrightarrow> locked k') \<and> (case Inr lock of
        Inl e \<Rightarrow> same_boundary (k \<lparr> kn_hub := h \<rparr>) k' \<or> locked k' \<or> updated N host generation services policies guarded same_origin k'
      | Inr lock \<Rightarrow> updated N host generation services policies guarded same_origin k' \<and> (fl_armed lock \<longrightarrow> locked k'))"
    then have "lock_chains_ok k'" "new k'" by (auto simp: new_def)
    then show "wp (unlock K lock) ?Q k'" by (rule wp_mono [OF unlock]) (auto split: sum.splits)
  qed (use assms in auto)
  note incremental = this
  have tail: "wp (fw_bind ?boundary (\<lambda>policy_lock. fw_bind (configure_hub_with_retry H cfg 3) (\<lambda>_.
      fw_bind (unlock K policy_lock) (\<lambda>_. unlock K early)))) ?Q k1" if "lock_chains_ok k1" "locked k1" for early k1
  proof (rule wp_bindI [OF setup_wp [OF that(1)]])
    fix lock :: firewall_lock and k2
    assume "lock_chains_ok k2 \<and> (locked k1 \<longrightarrow> locked k2) \<and> (case Inr lock of
        Inl e \<Rightarrow> same_boundary k1 k2 \<or> locked k2 \<or> updated N host generation services policies guarded same_origin k2
      | Inr lock \<Rightarrow> updated N host generation services policies guarded same_origin k2 \<and> (fl_armed lock \<longrightarrow> locked k2))"
    then have two: "lock_chains_ok k2 \<and> locked k2 \<and> new k2" using that(2) by (auto simp: new_def)
    have "keeps (\<lambda>k. lock_chains_ok k \<and> locked k \<and> new k) (configure_hub_with_retry H cfg 3)"
      by (rule keeps_hub_calls) (simp add: hub)
    from keepsD [OF this two]
    show "wp (fw_bind (configure_hub_with_retry H cfg 3) (\<lambda>_. fw_bind (unlock K lock) (\<lambda>_. unlock K early))) ?Q k2"
    proof (rule wp_bindI)
      fix a k3
      assume three: "lock_chains_ok k3 \<and> locked k3 \<and> new k3"
      have "wp (fw_bind (unlock K lock) (\<lambda>_. unlock K early)) (\<lambda>r k'. lock_chains_ok k' \<and> new k') k3"
        by (rule wp_bindI [OF unlock]) (use three unlock in auto)
      then show "wp (fw_bind (unlock K lock) (\<lambda>_. unlock K early)) ?Q k3" by (rule wp_mono) (auto split: sum.splits)
    qed auto
  qed (use that in auto)
  have full: "wp (fw_bind (lock_existing_vpn K) (\<lambda>early. fw_bind ?boundary (\<lambda>policy_lock. fw_bind (configure_hub_with_retry H cfg 3) (\<lambda>_.
      fw_bind (unlock K policy_lock) (\<lambda>_. unlock K early))))) ?Q (k \<lparr> kn_hub := h \<rparr>)" for h
  proof (rule wp_bindI)
    let ?k = "k \<lparr> kn_hub := h \<rparr>"
    have ok: "lock_chains_ok ?k" using assms(2) by simp
    have "wp (lock_existing_vpn K) (\<lambda>r k'. same_boundary k k') ?k"
      by (rule keepsD [OF keeps_lock(2) [OF tolerant(4,7)]]) simp
    from wp_conj [OF wp_conj [OF this keepsD [OF keeps_lock(2) [OF tolerant(1,5)] ok]] lock_effect(2) [OF ok, unfolded ensures_def]]
    show "wp (lock_existing_vpn K) (\<lambda>r k'. same_boundary k k' \<and> lock_chains_ok k' \<and> (\<forall>lock. r = Inr lock \<longrightarrow> locked k')) ?k"
      by (rule wp_mono) auto
  qed (use tail in auto)
  have same: "k \<lparr> kn_hub := kn_hub k \<rparr> = k" by (cases k) simp
  show ?thesis
  proof (cases incremental)
    case True
    obtain r k1 where run: "configure_hub_incremental (H 0) cfg k = (r, k1)" by fastforce
    then obtain h where k1: "k1 = k \<lparr> kn_hub := h \<rparr>" using incremental_chains by blast
    consider u where "r = Inr u" | "r = Inl NeedsFull" | e where "r = Inl (Failed e)"
      by (metis incremental_error.exhaust sum.exhaust)
    then show ?thesis
    proof cases
      case 1
      then show ?thesis using incremental [of h] by (simp add: apply_kernel_state_def Let_def wp_def run True k1)
    next
      case 2
      then show ?thesis using full [of h] by (simp add: apply_kernel_state_def Let_def wp_def run True k1)
    next
      case 3
      then show ?thesis using assms(2) by (simp add: apply_kernel_state_def Let_def wp_def run True k1)
    qed
  next
    case False
    then show ?thesis using full [of "kn_hub k", unfolded same] by (simp add: apply_kernel_state_def Let_def wp_def)
  qed
qed

lemma update_wp:
  assumes "lock_chains_ok k"
  shows "wp (update_kernel K H N host generation cfg client services policies guarded same_origin incremental)
    (\<lambda>r k'. lock_chains_ok k' \<and> (case r of
       Inl e \<Rightarrow> same_boundary k k' \<or> locked k' \<or> updated N host generation services policies guarded same_origin k'
     | Inr _ \<Rightarrow> updated N host generation services policies guarded same_origin k' \<and> unlocked k')) k"
    (is "wp _ ?Q k")
  unfolding update_kernel_def apply_then_release_guards_def
proof (rule wp_bindI [OF apply_wp [OF assms]])
  let ?new = "updated N host generation services policies guarded same_origin"
  fix u :: unit and k'
  assume "lock_chains_ok k' \<and> (case Inr u of Inl e \<Rightarrow> same_boundary k k' \<or> locked k' \<or> ?new k' | Inr _ \<Rightarrow> ?new k')"
  then have k': "lock_chains_ok k'" "?new k'" by simp_all
  have "wp (clear_fail_closed_lock K) (\<lambda>r k'. (lock_chains_ok k' \<and> ?new k') \<and> (\<forall>a. r = Inr a \<longrightarrow> unlocked k')) k'"
    using wp_conj [OF wp_conj [OF keepsD [OF keeps_clear_lock(2) k'(1)] keepsD [OF keeps_clear_lock(1) k'(2)]]
      ensures_clear_lock [unfolded ensures_def]] .
  then show "wp (release_guards K) ?Q k'"
    unfolding release_guards_def
    by (rule wp_bindI) (auto simp: wp_def on_ipset_def unlocked_def updated_def split: prod.splits)
qed simp_all

end


definition sample_view :: host_view where
  "sample_view = \<lparr> hv_ip_forward = Some (lit ''1''), hv_route_get = \<lambda>_. Finished (Some 0) (lit ''10.13.40.1 dev eth1 src 10.13.40.2''),
     hv_route_exact = \<lambda>_. Finished (Some 0) (lit ''10.13.40.0/24 dev eth1 scope link'') \<rparr>"

definition sample_kernel :: kernel where
  "sample_kernel = \<lparr> kn_chains = [(FILTER, INPUT) \<mapsto> [], (FILTER, FORWARD) \<mapsto> [], (NAT, POSTROUTING) \<mapsto> []],
     kn_sets = Map.empty, kn_hub = None \<rparr>"


end
