(* ===== verification/Vpn_Run.thy ===== *)
theory Vpn_Run
  imports Vpn_Update
begin

text \<open>
  The update on the ruleset in memory: there no command fails, so each action has a closed form, and a
  first installation runs through every step to its end.
\<close>

section \<open>The actions on the ruleset in memory\<close>

lemma ruleset_edit:
  "iptables ruleset_tool (edit_args t c e) k =
    (case edit_rules e (kn_chains k (t, c)) of
       Some rs \<Rightarrow> Some (Inr (), with_chain t c rs k)
     | None \<Rightarrow> Some (Inl (CommandError ''iptables'' (edit_args t c e) (Some 2)), k))"
  by (cases e; cases k)
    (auto simp: iptables_def iptables_output_def ruleset_tool_def run_rules_def edit_chain_def command_output_def with_chain_def
      split: option.splits)

lemmas ruleset_edits = ruleset_edit [where e = NewChain, simplified] ruleset_edit [where e = FlushChain, simplified]
  ruleset_edit [where e = "AppendRule r" for r, simplified] ruleset_edit [where e = "DeleteRule r" for r, simplified]
  ruleset_edit [where e = "InsertRule i r" for i r, simplified]

lemma ruleset_looks:
  "iptables_exists ruleset_tool ([lit ''-t'', t, lit ''-C'', c] @ rule) k = Some (Inr (rule \<in> set (rules_in (kn_chains k) t c)), k)"
  "iptables_exists ruleset_tool [lit ''-t'', t, lit ''-S'', c] k = Some (Inr (kn_chains k (t, c) \<noteq> None), k)"
  by (cases k; auto simp: iptables_exists_def iptables_output_def ruleset_tool_def run_rules_def split: option.splits)+

lemma ruleset_ensure_chain: "ensure_chain ruleset_tool t c k = Some (Inr (), with_chain t c [] k)"
  by (cases "kn_chains k (t, c)")
    (simp_all add: ensure_chain_def fw_bind_def fw_return_def ruleset_looks ruleset_edits)

lemma ruleset_appends:
  "kn_chains k (t, c) = Some rs \<Longrightarrow> for_each (append_rule ruleset_tool t c) rules k = Some (Inr (), with_chain t c (rs @ rules) k)"
  by (induction rules arbitrary: k rs) (simp_all add: fw_return_def with_chain_same fw_bind_def append_rule_def ruleset_edits)

lemma ruleset_remove_all: "remove_all_rules ruleset_tool t c rule k = Some (Inr (), purged t c rule k)"
proof (induction "length (rules_in (kn_chains k) t c)" arbitrary: k rule: less_induct)
  case less
  show ?case
  proof (cases "rule \<in> set (rules_in (kn_chains k) t c)")
    case False
    then show ?thesis using ruleset_looks(1) [of t c rule k] by (subst remove_all_rules.simps) (simp add: purged_absent)
  next
    case True
    then obtain rs where rs: "kn_chains k (t, c) = Some rs" "rule \<in> set rs" by (cases "kn_chains k (t, c)") (auto simp: rules_in_def)
    let ?k = "with_chain t c (remove1 rule rs) k"
    have "remove_all_rules ruleset_tool t c rule ?k = Some (Inr (), purged t c rule ?k)"
      using rs length_pos_if_in_set [OF rs(2)] by (intro less) (simp add: rules_in_def length_remove1)
    moreover have "purged t c rule ?k = purged t c rule k" using rs(1) by (simp add: purged_def filter_remove1)
    ultimately show ?thesis
      using ruleset_looks(1) [of t c rule k] True rs by (subst remove_all_rules.simps) (simp add: ruleset_edits)
  qed
qed

lemma ruleset_restore:
  "edit_chains t ls (kn_chains k) = Some n \<Longrightarrow> iptables_restore_noflush ruleset_tool t ls k = Some (Inr (), k \<lparr> kn_chains := n \<rparr>)"
  by (simp add: iptables_restore_noflush_def ruleset_tool_def restore_rules_def command_output_def)


definition locked_sample :: kernel where
  "locked_sample = \<lparr> kn_chains = [(FILTER, INPUT) \<mapsto> [lock_hook LOCK_INPUT_CHAIN], (FILTER, FORWARD) \<mapsto> [lock_hook LOCK_FORWARD_CHAIN],
     (NAT, POSTROUTING) \<mapsto> [], (FILTER, LOCK_INPUT_CHAIN) \<mapsto> [drop_in IFNAME, return_rule],
     (FILTER, LOCK_FORWARD_CHAIN) \<mapsto> [drop_out IFNAME, drop_in IFNAME, return_rule]], kn_sets = Map.empty, kn_hub = None \<rparr>"

lemma ruleset_lock_steps:
  "ensure_chain_exists ruleset_tool t c k = Some (Inr (), if kn_chains k (t, c) = None then with_chain t c [] k else k)"
  "kn_chains k (FILTER, c) = Some rs \<Longrightarrow>
    ensure_lock_rule ruleset_tool c rule k = Some (Inr (), if rule \<in> set rs then k else with_chain FILTER c (rule # rs) k)"
  "kn_chains k (FILTER, c) = Some rs \<Longrightarrow>
    ensure_return ruleset_tool c k = Some (Inr (), if return_rule \<in> set rs then k else with_chain FILTER c (rs @ [return_rule]) k)"
proof -
  have one: "lit ''1'' = dec_digits 1" by (simp add: dec_digits.simps lit_def)
  show "ensure_chain_exists ruleset_tool t c k = Some (Inr (), if kn_chains k (t, c) = None then with_chain t c [] k else k)"
    by (simp add: ensure_chain_exists_def fw_bind_def fw_return_def ruleset_looks ruleset_edits)
  show "kn_chains k (FILTER, c) = Some rs \<Longrightarrow>
    ensure_lock_rule ruleset_tool c rule k = Some (Inr (), if rule \<in> set rs then k else with_chain FILTER c (rule # rs) k)"
    using ruleset_looks(1) [of FILTER c rule k]
    by (simp add: ensure_lock_rule_def fw_bind_def fw_return_def one ruleset_edits rules_in_simps)
  show "kn_chains k (FILTER, c) = Some rs \<Longrightarrow>
    ensure_return ruleset_tool c k = Some (Inr (), if return_rule \<in> set rs then k else with_chain FILTER c (rs @ [return_rule]) k)"
    using ruleset_looks(1) [of FILTER c return_rule k]
    by (simp add: ensure_return_def fw_bind_def fw_return_def ruleset_edits rules_in_simps)
qed

lemma lock_run: "lock_existing_vpn ruleset_tool sample_kernel = Some (Inr \<lparr> fl_armed = True \<rparr>, locked_sample)"
  unfolding lock_existing_vpn_def ensure_lock_chains_def reassert_def
  by (simp add: ruleset_lock_steps ruleset_restore fw_bind_def fw_return_def sample_kernel_def locked_sample_def with_chain_def edit_chain_def
     edit_insert_first fun_upd_twist drop_rules_inject)


lemma ruleset_insert_second:
  "kn_chains k (t, c) = Some (r # rs) \<Longrightarrow> insert_rule_at ruleset_tool t c 2 rule k = Some (Inr (), with_chain t c (r # rule # rs) k)"
  using ruleset_edit [of t c "InsertRule 2 rule" k] by (simp add: insert_rule_at_def)

lemma ruleset_insert:
  "kn_chains k (t, c) = Some rs \<Longrightarrow> insert_rule ruleset_tool t c rule k = Some (Inr (), with_chain t c (rule # rs) k)"
  using ruleset_edit [of t c "InsertRule 1 rule" k] by (simp add: insert_rule_def dec_digits.simps lit_def)

lemma for_each_still: "(\<And>x. f x k = Some (Inr (), k)) \<Longrightarrow> for_each f xs k = Some (Inr (), k)"
  by (induction xs) (simp_all add: fw_return_def fw_bind_def)

lemma ruleset_install:
  assumes "kn_chains k (FILTER, INPUT) = Some [r, r']" and "kn_chains k (FILTER, FORWARD) = Some [f, f']" and "kn_chains k (NAT, POSTROUTING) = Some []"
    and "r' \<noteq> input_hook IFNAME" "f' \<noteq> dispatch_hook" "r \<noteq> input_hook IFNAME" "f \<noteq> dispatch_hook"
  shows "\<exists>k'. install_chains ruleset_tool client policy [] False None k = Some (Inr (), k')
    \<and> kn_chains k' (FILTER, INPUT) \<noteq> None \<and> kn_chains k' (FILTER, FORWARD) \<noteq> None \<and> kn_sets k' = kn_sets k"
proof -
  have sources: "for_each (\<lambda>source. fw_bind (remove_all_rules ruleset_tool NAT POSTROUTING (m source)) (\<lambda>_. remove_all_rules ruleset_tool NAT POSTROUTING (j source))) xs k
      = Some (Inr (), k)" if "kn_chains k (NAT, POSTROUTING) = Some []" for m j xs k
    using that by (intro for_each_still) (simp add: fw_bind_def ruleset_remove_all purged_def with_chain_same)
  have "NAT_CHAIN \<noteq> POSTROUTING" by (simp add: NAT_CHAIN_def)
  then show ?thesis
    using assms
    by (simp add: install_chains_def setup_input_guard_def setup_forward_chains_def setup_nat_chain_def fw_bind_def fw_return_def
      ruleset_ensure_chain ruleset_appends ruleset_remove_all purged_def ruleset_insert_second ruleset_insert sources)
qed


lemma ruleset_reassert:
  assumes "kn_chains k (FILTER, INPUT) \<noteq> None" and "kn_chains k (FILTER, FORWARD) \<noteq> None"
  shows "\<exists>n. reassert ruleset_tool \<lparr> fl_armed = True \<rparr> k = Some (Inr (), k \<lparr> kn_chains := n \<rparr>)"
proof -
  have "\<exists>n. edit_chains FILTER [InsertLine INPUT 1 (lock_hook LOCK_INPUT_CHAIN),
      InsertLine FORWARD 1 (lock_hook LOCK_FORWARD_CHAIN)] (kn_chains k) = Some n"
    using assms by (auto simp: edit_chain_def)
  then show ?thesis using ruleset_restore by (fastforce simp: reassert_def)
qed

lemma ruleset_ipset: "nf_ipset ruleset_tool k = \<lparr> it_restore = load_script, it_destroy = (\<lambda>n m. m(n := None)) \<rparr>"
  by (simp add: ruleset_tool_def script_loader_def)

lemma ruleset_release: "\<exists>k'. release_guards ruleset_tool k = Some (Inr (), k')"
  by (simp add: release_guards_def clear_fail_closed_lock_def fw_bind_def ruleset_remove_all on_ipset_def clear_transition_sets_def
    ensure_transition_sets_def ensure_transition_lines_def ruleset_ipset set_names)

lemma ruleset_unlock: "unlock ruleset_tool \<lparr> fl_armed = True \<rparr> k =
    Some (Inr (), purged FILTER FORWARD (lock_hook LOCK_FORWARD_CHAIN) (purged FILTER INPUT (lock_hook LOCK_INPUT_CHAIN) k))"
  by (simp add: unlock_def clear_fail_closed_lock_def fw_bind_def ruleset_remove_all)

lemma sample_update:
  "\<exists>k'. update_kernel ruleset_tool (\<lambda>_. memory_hub) cidr_blocks sample_view (lit ''deadbeef'') sample_interface
      (168624128, 19) [] [] False None False sample_kernel = Some (Inr (), k')"
proof -
  let ?none = "[] :: (ipv4 \<times> nat) service_route list"
  let ?locked = "\<lambda>s. locked_sample \<lparr> kn_sets := s \<rparr>"
  let ?boundary = "setup_vpn_firewall ruleset_tool cidr_blocks sample_view (lit ''deadbeef'') (168624128, 19) [] [] False None"
  have "verify_ip_forwarding sample_view = Inr ()"
    by (simp add: verify_ip_forwarding_def sample_view_def str_trim_def lit_def char_whitespace_def)
  have lock2: "\<exists>k'. lock_vpn_traffic ruleset_tool ?none False (?locked s) = Some (Inr \<lparr> fl_armed = True \<rparr>, k')
      \<and> kn_chains k' (FILTER, INPUT) = Some [lock_hook LOCK_INPUT_CHAIN, lock_hook LOCK_INPUT_CHAIN]
      \<and> kn_chains k' (FILTER, FORWARD) = Some [lock_hook LOCK_FORWARD_CHAIN, lock_hook LOCK_FORWARD_CHAIN]
      \<and> kn_chains k' (NAT, POSTROUTING) = Some []" for s
    unfolding lock_vpn_traffic_def ensure_lock_chains_def reassert_def
    by (simp add: ruleset_lock_steps ruleset_restore fw_bind_def fw_return_def locked_sample_def edit_chain_def edit_insert_first drop_rules_inject)
  obtain s policy where prep: "fw_bind (on_ipset ruleset_tool ensure_transition_sets) (\<lambda>_. prepare_policy ruleset_tool cidr_blocks (168624128, 19) [] [] (lit ''deadbeef'')) locked_sample
     = Some (Inr policy, ?locked s)"
    by (simp add: fw_bind_def on_ipset_def ensure_transition_sets_def ensure_transition_lines_def ruleset_tool_def script_loader_def prepare_policy_def prepare_def
      prepare_lines_def locked_sample_def set_names lit_def Let_def)
  obtain k2 where k2: "lock_vpn_traffic ruleset_tool ?none False (?locked s) = Some (Inr \<lparr> fl_armed = True \<rparr>, k2)"
    "kn_chains k2 (FILTER, INPUT) = Some [lock_hook LOCK_INPUT_CHAIN, lock_hook LOCK_INPUT_CHAIN]"
    "kn_chains k2 (FILTER, FORWARD) = Some [lock_hook LOCK_FORWARD_CHAIN, lock_hook LOCK_FORWARD_CHAIN]"
    "kn_chains k2 (NAT, POSTROUTING) = Some []"
    using lock2 by blast
  obtain k3 where k3: "install_chains ruleset_tool (ip_show cidr_blocks (168624128, 19)) policy ?none False None k2 = Some (Inr (), k3)"
    "kn_chains k3 (FILTER, INPUT) \<noteq> None" "kn_chains k3 (FILTER, FORWARD) \<noteq> None"
    using ruleset_install [OF k2(2-4), of "ip_show cidr_blocks (168624128, 19)" policy] by auto
  obtain n where n: "reassert ruleset_tool \<lparr> fl_armed = True \<rparr> k3 = Some (Inr (), k3 \<lparr> kn_chains := n \<rparr>)"
    using ruleset_reassert k3(2,3) by blast
  have absent: "vpn_firewall_installed ruleset_tool cidr_blocks sample_view (168624128, 19) [] False None (?locked s) = Some (Inr False, ?locked s)"
    by (simp add: vpn_firewall_installed_def fw_bind_def fw_return_def ruleset_looks locked_sample_def)
  have "\<exists>k'. activate ruleset_tool cidr_blocks sample_view (168624128, 19) [] policy [] False None (?locked s)
      = Some (Inr (policy \<lparr> pp_live := True \<rparr>, \<lparr> fl_armed = True \<rparr>), k')"
    by (simp add: activate_def fw_bind_def absent k2(1) k3(1) n fw_return_def)
  then obtain k4 where k4: "dropping ruleset_tool policy (activate ruleset_tool cidr_blocks sample_view (168624128, 19) [] policy [] False None) (?locked s)
      = Some (Inr \<lparr> fl_armed = True \<rparr>, k4)"
    by (auto simp: dropping_def)
  have "?boundary locked_sample = Some (Inr \<lparr> fl_armed = True \<rparr>, k4)"
    using \<open>verify_ip_forwarding sample_view = Inr ()\<close> prep k4
    by (auto simp: setup_vpn_firewall_def fw_result_def resolve_service_routes_def fw_bind_def bind_eq_Some_conv split: sum.splits)
  note built = this
  have hub: "\<exists>k'. configure_hub_with_retry (\<lambda>_. memory_hub) sample_interface 3 k4 = Some (Inr (), k')"
    by (simp add: configure_hub_with_retry_def retry_operation_def configure_hub_def memory_hub_def upt_rec)
  then obtain k5 where k5: "configure_hub_with_retry (\<lambda>_. memory_hub) sample_interface 3 k4 = Some (Inr (), k5)" by blast
  have "\<exists>k'. apply_kernel_state ruleset_tool (\<lambda>_. memory_hub) cidr_blocks sample_view (lit ''deadbeef'') sample_interface
      (168624128, 19) [] [] False None False sample_kernel = Some (Inr (), k')"
    by (simp add: apply_kernel_state_def Let_def fw_bind_def lock_run built k5 ruleset_unlock)
  then show ?thesis
    using ruleset_release by (auto simp: update_kernel_def apply_then_release_guards_def fw_bind_def)
qed

end
