(* ===== verification/Vpn_Enforced.thy ===== *)
theory Vpn_Enforced
  imports Vpn_Run
begin

text \<open>
  What the chains of the kernel do with a packet of the tunnel: behind the lock everything is dropped,
  and after an update the chains decide as the policies say.
\<close>

section \<open>Verdicts of the kernel\<close>

text \<open>The verdict of a chain of the filter table, with jumps nested at most as deep as the number.\<close>

fun chain_verdict ::
  "((ustr \<Rightarrow> ustr \<Rightarrow> bool) \<Rightarrow> (ustr \<Rightarrow> packet \<Rightarrow> verdict option) \<Rightarrow> rule list \<Rightarrow> packet \<Rightarrow> verdict option)
    \<Rightarrow> (ustr \<Rightarrow> ustr \<Rightarrow> bool) \<Rightarrow> chain_table \<Rightarrow> nat \<Rightarrow> ustr \<Rightarrow> packet \<Rightarrow> verdict option" where
  "chain_verdict walk S n 0 c p = None"
| "chain_verdict walk S n (Suc d) c p = walk S (chain_verdict walk S n d) (rules_in n FILTER c) p"

context packet_filter
begin

lemma walk_drop_in: "walk S call (drop_in i # rs) p = (if pk_in p = i then Some Dropped else walk S call rs p)"
  using walk_drop [of S call "[lit ''-i'', i]" rs p] by (simp add: drop_in_def reads_rules)

lemma walk_drop_out: "walk S call (drop_out i # rs) p = (if pk_out p = i then Some Dropped else walk S call rs p)"
  using walk_drop [of S call "[lit ''-o'', i]" rs p] by (simp add: drop_out_def reads_rules)

lemma walk_jump:
  "c \<in> {LOCK_INPUT_CHAIN, LOCK_FORWARD_CHAIN, INPUT_CHAIN, FORWARD_CHAIN, FORWARD_DISPATCH_CHAIN} \<Longrightarrow>
    walk S call ((m @ [lit ''-j'', c]) # rs) p
      = (if reads S m p then (case call c p of Some v \<Rightarrow> Some v | None \<Rightarrow> walk S call rs p) else walk S call rs p)"
  by (rule walk_call) (auto simp: chain_names)

lemma walk_lock_hook:
  "c \<in> {LOCK_INPUT_CHAIN, LOCK_FORWARD_CHAIN} \<Longrightarrow>
    walk S call (lock_hook c # rs) p = (case call c p of Some v \<Rightarrow> Some v | None \<Rightarrow> walk S call rs p)"
  using walk_jump [of c S call "[]" rs p] by (auto simp: lock_hook_def reads_nil)

lemma walk_input_hook:
  "walk S call (input_hook i # rs) p =
    (if pk_in p = i then (case call INPUT_CHAIN p of Some v \<Rightarrow> Some v | None \<Rightarrow> walk S call rs p) else walk S call rs p)"
  using walk_jump [of INPUT_CHAIN S call "[lit ''-i'', i]" rs p] by (simp add: input_hook_def reads_rules)

lemma walk_dispatch_hook:
  "walk S call (dispatch_hook # rs) p = (case call FORWARD_DISPATCH_CHAIN p of Some v \<Rightarrow> Some v | None \<Rightarrow> walk S call rs p)"
  using walk_jump [of FORWARD_DISPATCH_CHAIN S call "[]" rs p] by (simp add: dispatch_hook_def reads_nil)

lemma walk_locked:
  assumes "lock_chain_ok rs" and "drop_in i \<in> set rs \<and> pk_in p = i \<or> drop_out i \<in> set rs \<and> pk_out p = i"
  shows "walk S call rs p = Some Dropped"
proof -
  obtain ds tl where rs: "rs = ds @ tl" "\<forall>d \<in> set ds. \<exists>i. d = drop_in i \<or> d = drop_out i" "tl \<in> {[], [return_rule]}"
    using assms(1) by (auto simp: lock_chain_ok_def)
  then have "drop_in i \<in> set ds \<and> pk_in p = i \<or> drop_out i \<in> set ds \<and> pk_out p = i" using assms(2) by auto
  then show ?thesis using rs(2) unfolding rs(1)
  proof (induction ds)
    case (Cons d ds)
    then obtain j where j: "d = drop_in j \<or> d = drop_out j" by auto
    have rest: "walk S call (ds @ tl) p = Some Dropped" if "drop_in i \<in> set ds \<and> pk_in p = i \<or> drop_out i \<in> set ds \<and> pk_out p = i"
      using Cons.IH [OF that] Cons.prems(2) by simp
    from j show ?case
      using Cons.prems(1) rest by (elim disjE) (auto simp: walk_drop_in walk_drop_out drop_rules_inject)
  qed simp
qed

lemma locked_drops:
  assumes "locked k"
  shows "pk_in p = IFNAME \<Longrightarrow> chain_verdict walk S (kn_chains k) (Suc (Suc d)) INPUT p = Some Dropped"
    and "pk_in p = IFNAME \<or> pk_out p = IFNAME \<Longrightarrow> chain_verdict walk S (kn_chains k) (Suc (Suc d)) FORWARD p = Some Dropped"
proof -
  note lock = assms [unfolded locked_def lock_complete_def lock_chains_ok_def]
  obtain ins fs where hooks: "rules_in (kn_chains k) FILTER INPUT = lock_hook LOCK_INPUT_CHAIN # ins"
    "rules_in (kn_chains k) FILTER FORWARD = lock_hook LOCK_FORWARD_CHAIN # fs"
    using lock by (auto simp: rules_in_def)
  show "chain_verdict walk S (kn_chains k) (Suc (Suc d)) INPUT p = Some Dropped" if "pk_in p = IFNAME"
    using lock that walk_locked [of "rules_in (kn_chains k) FILTER LOCK_INPUT_CHAIN" IFNAME p S]
    by (simp add: hooks walk_lock_hook)
  show "chain_verdict walk S (kn_chains k) (Suc (Suc d)) FORWARD p = Some Dropped" if "pk_in p = IFNAME \<or> pk_out p = IFNAME"
    using lock that walk_locked [of "rules_in (kn_chains k) FILTER LOCK_FORWARD_CHAIN" IFNAME p S]
    by (auto simp: hooks walk_lock_hook)
qed

lemma walk_hooked_input:
  assumes "set pre \<subseteq> insert (input_hook IFNAME) other_input_hooks" and "pk_in p = IFNAME" and "call INPUT_CHAIN p = Some v"
  shows "walk S call (pre @ input_hook IFNAME # post) p = Some v"
  using assms(1) by (induction pre) (auto simp: walk_input_hook other_input_hooks_def assms(2,3))

lemma walk_hooked_forward:
  assumes "set pre \<subseteq> {dispatch_hook}" and "call FORWARD_DISPATCH_CHAIN p = Some v"
  shows "walk S call (pre @ dispatch_hook # post) p = Some v"
  using assms(1) by (induction pre) (auto simp: walk_dispatch_hook assms(2))

lemma installed_input:
  assumes "installed policy routes guarded same_origin k" and "unlocked k" and "pk_in p = IFNAME"
  shows "chain_verdict walk S (kn_chains k) (Suc (Suc d)) INPUT p
    = walk S (chain_verdict walk S (kn_chains k) d)
        (input_rule_plan (pp_all_peers policy) (pp_sets policy) routes guarded same_origin) p"
proof -
  obtain pre post where rs: "rules_in (kn_chains k) FILTER INPUT = pre @ input_hook IFNAME # post"
    "set pre \<subseteq> insert (input_hook IFNAME) (insert (lock_hook LOCK_INPUT_CHAIN) other_input_hooks)"
    using assms(1) by (auto simp: installed_def hooks_in_place_def hooked_def)
  then have pre: "set pre \<subseteq> insert (input_hook IFNAME) other_input_hooks" using assms(2) by (auto simp: unlocked_def)
  have "chain_verdict walk S (kn_chains k) (Suc d) INPUT_CHAIN p
      = walk S (chain_verdict walk S (kn_chains k) d) (input_rule_plan (pp_all_peers policy) (pp_sets policy) routes guarded same_origin) p"
    using assms(1) by (simp add: installed_def rules_in_def)
  then show ?thesis
    using walk_hooked_input [OF pre assms(3)] unfolding input_verdict chain_verdict.simps(2) [of walk S _ _ INPUT] rs(1) by simp
qed

lemma installed_forward:
  assumes "installed policy routes guarded same_origin k" and "unlocked k" and "pk_in p = IFNAME \<or> pk_out p = IFNAME"
  shows "chain_verdict walk S (kn_chains k) (Suc (Suc (Suc d))) FORWARD p
    = walk S (chain_verdict walk S (kn_chains k) d) (forwarding_rule_plan (pp_all_peers policy) (pp_sets policy) same_origin) p"
proof -
  obtain pre post where rs: "rules_in (kn_chains k) FILTER FORWARD = pre @ dispatch_hook # post"
    "set pre \<subseteq> insert dispatch_hook {lock_hook LOCK_FORWARD_CHAIN}"
    using assms(1) by (auto simp: installed_def hooks_in_place_def hooked_def)
  then have pre: "set pre \<subseteq> {dispatch_hook}" using assms(2) by (auto simp: unlocked_def)
  let ?plan = "walk S (chain_verdict walk S (kn_chains k) d) (forwarding_rule_plan (pp_all_peers policy) (pp_sets policy) same_origin) p"
  have chain: "chain_verdict walk S (kn_chains k) (Suc d) FORWARD_CHAIN p = ?plan"
    and dispatch: "rules_in (kn_chains k) FILTER FORWARD_DISPATCH_CHAIN = dispatch_rule_plan routes guarded"
    using assms(1) by (simp_all add: installed_def rules_in_def)
  obtain v where v: "?plan = Some v" unfolding forwarding_verdict by blast
  have "chain_verdict walk S (kn_chains k) (Suc (Suc d)) FORWARD_DISPATCH_CHAIN p = Some v"
    using assms(3) chain v walk_jump [of FORWARD_CHAIN S "chain_verdict walk S (kn_chains k) (Suc d)" "[lit ''-i'', IFNAME]"]
      walk_jump [of FORWARD_CHAIN S "chain_verdict walk S (kn_chains k) (Suc d)" "[lit ''-o'', IFNAME]"]
    by (auto simp: dispatch dispatch_rule_plan_def reads_rules simp del: chain_verdict.simps
        simp: chain_verdict.simps(2) [of walk S _ "Suc d" FORWARD_DISPATCH_CHAIN])
  then show ?thesis
    using walk_hooked_forward [OF pre] unfolding v chain_verdict.simps(2) [of walk S _ _ FORWARD] rs(1) by blast
qed

end


definition sample_locked :: kernel where
  "sample_locked = \<lparr> kn_chains = [(FILTER, INPUT) \<mapsto> [lock_hook LOCK_INPUT_CHAIN], (FILTER, FORWARD) \<mapsto> [lock_hook LOCK_FORWARD_CHAIN],
     (FILTER, LOCK_INPUT_CHAIN) \<mapsto> [drop_in IFNAME, return_rule],
     (FILTER, LOCK_FORWARD_CHAIN) \<mapsto> [drop_out IFNAME, drop_in IFNAME, return_rule]], kn_sets = Map.empty, kn_hub = None \<rparr>"


section \<open>From the policies to the packets\<close>

text \<open>A kernel whose ipset commands load scripts as documented and destroy nothing but the named set.\<close>

locale vpn_kernel = netfilter +
  assumes loads: "ip_sets (nf_ipset K n)"
    and destroys: "m \<noteq> name \<Longrightarrow> it_destroy (nf_ipset K n) name s m = s m"

interpretation ruleset: vpn_kernel ruleset_tool shown_rule
  by (intro vpn_kernel.intro ruleset.netfilter_axioms vpn_kernel_axioms.intro)
    (simp_all add: ruleset_tool_def loader.ip_sets_axioms, simp add: script_loader_def)

context ip_sets
begin

lemma create_exist_frame:
  "it_restore T True (CreateSet m t # ls) k = (True, k') \<Longrightarrow> \<exists>k1. it_restore T True ls k1 = (True, k') \<and> (\<forall>n. n \<noteq> m \<longrightarrow> k1 n = k n)"
  using restore_create [of True m t ls k k'] by (auto intro: exI [of _ "k(m \<mapsto> {})"])

lemma ensure_transition_frame:
  assumes "ensure_transition_sets T k = (True, k')" and "n \<notin> {QUARANTINE_SET, TRANSITION_BLOCK_SET}"
  shows "k' n = k n"
proof -
  obtain k1 where k1: "it_restore T True [CreateSet TRANSITION_BLOCK_SET ''hash:ip,port,ip''] k1 = (True, k')"
    "\<forall>n. n \<noteq> QUARANTINE_SET \<longrightarrow> k1 n = k n"
    using assms(1) create_exist_frame [of QUARANTINE_SET "''hash:ip''" _ k k']
    unfolding ensure_transition_sets_def ensure_transition_lines_def by blast
  obtain k2 where "it_restore T True [] k2 = (True, k')" "\<forall>n. n \<noteq> TRANSITION_BLOCK_SET \<longrightarrow> k2 n = k1 n"
    using create_exist_frame [OF k1(1)] by blast
  then show ?thesis using k1(2) restore_nil [of True k2] assms(2) by auto
qed

lemma clear_transition_result:
  assumes "clear_transition_sets T k = (True, k')"
  shows "n \<notin> {QUARANTINE_SET, TRANSITION_BLOCK_SET} \<Longrightarrow> k' n = k n"
    and "n \<in> {QUARANTINE_SET, TRANSITION_BLOCK_SET} \<Longrightarrow> \<not> members k' n e"
proof -
  obtain k1 where k1: "ensure_transition_sets T k = (True, k1)"
    "it_restore T True [FlushSet QUARANTINE_SET, FlushSet TRANSITION_BLOCK_SET] k1 = (True, k')"
    using assms by (auto simp: clear_transition_sets_def split: prod.splits bool.splits)
  have "k' = k1(QUARANTINE_SET \<mapsto> {}, TRANSITION_BLOCK_SET \<mapsto> {})"
    using restore_flush [OF k1(2)] restore_flush [of True TRANSITION_BLOCK_SET "[]" "k1(QUARANTINE_SET \<mapsto> {})" k']
      restore_nil [of True "k1(QUARANTINE_SET \<mapsto> {}, TRANSITION_BLOCK_SET \<mapsto> {})"] by auto
  then show "n \<notin> {QUARANTINE_SET, TRANSITION_BLOCK_SET} \<Longrightarrow> k' n = k n"
    "n \<in> {QUARANTINE_SET, TRANSITION_BLOCK_SET} \<Longrightarrow> \<not> members k' n e"
    using ensure_transition_frame [OF k1(1)] by (auto simp: members_def)
qed

end

text \<open>The sets of a generation as they were prepared.\<close>

definition holds_sets :: "prepared_policy \<Rightarrow> ipset_table \<Rightarrow> kernel \<Rightarrow> bool" where
  "holds_sets policy s k \<longleftrightarrow> (\<forall>n \<in> set (pp_names policy). kn_sets k n = s n)"

lemma holds_sets_irrelevant [simp]:
  "holds_sets policy s (k \<lparr> kn_chains := c \<rparr>) = holds_sets policy s k"
  "holds_sets policy s (k \<lparr> kn_hub := h \<rparr>) = holds_sets policy s k"
  by (simp_all add: holds_sets_def)

lemma holds_sets_ignores: "ignores (holds_sets policy s) t c"
  by (simp add: ignores_def with_chain_def)

lemma ignoring_tolerant: "(\<And>t c. ignores P t c) \<Longrightarrow> lock_tolerant P \<and> hook_tolerant P"
  by (auto simp: ignores_def lock_tolerant_def hook_tolerant_def)

lemma prepared_names:
  assumes "prepare N T client routes policies g s = (Some policy, s')" and "n \<in> set (pp_names policy)"
  shows "n \<notin> {QUARANTINE_SET, TRANSITION_BLOCK_SET}"
  using assms
  by (auto simp: prepare_def Let_def set_names_of_def sets_of_policy_def policy_set_name_def set_names lit_def
      split: prod.splits bool.splits)

context vpn_kernel
begin

lemma fold_destroy:
  "n \<notin> set names \<Longrightarrow> fold (it_destroy (nf_ipset K c)) names s n = s n"
  by (induction names arbitrary: s) (auto simp: destroys)

lemma ensures_total: "keeps (\<lambda>_. True) m \<Longrightarrow> (\<And>a k'. Q a k') \<Longrightarrow> ensures m Q k"
  by (auto simp: keeps_def ensures_def elim!: wp_mono)

lemma replace_live_marks: "ensures (replace_live K policy routes guarded same_origin) (\<lambda>p _. p = policy \<lparr> pp_live := True \<rparr>) k"
  unfolding replace_live_restores ensures_simps by (intro ensures_total keeps_restore_chains) (auto simp: ignores_def)

lemma activate_marks: "ensures (activate K N host client services policy routes guarded same_origin) (\<lambda>r _. pp_live (fst r)) k"
proof -
  have after: "ensures (\<lambda>k. fw_return x (f k)) Q k \<longleftrightarrow> Q x (f k)" for x :: "prepared_policy \<times> firewall_lock" and f Q k
    by (cases x) (simp add: ensures_def wp_after)
  have any: "ignores (\<lambda>_. True) t c" for t c by (simp add: ignores_def)
  note tolerant' = ignoring_tolerant [OF any]
  have live: "ensures (replace_live K policy routes guarded same_origin) (\<lambda>live.
      ensures (\<lambda>k. fw_return (live, \<lparr> fl_armed = False \<rparr>) (cleanup_stale_sets K live k)) (\<lambda>r _. pp_live (fst r))) k" for k
    by (rule ensures_mono [OF replace_live_marks]) (simp add: after)
  have fresh: "ensures (lock_vpn_traffic K routes guarded) (\<lambda>lock.
      ensures (install_chains K (ip_show N client) policy routes guarded same_origin) (\<lambda>_.
      ensures (reassert K lock) (\<lambda>_. ensures (\<lambda>k. fw_return (policy \<lparr> pp_live := True \<rparr>, lock)
        (cleanup_stale_sets K (policy \<lparr> pp_live := True \<rparr>) k)) (\<lambda>r _. pp_live (fst r))))) k" for k
    unfolding after
    by (intro ensures_total keeps_lock keeps_install_ignored keeps_reassert any conjunct1 [OF tolerant'] conjunct2 [OF tolerant']) simp
  show ?thesis
    unfolding activate_def ensures_simps
    by (rule ensures_total [OF keeps_vpn_firewall_installed]) (use live fresh in simp)
qed

lemma keeps_activate_sets: "keeps (holds_sets policy s) (activate K N host client services policy routes guarded same_origin)"
proof -
  have clean: "keeps (holds_sets policy s) (\<lambda>k. fw_return x (cleanup_stale_sets K p k))" if "pp_names p = pp_names policy"
    for x :: "prepared_policy \<times> firewall_lock" and p
    using that by (auto simp: keeps_def wp_after holds_sets_def cleanup_stale_sets_def cleanup_stale_def fold_destroy split: option.splits)
  have live: "keeps (holds_sets policy s) (fw_bind (replace_live K policy routes guarded same_origin)
      (\<lambda>live k. fw_return (live, \<lparr> fl_armed = False \<rparr>) (cleanup_stale_sets K live k)))"
    unfolding keeps_def
  proof (intro allI impI wp_bindI)
    fix k
    assume k: "holds_sets policy s k"
    have "keeps P (replace_live K policy routes guarded same_origin)" if "\<And>t c. ignores P t c" for P
      unfolding replace_live_restores by (intro keeps_intros keeps_restore_chains that)
    from keepsD [of "holds_sets policy s", OF this k]
    have "wp (replace_live K policy routes guarded same_origin) (\<lambda>_. holds_sets policy s) k"
      by (simp add: holds_sets_ignores)
    moreover have "ensures (replace_live K policy routes guarded same_origin) (\<lambda>p _. pp_names p = pp_names policy) k"
      by (rule ensures_mono [OF replace_live_marks]) simp
    ultimately show "wp (replace_live K policy routes guarded same_origin)
        (\<lambda>r k'. holds_sets policy s k' \<and> (\<forall>p. r = Inr p \<longrightarrow> pp_names p = pp_names policy)) k"
      unfolding ensures_def by (rule wp_conj)
  qed (use clean in \<open>auto simp: keeps_def\<close>)
  note tolerant' = ignoring_tolerant [OF holds_sets_ignores]
  show ?thesis
    unfolding activate_def
    by (rule keeps_intros keeps_vpn_firewall_installed live keeps_lock conjunct1 [OF tolerant'] conjunct2 [OF tolerant']
        keeps_install_ignored holds_sets_ignores keeps_reassert clean | simp)+
qed

lemma setup_loads:
  "ensures (setup_vpn_firewall K N host generation client services policies guarded same_origin)
    (\<lambda>_ k'. \<exists>routes T s0 policy s. resolve_service_routes N host services guarded = Inr routes \<and> ip_sets T
      \<and> prepare N T client routes policies generation s0 = (Some policy, s) \<and> holds_sets policy s k') k"
proof -
  have drop: "ensures (dropping K policy (activate K N host client services policy routes guarded same_origin)) (\<lambda>_. holds_sets policy s) k"
    if k: "holds_sets policy s k" for policy s k routes
  proof -
    have "ensures (activate K N host client services policy routes guarded same_origin)
        (\<lambda>r k'. pp_live (fst r) \<and> holds_sets policy s k') k"
      using wp_conj [OF activate_marks [unfolded ensures_def] keepsD [OF keeps_activate_sets k]]
      unfolding ensures_def by (rule wp_mono) blast
    then show ?thesis
      by (auto simp: ensures_def wp_iff dropping_def drop_prepared_def drop_policy_def holds_sets_def split: sum.splits)
  qed
  have prep: "ensures (prepare_policy K N client routes policies generation) (\<lambda>policy k'. \<exists>T s0 s. ip_sets T
      \<and> prepare N T client routes policies generation s0 = (Some policy, s) \<and> holds_sets policy s k') k" for routes k
    using loads [of "kn_chains k"]
    by (auto simp: ensures_def wp_def prepare_policy_def holds_sets_def split: prod.splits option.splits)
  have trans: "ensures (on_ipset K ensure_transition_sets) (\<lambda>_ _. True) k" for k
    by (auto simp: ensures_def wp_def on_ipset_def split: prod.splits)
  show ?thesis
    unfolding setup_vpn_firewall_def ensures_simps
    by (auto intro!: ensures_mono [OF trans] ensures_mono [OF prep] ensures_mono [OF drop])
qed

lemma apply_loads:
  "ensures (apply_kernel_state K H N host generation cfg client services policies guarded same_origin incremental)
    (\<lambda>_ k'. \<exists>routes T s0 policy s. resolve_service_routes N host services guarded = Inr routes \<and> ip_sets T
      \<and> prepare N T client routes policies generation s0 = (Some policy, s) \<and> holds_sets policy s k') k"
    (is "ensures _ (\<lambda>_. ?L) k")
proof -
  let ?boundary = "setup_vpn_firewall K N host generation client services policies guarded same_origin"
  have L: "ignores ?L t c" for t c using holds_sets_ignores unfolding ignores_def by blast
  have any: "ignores (\<lambda>_. True) t c" for t c by (simp add: ignores_def)
  have unlock: "keeps ?L (unlock K lock)" for lock
    unfolding unlock_def clear_fail_closed_lock_def by (intro keeps_intros keeps_ignored L)
  have hub: "keeps ?L (configure_hub_with_retry H cfg n)" for n by (rule keeps_hub_calls) simp
  have first: "ensures (fw_bind ?boundary (unlock K)) (\<lambda>_. ?L) k" for k
    unfolding ensures_simps by (rule ensures_mono [OF setup_loads]) (rule ensures_keeps [OF unlock])
  have rest: "keeps ?L (fw_bind (configure_hub_with_retry H cfg 3) (\<lambda>_. fw_bind (unlock K lock) (\<lambda>_. unlock K early)))" for lock early
    by (intro keeps_intros hub unlock)
  have full: "ensures (fw_bind (lock_existing_vpn K) (\<lambda>early. fw_bind ?boundary (\<lambda>policy_lock. fw_bind (configure_hub_with_retry H cfg 3) (\<lambda>_.
      fw_bind (unlock K policy_lock) (\<lambda>_. unlock K early))))) (\<lambda>_. ?L) k" for k
    unfolding ensures_simps(3) [of "lock_existing_vpn K"] ensures_simps(3) [of ?boundary]
  proof (rule ensures_total)
    show "keeps (\<lambda>_. True) (lock_existing_vpn K)" using ignoring_tolerant [OF any] by (intro keeps_lock) auto
    show "ensures ?boundary (\<lambda>lock. ensures (fw_bind (configure_hub_with_retry H cfg 3) (\<lambda>_. fw_bind (unlock K lock) (\<lambda>_. unlock K early))) (\<lambda>_. ?L)) k'"
      for early k' by (rule ensures_mono [OF setup_loads]) (rule ensures_keeps [OF rest])
  qed
  show ?thesis
    using first full
    by (auto simp: apply_kernel_state_def Let_def ensures_def wp_def split: prod.splits sum.splits incremental_error.splits)
qed

lemma release_keeps_sets:
  assumes "holds_sets policy s k" and "prepare N T client routes policies g s0 = (Some policy, s)"
  shows "ensures (release_guards K) (\<lambda>_. holds_sets policy s) k"
proof -
  have "keeps (holds_sets policy s) (clear_fail_closed_lock K)"
    unfolding clear_fail_closed_lock_def by (intro keeps_intros keeps_ignored holds_sets_ignores)
  moreover have "ensures (on_ipset K clear_transition_sets) (\<lambda>_. holds_sets policy s) k'" if "holds_sets policy s k'" for k'
  proof -
    have frame: "s2 n = kn_sets k' n" if "clear_transition_sets (nf_ipset K (kn_chains k')) (kn_sets k') = (True, s2)"
      "n \<notin> {QUARANTINE_SET, TRANSITION_BLOCK_SET}" for s2 n
      using ip_sets.clear_transition_result(1) [OF loads that] .
    show ?thesis
      unfolding ensures_def wp_def on_ipset_def holds_sets_def
      using that prepared_names [OF assms(2)] frame by (auto simp: holds_sets_def split: prod.splits)
  qed
  ultimately show ?thesis
    unfolding release_guards_def ensures_simps
    using ensures_keeps [of "holds_sets policy s" "clear_fail_closed_lock K" k] assms(1) by (auto elim: ensures_mono)
qed

lemma update_loads:
  "ensures (update_kernel K H N host generation cfg client services policies guarded same_origin incremental)
    (\<lambda>_ k'. \<exists>routes T s0 policy s. resolve_service_routes N host services guarded = Inr routes \<and> ip_sets T
      \<and> prepare N T client routes policies generation s0 = (Some policy, s) \<and> holds_sets policy s k') k"
  unfolding update_kernel_def apply_then_release_guards_def ensures_simps
proof (rule ensures_mono [OF apply_loads])
  fix a k'
  assume "\<exists>routes T s0 policy s. resolve_service_routes N host services guarded = Inr routes \<and> ip_sets T
      \<and> prepare N T client routes policies generation s0 = (Some policy, s) \<and> holds_sets policy s k'"
  then obtain routes T s0 policy s where r: "resolve_service_routes N host services guarded = Inr routes" "ip_sets T"
    "prepare N T client routes policies generation s0 = (Some policy, s)" "holds_sets policy s k'" by blast
  show "ensures (release_guards K) (\<lambda>_ k'. \<exists>routes T s0 policy s. resolve_service_routes N host services guarded = Inr routes \<and> ip_sets T
      \<and> prepare N T client routes policies generation s0 = (Some policy, s) \<and> holds_sets policy s k') k'"
    by (rule ensures_mono [OF release_keeps_sets [OF r(4,3)]]) (use r(1-3) in blast)
qed

end



end
