(* ===== verification/Spec2Isabelle.thy ===== *)
theory Spec2Isabelle
  imports Rsctf_Prelude App_Error Koth_Cycle Flag_Policy Suspicion_Rules Suspicion_Scoring Admission_Core
    Hub_Admission Asset_Admission Proxy_Admission Proxy_Traffic Workload_Spec
    Worker_Wire Control_Admission Worker_Commands Worker_Lane Worker_Registry Worker_Fencing Worker_Listener
    Vpn_Network Vpn_Policy Vpn_Rules Vpn_Sets Vpn_Boundary Vpn_Capture
    Vpn_Routes Vpn_Netfilter Vpn_Hub Vpn_Install Vpn_Update Vpn_Run Vpn_Enforced
begin

text \<open>
  A verification development for rsctf, a capture-the-flag platform written in Rust: one server that keeps games,
  teams and flags in PostgreSQL, starts challenge containers through Docker, Kubernetes or remote workers, proxies
  players to them, and for attack-and-defence games runs a WireGuard VPN whose kernel firewall decides who reaches
  whom. Most of the server is SQL and I/O; the development models the parts that decide something by themselves.

  \<^bold>\<open>Conventions.\<close> \<open>Rsctf_Prelude\<close> has the vocabulary: signed integers are \<open>int\<close> and unsigned ones \<open>nat\<close>, with
  the wrapping, saturating or checked operation of the source written out and the width as a bound in the theorem
  that needs it (IPv4 addresses are 32-bit words); a \<open>Result\<close> is a sum with \<open>Inl\<close> the error; a string is a list of
  code points with its UTF-8 bytes; a loop with early return is \<open>try_fold\<close>. A mutex-protected table is a record
  that an operation returns updated; code with several awaits or atomics is cut into one step per atomic access,
  and the theorems quantify over the interleavings. Clocks, random identifiers, rows of queries, hash functions, the JSON
  codec, the kernel's tools and the durable authority of the workers are arguments; what the code relies on of them is the
  \<open>assumes\<close> of a locale, and each locale is interpreted on a concrete provider.

  \<^bold>\<open>Errors.\<close> \<open>App_Error\<close> (src/utils/error.rs): the error enumeration and the response it renders.

  \<^bold>\<open>King of the Hill.\<close> \<open>Koth_Cycle\<close> (src/services/ad/engine/koth_cycle): cycle coordinates, the phase codes of the
  durable state machine, the claim of a token on a hill, and the champions of a cycle. The invariant ties the claim and
  acquisition tables together for every sequence of observations; a hill changes its holder only by a
  healthy streak that reaches the threshold.

  \<^bold>\<open>Flags.\<close> \<open>Flag_Policy\<close> (src/utils/flag_policy.rs, src/utils/flag_generator.rs): templates, their validation,
  and generation. Whatever template is accepted, the flags it generates satisfy the submission policy.

  \<^bold>\<open>Suspicion.\<close> \<open>Suspicion_Rules\<close> and \<open>Suspicion_Scoring\<close> (src/services/suspicion): the rule table, the tiered
  score of a participation with its caps, ceilings and quarantine, and the ranking of the cheat report. The loop
  equals a closed form, is bounded, and reconciles with the contributions it lists.

  \<^bold>\<open>Admission.\<close> \<open>Admission_Core\<close>, \<open>Hub_Admission\<close> (src/hubs/admission.rs), \<open>Asset_Admission\<close>
  (src/services/asset_admission.rs), \<open>Proxy_Admission\<close> and \<open>Proxy_Traffic\<close> (src/services/proxy_admission.rs): permits
  counted per key, one-second windows packed into one atomic word, leases. Counters equal the live permits in every
  reachable state, except where the source loses a slot, which \<open>leaked_slots_exhaust_the_proxy\<close> shows.

  \<^bold>\<open>Workers.\<close> \<open>Workload_Spec\<close> and \<open>Worker_Wire\<close> (lib/worker-protocol/src) are the specification and the frames that
  server and worker exchange; \<open>Control_Admission\<close>, \<open>Worker_Commands\<close>, \<open>Worker_Lane\<close>, \<open>Worker_Registry\<close>,
  \<open>Worker_Fencing\<close> and \<open>Worker_Listener\<close> (src/services/worker) are the server's side: quotas, the table of commands in
  flight, data lanes as an interleaving of callers and driver, the registry of sessions, what its fencing
  guarantees, and the handling of a connection. The listener calls the registry, the registry the commands
  and the lanes; frames are validated before they have an effect, and a superseded session has none.

  \<^bold>\<open>VPN.\<close> (src/services/ad/vpn) The database says which peers, targets and cooldowns a game has; the owner turns them
  into one policy per game, loads them into ipsets of a fresh generation, and swaps the chains.
  \<^item> \<open>Vpn_Network\<close>: the address plan, the backend configuration and the allocation of addresses.
  \<^item> \<open>Vpn_Policy\<close>: policies from rows, cooldown validation, the quarantine of a transition.
  \<^item> \<open>Vpn_Rules\<close> and \<open>Vpn_Sets\<close>: the rule plans argument by argument with what iptables makes of them (locale
    \<open>packet_filter\<close>), and the ipset scripts line by line (locale \<open>ip_sets\<close>). \<open>Vpn_Boundary\<close>: the rules over the
    loaded sets accept exactly what the policies say. \<open>Vpn_Capture\<close>: the gate of captured endpoints.
  \<^item> \<open>Vpn_Routes\<close>, \<open>Vpn_Netfilter\<close>, \<open>Vpn_Hub\<close>, \<open>Vpn_Install\<close>: the commands that find routes, edit chains, configure
    WireGuard peers and install the boundary, as actions on a kernel of chains, sets and interface, each of
    which may fail (locales \<open>netfilter\<close> and \<open>wireguard\<close>; a small calculus of weakest preconditions carries
    the proofs). \<open>Vpn_Update\<close>: at whatever command an update stops, the boundary is the old one, or locked, or the
    complete new one. \<open>Vpn_Run\<close> and \<open>Vpn_Enforced\<close>: the verdict of the kernel's chains on a packet; the lock
    drops all of the tunnel, and after a successful update the chains refine the policies.

  \<^bold>\<open>Termination and bounds.\<close> All functions are total except \<open>remove_all_rules\<close>, whose loop ends only because each
  deletion removes a rule: it is a partial function, and \<open>remove_all_rules_terminates\<close> proves that it returns. The
  last argument of \<open>chain_verdict\<close> bounds the depth of jumps, 2 for INPUT and 3 for FORWARD, which the installed
  chains never exceed; any larger bound gives the same verdict.

  \<^bold>\<open>Not modelled.\<close> HTTP handlers, SQL and migrations, floating-point scores, detectors and outboxes, container backends,
  the agents, git and image builds, traffic capture files, Redis, storage, mail and process start-up: their
  logic is in the database, in other programs or in I/O. Of the modelled parts: error texts are constructors
  without their prose, logging and metrics labels are left out, a lock held across awaits is one step,
  and entries of kernel sets do not time out.
\<close>

end
